(* ===== verification/Prelude.thy ===== *)
theory Prelude
  imports Complex_Main "HOL-Library.Word" "HOL-Library.Char_ord" "HOL-Library.List_Lexorder"
begin

text \<open>
  Shared vocabulary of the development: machine integers, the result type with the
  propagation operator of the source (the question mark), the standard-library string and
  number operations the crates use, and the ordered string-keyed map that stands for
  \<^verbatim>\<open>std::collections::BTreeMap\<close>.

  Strings are lists of bytes: a Rust \<^verbatim>\<open>String\<close> is its UTF-8 encoding, and
  \<^verbatim>\<open>len\<close>, \<^verbatim>\<open>Ord\<close> and the searches for ASCII separators work on the bytes.
\<close>

section \<open>Names and hint collections\<close>

type_synonym u16 = "16 word"
type_synonym u32 = "32 word"
type_synonym u64 = "64 word"
type_synonym i64 = "64 word" \<comment> \<open>read with \<open>sint\<close>\<close>

text \<open>
  The only \<^verbatim>\<open>f64\<close> values the state and the JSON documents hold are finite, because a
  JSON number is; a finite binary64 value is a rational. Equality of rationals is the
  equality of the code: it identifies the two zeros.
\<close>

type_synonym f64 = rat

type_synonym ('e, 'a) result = "'e + 'a"

named_theorems string_simps
  \<open>equations of the string operations\<close>
named_theorems wire_simps
  \<open>equations of the wire encoders and decoders\<close>
named_theorems section_simps
  \<open>definitions of the critical sections of the supervisor\<close>

section \<open>Results\<close>

definition try_result :: "('e, 'a) result \<Rightarrow> ('a \<Rightarrow> ('e, 'b) result) \<Rightarrow> ('e, 'b) result" where
  "try_result r k = (case r of Inl e \<Rightarrow> Inl e | Inr x \<Rightarrow> k x)"

definition ok_or :: "'e \<Rightarrow> 'a option \<Rightarrow> ('e, 'a) result" where
  "ok_or e x = (case x of None \<Rightarrow> Inl e | Some y \<Rightarrow> Inr y)"

definition map_err :: "('e \<Rightarrow> 'f) \<Rightarrow> ('e, 'a) result \<Rightarrow> ('f, 'a) result" where
  "map_err f r = (case r of Inl e \<Rightarrow> Inl (f e) | Inr x \<Rightarrow> Inr x)"

definition is_ok :: "('e, 'a) result \<Rightarrow> bool" where
  "is_ok r = (case r of Inl _ \<Rightarrow> False | Inr _ \<Rightarrow> True)"

lemma try_result_simps [simp]:
  "try_result (Inl e) k = Inl e"
  "try_result (Inr x) k = k x"
  by (simp_all add: try_result_def)

lemma try_result_eq_Inr [simp]:
  "try_result r k = Inr y \<longleftrightarrow> (\<exists>x. r = Inr x \<and> k x = Inr y)"
  by (cases r) auto

lemma ok_or_simps [simp]:
  "ok_or e None = Inl e"
  "ok_or e (Some y) = Inr y"
  by (simp_all add: ok_or_def)

lemma ok_or_eq_Inr [simp]: "ok_or e x = Inr y \<longleftrightarrow> x = Some y"
  by (cases x) auto

lemma map_err_simps [simp]:
  "map_err f (Inl e) = Inl (f e)"
  "map_err f (Inr x) = Inr x"
  by (simp_all add: map_err_def)

lemma map_err_eq_Inr [simp]: "map_err f r = Inr y \<longleftrightarrow> r = Inr y"
  by (cases r) auto

lemma is_ok_simps [simp]:
  "is_ok (Inl e) = False"
  "is_ok (Inr x) = True"
  by (simp_all add: is_ok_def)

lemma is_ok_iff: "is_ok r \<longleftrightarrow> (\<exists>x. r = Inr x)"
  by (cases r) auto

section \<open>Strings\<close>

definition starts_with :: "string \<Rightarrow> string \<Rightarrow> bool" where
  "starts_with s p = (take (length p) s = p)"

fun contains_str :: "string \<Rightarrow> string \<Rightarrow> bool" where
  "contains_str [] p = (p = [])"
| "contains_str (c # s) p = (starts_with (c # s) p \<or> contains_str s p)"

text \<open>\<open>after_last c s\<close> is \<^verbatim>\<open>s.rsplit(c).next()\<close>: what follows the last \<open>c\<close>, all of
  \<open>s\<close> if there is none.\<close>

definition after_last :: "char \<Rightarrow> string \<Rightarrow> string" where
  "after_last c s = rev (takeWhile (\<lambda>x. x \<noteq> c) (rev s))"

text \<open>\<open>split_on c s\<close> is \<^verbatim>\<open>s.split(c)\<close>: never empty, one part more than there are
  separators.\<close>

fun split_on :: "char \<Rightarrow> string \<Rightarrow> string list" where
  "split_on c [] = [[]]"
| "split_on c (x # xs) =
     (if x = c then [] # split_on c xs
      else (case split_on c xs of [] \<Rightarrow> [[x]] | p # ps \<Rightarrow> (x # p) # ps))"

definition is_ascii_lowercase :: "char \<Rightarrow> bool" where
  "is_ascii_lowercase c = (97 \<le> (of_char c :: nat) \<and> (of_char c :: nat) \<le> 122)"

definition is_ascii_digit :: "char \<Rightarrow> bool" where
  "is_ascii_digit c = (48 \<le> (of_char c :: nat) \<and> (of_char c :: nat) \<le> 57)"

definition ascii_lower :: "char \<Rightarrow> char" where
  "ascii_lower c =
     (if 65 \<le> (of_char c :: nat) \<and> (of_char c :: nat) \<le> 90
      then char_of ((of_char c :: nat) + 32) else c)"

definition to_ascii_lowercase :: "string \<Rightarrow> string" where
  "to_ascii_lowercase s = map ascii_lower s"

text \<open>\<^verbatim>\<open>trim\<close>, on ASCII.\<close>

definition trim_spaces :: "string \<Rightarrow> string" where
  "trim_spaces s =
     (let space = (\<lambda>c. c = CHR '' '' \<or> (of_char c :: nat) \<in> {9..13}) in
      rev (dropWhile space (rev (dropWhile space s))))"

fun show_nat :: "nat \<Rightarrow> string" where
  "show_nat n = (if n < 10 then [char_of (48 + n)] else show_nat (n div 10) @ [char_of (48 + n mod 10)])"

declare show_nat.simps [simp del]

lemma show_nat_chars: "c \<in> set (show_nat n) \<Longrightarrow> c \<noteq> CHR ''/'' \<and> c \<noteq> CHR ''.''"
proof (induction n rule: show_nat.induct)
  case (1 n)
  have d: "char_of (48 + m) \<noteq> CHR ''/'' \<and> char_of (48 + m) \<noteq> CHR ''.''" if "m < 10" for m :: nat
    using that by (auto simp: char_of_eq_iff take_bit_eq_mod)
  show ?case
    using 1 d [of n] d [of "n mod 10"] by (cases "n < 10") (auto simp: show_nat.simps [of n])
qed

definition show_int :: "int \<Rightarrow> string" where
  "show_int i = (if i < 0 then CHR ''-'' # show_nat (nat (- i)) else show_nat (nat i))"

lemma split_on_nonempty [simp]: "split_on c s \<noteq> []"
  by (induction c s rule: split_on.induct) (auto split: list.splits)

lemma split_on_no_sep: "c \<notin> set s \<Longrightarrow> split_on c s = [s]"
  by (induction c s rule: split_on.induct) auto

lemma split_on_parts: "p \<in> set (split_on c s) \<Longrightarrow> c \<notin> set p"
proof (induction c s arbitrary: p rule: split_on.induct)
  case (1 c)
  then show ?case by simp
next
  case (2 c x xs)
  then show ?case
    by (cases "split_on c xs") (auto split: if_splits)
qed

lemma concat_split_on: "c \<notin> set s \<Longrightarrow> split_on c (s @ c # t) = s # split_on c t"
  by (induction s) auto

text \<open>\<open>unlines_on c ps\<close> writes each part followed by a separator; splitting gives the
  parts back, with the empty rest after the last separator.\<close>

definition unlines_on :: "char \<Rightarrow> string list \<Rightarrow> string" where
  "unlines_on c ps = concat (map (\<lambda>p. p @ [c]) ps)"

lemma split_on_unlines_on:
  "(\<forall>p \<in> set ps. c \<notin> set p) \<Longrightarrow> split_on c (unlines_on c ps) = ps @ [[]]"
  by (induction ps) (auto simp: unlines_on_def concat_split_on)

lemma after_last_no_sep: "c \<notin> set s \<Longrightarrow> after_last c s = s"
  unfolding after_last_def by (subst takeWhile_eq_all_conv [THEN iffD2]) auto

lemma after_last_append: "c \<notin> set t \<Longrightarrow> after_last c (s @ c # t) = t"
proof -
  assume "c \<notin> set t"
  then have "takeWhile (\<lambda>x. x \<noteq> c) (rev t @ c # rev s) = rev t"
    by (subst takeWhile_append2) auto
  then show ?thesis by (simp add: after_last_def)
qed

lemma after_last_clean: "c \<notin> set (after_last c s)"
  by (auto simp: after_last_def dest: set_takeWhileD)

lemma starts_with_append [simp]: "starts_with (p @ s) p"
  by (simp add: starts_with_def)

lemma contains_str_starts: "starts_with s p \<Longrightarrow> contains_str s p"
  by (cases s) (auto simp: starts_with_def)

lemma contains_str_prefix: "contains_str (p @ b) p"
  by (simp add: contains_str_starts)

lemma contains_str_append: "contains_str (a @ p @ b) p"
proof (induction a)
  case Nil
  show ?case by (simp add: contains_str_prefix)
next
  case (Cons x a)
  then show ?case by simp
qed

section \<open>Association lists kept in key order\<close>

text \<open>
  \<^verbatim>\<open>BTreeMap<K, V>\<close>: an association list with strictly ascending keys, in iteration
  order. \<open>bt_modify\<close> is a mutation through \<^verbatim>\<open>get_mut\<close>.
\<close>

type_synonym ('k, 'v) btree = "('k \<times> 'v) list"

definition bt_wf :: "('k::linorder, 'v) btree \<Rightarrow> bool" where
  "bt_wf m = sorted_wrt (<) (map fst m)"

definition bt_get :: "('k::linorder, 'v) btree \<Rightarrow> 'k \<Rightarrow> 'v option" where
  "bt_get m k = map_of m k"

fun bt_insert :: "'k::linorder \<Rightarrow> 'v \<Rightarrow> ('k, 'v) btree \<Rightarrow> ('k, 'v) btree" where
  "bt_insert k v [] = [(k, v)]"
| "bt_insert k v ((a, b) # m) =
     (if k < a then (k, v) # (a, b) # m
      else if k = a then (k, v) # m
      else (a, b) # bt_insert k v m)"

definition bt_remove :: "'k::linorder \<Rightarrow> ('k, 'v) btree \<Rightarrow> ('k, 'v) btree" where
  "bt_remove k m = filter (\<lambda>p. fst p \<noteq> k) m"

definition bt_modify :: "'k::linorder \<Rightarrow> ('v \<Rightarrow> 'v) \<Rightarrow> ('k, 'v) btree \<Rightarrow> ('k, 'v) btree" where
  "bt_modify k f m = map (\<lambda>(a, b). if a = k then (a, f b) else (a, b)) m"

definition bt_keys :: "('k::linorder, 'v) btree \<Rightarrow> 'k list" where
  "bt_keys m = map fst m"

definition bt_of_list :: "('k::linorder \<times> 'v) list \<Rightarrow> ('k, 'v) btree" where
  "bt_of_list ps = fold (\<lambda>(k, v) m. bt_insert k v m) ps []"

text \<open>
  The contract of the map, which every proof about the supervisor uses: a lookup after
  each operation, the keys, and the order invariant.
\<close>

locale key_map =
  fixes wf :: "'m \<Rightarrow> bool"
    and get :: "'m \<Rightarrow> 'k::linorder \<Rightarrow> 'v option"
    and ins :: "'k \<Rightarrow> 'v \<Rightarrow> 'm \<Rightarrow> 'm"
    and del :: "'k \<Rightarrow> 'm \<Rightarrow> 'm"
    and upd :: "'k \<Rightarrow> ('v \<Rightarrow> 'v) \<Rightarrow> 'm \<Rightarrow> 'm"
    and keys :: "'m \<Rightarrow> 'k list"
  assumes get_ins: "get (ins k v m) j = (if j = k then Some v else get m j)"
    and get_del: "get (del k m) j = (if j = k then None else get m j)"
    and get_upd: "get (upd k f m) j = (if j = k then map_option f (get m k) else get m j)"
    and keys_get: "k \<in> set (keys m) \<longleftrightarrow> get m k \<noteq> None"
    and keys_upd: "keys (upd k f m) = keys m"
    and wf_ins: "wf m \<Longrightarrow> wf (ins k v m)"
    and wf_del: "wf m \<Longrightarrow> wf (del k m)"
    and wf_upd: "wf m \<Longrightarrow> wf (upd k f m)"
    and wf_keys: "wf m \<Longrightarrow> sorted_wrt (<) (keys m)"
begin

lemma keys_ins: "set (keys (ins k v m)) = insert k (set (keys m))"
  by (auto simp: keys_get get_ins split: if_splits)

lemma keys_del: "set (keys (del k m)) = set (keys m) - {k}"
  by (auto simp: keys_get get_del split: if_splits)

lemma keys_distinct: "wf m \<Longrightarrow> distinct (keys m)"
  using wf_keys strict_sorted_iff by blast

lemma keys_move:
  "set (keys (ins k' v (del k m))) = insert k' (set (keys m) - {k})"
  by (simp add: keys_ins keys_del)

lemma wf_move: "wf m \<Longrightarrow> wf (ins k' v (del k m))"
  by (simp add: wf_ins wf_del)

end

lemma set_bt_insert_keys: "fst ` set (bt_insert k v m) = insert k (fst ` set m)"
  by (induction k v m rule: bt_insert.induct) auto

lemma bt_get_insert: "bt_get (bt_insert k v m) j = (if j = k then Some v else bt_get m j)"
  unfolding bt_get_def by (induction k v m rule: bt_insert.induct) auto

lemma bt_get_remove: "bt_get (bt_remove k m) j = (if j = k then None else bt_get m j)"
  unfolding bt_get_def bt_remove_def by (induction m) auto

lemma bt_get_modify:
  "bt_get (bt_modify k f m) j = (if j = k then map_option f (bt_get m k) else bt_get m j)"
  unfolding bt_get_def bt_modify_def by (induction m) auto

lemma bt_keys_modify: "bt_keys (bt_modify k f m) = bt_keys m"
  by (simp add: bt_keys_def bt_modify_def case_prod_beta comp_def)

lemma bt_keys_get: "k \<in> set (bt_keys m) \<longleftrightarrow> bt_get m k \<noteq> None"
  by (simp add: bt_keys_def bt_get_def map_of_eq_None_iff)

lemma bt_wf_insert: "bt_wf m \<Longrightarrow> bt_wf (bt_insert k v m)"
proof (induction k v m rule: bt_insert.induct)
  case (1 k v)
  then show ?case by (simp add: bt_wf_def)
next
  case (2 k v a b m)
  have keys: "fst ` set (bt_insert k v m) = insert k (fst ` set m)"
    by (rule set_bt_insert_keys)
  show ?case
  proof (cases "k < a \<or> k = a")
    case True
    with "2.prems" show ?thesis by (auto simp: bt_wf_def)
  next
    case False
    with "2.IH" "2.prems" have "bt_wf (bt_insert k v m)" by (auto simp: bt_wf_def)
    with False "2.prems" keys show ?thesis by (auto simp: bt_wf_def)
  qed
qed

lemma bt_wf_remove: "bt_wf m \<Longrightarrow> bt_wf (bt_remove k m)"
  unfolding bt_wf_def bt_remove_def by (induction m) auto

lemma bt_wf_modify: "bt_wf m \<Longrightarrow> bt_wf (bt_modify k f m)"
  unfolding bt_wf_def using bt_keys_modify [of k f m] by (simp add: bt_keys_def)

lemma bt_wf_keys: "bt_wf m \<Longrightarrow> sorted_wrt (<) (bt_keys m)"
  by (simp add: bt_wf_def bt_keys_def)

interpretation bt: key_map bt_wf bt_get bt_insert bt_remove bt_modify bt_keys
  by unfold_locales
    (simp_all add: bt_get_insert bt_get_remove bt_get_modify bt_keys_get bt_keys_modify
      bt_wf_insert bt_wf_remove bt_wf_modify bt_wf_keys del: bt_insert.simps)

lemmas bt_simps [simp] =
  bt.get_ins bt.get_del bt.get_upd bt.keys_upd bt.keys_ins bt.keys_del

lemma bt_wf_fold: "bt_wf m \<Longrightarrow> bt_wf (fold (\<lambda>(k, v) m. bt_insert k v m) ps m)"
  by (induction ps arbitrary: m) (auto simp: bt_wf_insert)

lemma bt_wf_of_list: "bt_wf (bt_of_list ps)"
  unfolding bt_of_list_def by (rule bt_wf_fold) (simp add: bt_wf_def)

lemma bt_get_fold:
  "bt_get (fold (\<lambda>(k, v) m. bt_insert k v m) ps m) j =
   (case map_of (rev ps) j of None \<Rightarrow> bt_get m j | Some v \<Rightarrow> Some v)"
  by (induction ps arbitrary: m) (auto simp: map_add_def split: option.splits)

lemma bt_get_of_list: "bt_get (bt_of_list ps) k = map_of (rev ps) k"
  by (simp add: bt_of_list_def bt_get_fold bt_get_def [of "[]"] split: option.splits)

lemma bt_get_Cons: "bt_get ((a, b) # m) k = (if k = a then Some b else bt_get m k)"
  by (simp add: bt_get_def)

lemma bt_get_Nil [simp]: "bt_get [] k = None"
  by (simp add: bt_get_def)

lemma bt_modify_id: "bt_get m k = None \<Longrightarrow> bt_modify k f m = m"
  unfolding bt_get_def bt_modify_def by (induction m) (auto split: if_splits)

section \<open>Distinct lists\<close>

lemma map_of_rev_distinct: "distinct (map fst ps) \<Longrightarrow> map_of (rev ps) = map_of ps"
  using map_of_inject_set [of "rev ps" ps] by (simp flip: rev_map)

lemma find_key_SomeD: "find (\<lambda>x. f x = k) xs = Some x \<Longrightarrow> x \<in> set xs \<and> f x = k"
  by (auto simp: find_Some_iff)

lemma find_key_None: "find (\<lambda>x. f x = k) xs = None \<longleftrightarrow> k \<notin> f ` set xs"
  by (auto simp: find_None_iff)

end
