(* ===== verification/Json.thy ===== *)
theory Json
  imports Prelude
begin

text \<open>
  The JSON values of \<^verbatim>\<open>serde_json::Value\<close> with the accessors the crates call on them
  (\<^verbatim>\<open>as_bool\<close>, \<^verbatim>\<open>as_i64\<close>, \<^verbatim>\<open>as_u64\<close>, \<^verbatim>\<open>as_f64\<close>, \<^verbatim>\<open>as_str\<close>, \<^verbatim>\<open>as_array\<close>,
  \<^verbatim>\<open>as_object\<close>, \<^verbatim>\<open>get\<close>), and the typed encoders and decoders the wire types are
  built from. An object is an ordered map: the crates use the default feature set, in
  which \<^verbatim>\<open>serde_json::Map\<close> is a \<^verbatim>\<open>BTreeMap\<close>.
\<close>

section \<open>Values\<close>

datatype json_number =
    PosInt u64
  | NegInt i64
  | Float f64

datatype json =
    JNull
  | JBool bool
  | JNum json_number
  | JStr string
  | JArr "json list"
  | JObj "(string \<times> json) list"

definition json_obj :: "(string \<times> json) list \<Rightarrow> json" where
  "json_obj fields = JObj (bt_of_list fields)"

section \<open>Conversion of integers to binary64\<close>

text \<open>
  \<^verbatim>\<open>as_f64\<close> on an integer is Rust's \<^verbatim>\<open>as f64\<close>: exact up to \<open>2 ^ 53\<close>, otherwise
  rounded to 53 significant bits, ties to even.
\<close>

fun bit_length :: "nat \<Rightarrow> nat" where
  "bit_length n = (if n = 0 then 0 else Suc (bit_length (n div 2)))"

declare bit_length.simps [simp del]

definition round_half_even :: "nat \<Rightarrow> nat \<Rightarrow> nat" where
  "round_half_even n k =
     (let q = n div 2 ^ k; r = n mod 2 ^ k in
      if 2 * r < 2 ^ k then q
      else if 2 * r > 2 ^ k then q + 1
      else if even q then q else q + 1)"

definition f64_of_nat :: "nat \<Rightarrow> f64" where
  "f64_of_nat n =
     (let k = bit_length n - 53 in of_nat (round_half_even n k * 2 ^ k))"

definition f64_of_int :: "int \<Rightarrow> f64" where
  "f64_of_int i = (if i < 0 then - f64_of_nat (nat (- i)) else f64_of_nat (nat i))"

definition f64_floor :: "f64 \<Rightarrow> f64" where
  "f64_floor x = of_int \<lfloor>x\<rfloor>"

section \<open>Accessors\<close>

fun is_null :: "json \<Rightarrow> bool" where
  "is_null JNull = True"
| "is_null _ = False"

fun as_bool :: "json \<Rightarrow> bool option" where
  "as_bool (JBool b) = Some b"
| "as_bool _ = None"

fun as_str :: "json \<Rightarrow> string option" where
  "as_str (JStr s) = Some s"
| "as_str _ = None"

fun as_array :: "json \<Rightarrow> json list option" where
  "as_array (JArr xs) = Some xs"
| "as_array _ = None"

fun as_object :: "json \<Rightarrow> (string \<times> json) list option" where
  "as_object (JObj m) = Some m"
| "as_object _ = None"

fun number_as_i64 :: "json_number \<Rightarrow> i64 option" where
  "number_as_i64 (PosInt n) = (if uint n < 2 ^ 63 then Some n else None)"
| "number_as_i64 (NegInt n) = Some n"
| "number_as_i64 (Float _) = None"

fun as_i64 :: "json \<Rightarrow> i64 option" where
  "as_i64 (JNum n) = number_as_i64 n"
| "as_i64 _ = None"

fun as_u64 :: "json \<Rightarrow> u64 option" where
  "as_u64 (JNum (PosInt n)) = Some n"
| "as_u64 _ = None"

fun as_f64 :: "json \<Rightarrow> f64 option" where
  "as_f64 (JNum (PosInt n)) = Some (f64_of_int (uint n))"
| "as_f64 (JNum (NegInt n)) = Some (f64_of_int (sint n))"
| "as_f64 (JNum (Float x)) = Some x"
| "as_f64 _ = None"

fun json_get :: "json \<Rightarrow> string \<Rightarrow> json option" where
  "json_get (JObj m) k = bt_get m k"
| "json_get _ _ = None"

fun is_object :: "json \<Rightarrow> bool" where
  "is_object (JObj _) = True"
| "is_object _ = False"

text \<open>
  The values a parser or the \<^verbatim>\<open>json!\<close> macro builds: a negative-integer number is
  negative, and objects are ordered maps, at every depth.
\<close>

fun number_wf :: "json_number \<Rightarrow> bool" where
  "number_wf (NegInt n) = (sint n < 0)"
| "number_wf _ = True"

fun json_wf :: "json \<Rightarrow> bool" where
  "json_wf (JNum n) = number_wf n"
| "json_wf (JArr xs) = (\<forall>x \<in> set xs. json_wf x)"
| "json_wf (JObj m) = (bt_wf m \<and> (\<forall>p \<in> set m. json_wf (snd p)))"
| "json_wf _ = True"

section \<open>Narrowing conversions\<close>

definition u32_of_i64 :: "i64 \<Rightarrow> u32 option" where
  "u32_of_i64 n = (if 0 \<le> sint n \<and> sint n < 2 ^ 32 then Some (word_of_int (sint n)) else None)"

definition u32_of_u64 :: "u64 \<Rightarrow> u32 option" where
  "u32_of_u64 n = (if uint n < 2 ^ 32 then Some (word_of_int (uint n)) else None)"

definition i64_to_string :: "i64 \<Rightarrow> string" where
  "i64_to_string n = show_int (sint n)"

text \<open>
  The daemon narrows a playlist index through \<^verbatim>\<open>as_i64\<close>, the client through
  \<^verbatim>\<open>as_u64\<close>; on values a parser builds the two agree.
\<close>

lemma sint_small: "uint (n :: u64) < 2 ^ 63 \<Longrightarrow> sint n = uint n"
proof -
  assume "uint n < 2 ^ 63"
  then have "signed_take_bit 63 (uint n) = uint n"
    by (intro signed_take_bit_int_eq_self) (auto intro: order_trans [of _ 0])
  then show ?thesis by (simp add: sint_uint)
qed

lemma u32_index_agree:
  assumes "json_wf v" and "as_i64 v = Some n" and "u32_of_i64 n = Some m"
  shows "as_u64 v = Some n \<and> u32_of_u64 n = Some m"
proof -
  obtain k where v: "v = JNum k" using assms(2) by (cases v) auto
  show ?thesis
  proof (cases k)
    case (PosInt p)
    with v assms(2) have "n = p" and small: "uint n < 2 ^ 63" by (auto split: if_splits)
    from small assms(3) have "uint n < 2 ^ 32" and "m = word_of_int (uint n)"
      by (auto simp: u32_of_i64_def sint_small split: if_splits)
    with v PosInt \<open>n = p\<close> show ?thesis by (simp add: u32_of_u64_def)
  next
    case (NegInt p)
    with v assms show ?thesis by (auto simp: u32_of_i64_def split: if_splits)
  next
    case (Float x)
    with v assms(2) show ?thesis by simp
  qed
qed

text \<open>The conversion is exact wherever binary64 represents every integer.\<close>

lemma bit_length_bound: "n < 2 ^ k \<Longrightarrow> bit_length n \<le> k"
proof (induction n arbitrary: k rule: bit_length.induct)
  case (1 n)
  show ?case
  proof (cases "n = 0")
    case True
    then show ?thesis by (simp add: bit_length.simps)
  next
    case False
    with "1.prems" obtain j where k: "k = Suc j" by (cases k) auto
    with "1.prems" have "n div 2 < 2 ^ j" by auto
    with "1.IH" False have "bit_length (n div 2) \<le> j" by blast
    with False k show ?thesis by (simp add: bit_length.simps [of n])
  qed
qed

lemma f64_of_nat_exact: "n < 2 ^ 53 \<Longrightarrow> f64_of_nat n = of_nat n"
  using bit_length_bound [of n 53] by (simp add: f64_of_nat_def round_half_even_def)

lemma as_bool_eq_Some [simp]: "as_bool v = Some b \<longleftrightarrow> v = JBool b"
  by (cases v) auto

lemma as_str_eq_Some [simp]: "as_str v = Some s \<longleftrightarrow> v = JStr s"
  by (cases v) auto

lemma as_array_eq_Some [simp]: "as_array v = Some xs \<longleftrightarrow> v = JArr xs"
  by (cases v) auto

lemma as_object_eq_Some [simp]: "as_object v = Some m \<longleftrightarrow> v = JObj m"
  by (cases v) auto

lemma is_null_iff [simp]: "is_null v \<longleftrightarrow> v = JNull"
  by (cases v) auto

lemma json_get_obj [simp]: "json_get (json_obj fs) k = map_of (rev fs) k"
  by (simp add: json_obj_def bt_get_of_list)

end
