(* ===== verification/Paths.thy ===== *)
theory Paths
  imports Prelude
begin

text \<open>
  The part of \<^verbatim>\<open>std::path\<close> the crates use, on Unix: the components of a path, its
  file name, its extension, whether it is absolute, and \<^verbatim>\<open>join\<close>. Repeated
  separators and interior \<^verbatim>\<open>.\<close> components are dropped, as \<^verbatim>\<open>Path::components\<close> does.
\<close>

section \<open>Components\<close>

datatype path_component = RootDir | CurDir | ParentDir | NormalComp string

definition is_absolute :: "string \<Rightarrow> bool" where
  "is_absolute s = starts_with s ''/''"

definition body_component :: "string \<Rightarrow> path_component option" where
  "body_component seg =
     (if seg = [] \<or> seg = ''.'' then None
      else if seg = ''..'' then Some ParentDir
      else Some (NormalComp seg))"

definition path_components :: "string \<Rightarrow> path_component list" where
  "path_components s =
     (if is_absolute s then [RootDir]
      else if hd (split_on CHR ''/'' s) = ''.'' then [CurDir] else [])
     @ List.map_filter body_component (split_on CHR ''/'' s)"

definition file_name :: "string \<Rightarrow> string option" where
  "file_name s =
     (case rev (path_components s) of NormalComp p # _ \<Rightarrow> Some p | _ \<Rightarrow> None)"

text \<open>
  \<^verbatim>\<open>rsplit_file_at_dot\<close>: no extension for \<^verbatim>\<open>..\<close> (which is no file name), for a
  name without a dot, and for a name whose only dot is its first byte.
\<close>

definition name_extension :: "string \<Rightarrow> string option" where
  "name_extension f =
     (if CHR ''.'' \<notin> set f then None
      else let after = after_last CHR ''.'' f in
        if length f = Suc (length after) then None else Some after)"

definition extension :: "string \<Rightarrow> string option" where
  "extension s = (case file_name s of None \<Rightarrow> None | Some f \<Rightarrow> name_extension f)"

section \<open>Paths as segment lists\<close>

text \<open>
  Below, a directory is the list of its normal components; \<^verbatim>\<open>join\<close> appends a relative
  path and is replaced by an absolute one.
\<close>

definition normal_segments :: "string \<Rightarrow> string list" where
  "normal_segments s =
     List.map_filter (\<lambda>c. case c of NormalComp p \<Rightarrow> Some p | ParentDir \<Rightarrow> Some ''..'' | _ \<Rightarrow> None)
       (path_components s)"

definition path_join :: "string list \<Rightarrow> string \<Rightarrow> string list" where
  "path_join base s =
     (if is_absolute s then normal_segments s else base @ normal_segments s)"

text \<open>\<^verbatim>\<open>with_extension\<close> replaces the extension of the last segment, or adds one;
  \<^verbatim>\<open>display\<close> writes an absolute path.\<close>

definition segment_stem :: "string \<Rightarrow> string" where
  "segment_stem s =
     (case name_extension s of None \<Rightarrow> s | Some e \<Rightarrow> take (length s - Suc (length e)) s)"

definition with_extension :: "string list \<Rightarrow> string \<Rightarrow> string list" where
  "with_extension p e =
     (if p = [] then [] else butlast p @ [segment_stem (last p) @ CHR ''.'' # e])"

definition display_path :: "string list \<Rightarrow> string" where
  "display_path p = concat (map (\<lambda>s. CHR ''/'' # s) p)"

section \<open>Plain file names\<close>

text \<open>A plain segment: what one directory entry can be called.\<close>

definition plain_segment :: "string \<Rightarrow> bool" where
  "plain_segment s = (s \<noteq> [] \<and> s \<noteq> ''.'' \<and> s \<noteq> ''..'' \<and> CHR ''/'' \<notin> set s)"

lemma components_no_slash: "p \<in> set (split_on CHR ''/'' s) \<Longrightarrow> CHR ''/'' \<notin> set p"
  by (rule split_on_parts)

lemma plain_components:
  "plain_segment s \<Longrightarrow> path_components s = [NormalComp s]"
  unfolding plain_segment_def path_components_def is_absolute_def
  by (cases s) (auto simp: split_on_no_sep body_component_def List.map_filter_def starts_with_def)

lemma plain_file_name: "plain_segment s \<Longrightarrow> file_name s = Some s"
  by (simp add: file_name_def plain_components)

lemma plain_join: "plain_segment s \<Longrightarrow> path_join base s = base @ [s]"
proof -
  assume plain: "plain_segment s"
  then have "\<not> is_absolute s"
    by (cases s) (auto simp: plain_segment_def is_absolute_def starts_with_def)
  with plain show ?thesis
    by (simp add: path_join_def normal_segments_def plain_components List.map_filter_def)
qed

lemma normal_component_plain:
  "NormalComp p \<in> set (path_components s) \<Longrightarrow> plain_segment p"
  by (auto simp: path_components_def plain_segment_def List.map_filter_def body_component_def
      dest: components_no_slash split: if_splits)

lemma file_name_plain: "file_name s = Some p \<Longrightarrow> plain_segment p"
proof -
  assume "file_name s = Some p"
  then obtain rest where "rev (path_components s) = NormalComp p # rest"
    by (auto simp: file_name_def split: list.splits path_component.splits)
  then have "NormalComp p \<in> set (path_components s)"
    by (metis list.set_intros(1) set_rev)
  then show ?thesis by (rule normal_component_plain)
qed

text \<open>A string is its own file name exactly when it is a plain segment.\<close>

lemma file_name_self_iff: "file_name s = Some s \<longleftrightarrow> plain_segment s"
  using file_name_plain plain_file_name by blast

lemma name_extension_split:
  "name_extension f = Some e \<Longrightarrow> \<exists>b. b \<noteq> [] \<and> f = b @ CHR ''.'' # e \<and> CHR ''.'' \<notin> set e"
proof -
  assume ext: "name_extension f = Some e"
  then have dot: "CHR ''.'' \<in> set f" and e: "e = after_last CHR ''.'' f"
    and len: "length f \<noteq> Suc (length e)"
    by (auto simp: name_extension_def Let_def split: if_splits)
  obtain b t where f: "f = b @ CHR ''.'' # t" and t: "CHR ''.'' \<notin> set t"
    using split_list_last [OF dot] by blast
  with e have "e = t" by (simp add: after_last_append)
  with f t len show ?thesis by auto
qed

lemma name_extension_intro:
  "b \<noteq> [] \<Longrightarrow> CHR ''.'' \<notin> set e \<Longrightarrow> name_extension (b @ CHR ''.'' # e) = Some e"
  by (simp add: name_extension_def after_last_append Let_def)

end
