(* ===== verification/Protocol.thy ===== *)
theory Protocol
  imports Json Paths
begin

text \<open>
  The shared protocol of \<^verbatim>\<open>crates/mpv-targets/src/protocol.rs\<close>: requests and their
  validation, target names, channel paths, the restricted native command list, and the
  observed state, snapshots and events the daemon sends.
\<close>

section \<open>Target names\<close>

datatype target_name_error =
    NameEmpty
  | NameReserved
  | NameInvalidLength
  | NameInvalidStart
  | NameInvalidCharacters

definition name_byte :: "char \<Rightarrow> bool" where
  "name_byte c = (is_ascii_lowercase c \<or> is_ascii_digit c \<or> c = CHR ''-'' \<or> c = CHR ''_'')"

definition validate_target_name :: "string \<Rightarrow> (target_name_error, unit) result" where
  "validate_target_name name =
     (if name = [] then Inl NameEmpty
      else if name = ''all'' then Inl NameReserved
      else if 64 < length name then Inl NameInvalidLength
      else let first = name ! 0 in
        if \<not> is_ascii_lowercase first \<and> \<not> is_ascii_digit first then Inl NameInvalidStart
        else if list_all name_byte name then Inr ()
        else Inl NameInvalidCharacters)"

section \<open>Channels and native commands\<close>

definition channel_extension :: "string \<Rightarrow> bool" where
  "channel_extension e = (to_ascii_lowercase e \<in> {''m3u'', ''m3u8''})"

definition is_channel_extension :: "string \<Rightarrow> bool" where
  "is_channel_extension path =
     (case extension path of None \<Rightarrow> False | Some e \<Rightarrow> channel_extension e)"

definition valid_channel_name :: "string \<Rightarrow> bool" where
  "valid_channel_name value =
     (value \<noteq> [] \<and> file_name value = Some value \<and> is_channel_extension value)"

definition valid_channel :: "string \<Rightarrow> bool" where
  "valid_channel value =
     (if value = [] then False
      else if contains_str value ''://'' then True
      else is_absolute value \<and>
        (case extension value of None \<Rightarrow> False | Some e \<Rightarrow> channel_extension e))"

definition allowed_mpv_commands :: "string list" where
  "allowed_mpv_commands =
     [''get_property'', ''set_property'', ''cycle'', ''add'', ''stop'', ''seek'',
      ''revert-seek'', ''playlist-next'', ''playlist-prev'', ''playlist-play-index'',
      ''playlist-remove'', ''playlist-move'', ''playlist-shuffle'', ''playlist-unshuffle'',
      ''playlist-clear'', ''loadfile'', ''loadlist'', ''keypress'', ''keydown'', ''keyup'',
      ''show-text'']"

definition is_allowed_mpv_command :: "string \<Rightarrow> bool" where
  "is_allowed_mpv_command command = List.member allowed_mpv_commands command"

section \<open>Requests\<close>

datatype operation =
    TargetAdd (add_from: "string option") (add_enable: bool) (add_paused: bool) (add_muted: bool)
  | TargetRemove
  | TargetStart
  | TargetStop
  | TargetRestart
  | TargetEnable
  | TargetDisable
  | TargetRename string
  | TargetSetChannel "string option" bool
  | TargetSaveChannel string bool
  | NodeListChannels
  | Mpv string "json list"

record request =
  rq_id :: string
  rq_target :: "string option"
  rq_operation :: operation

datatype request_validation_error =
    EmptyId
  | InvalidTarget target_name_error
  | MissingTarget
  | UnexpectedTarget
  | InvalidChannel string
  | InvalidChannelName string
  | InvalidReplacement target_name_error
  | BaseOptionsWithSource
  | NativeCommandNotAllowed string

fun validate_operation :: "operation \<Rightarrow> (request_validation_error, unit) result" where
  "validate_operation (TargetAdd (Some source) enable start_paused start_muted) =
     try_result (map_err InvalidTarget (validate_target_name source)) (\<lambda>_.
       if \<not> start_paused \<or> \<not> start_muted then Inl BaseOptionsWithSource else Inr ())"
| "validate_operation (TargetRename name) =
     map_err InvalidReplacement (validate_target_name name)"
| "validate_operation (TargetSetChannel (Some channel) restart) =
     (if \<not> valid_channel channel then Inl (InvalidChannel channel) else Inr ())"
| "validate_operation (TargetSaveChannel channel overwrite) =
     (if \<not> valid_channel_name channel then Inl (InvalidChannelName channel) else Inr ())"
| "validate_operation (Mpv command args) =
     (if \<not> is_allowed_mpv_command command then Inl (NativeCommandNotAllowed command) else Inr ())"
| "validate_operation _ = Inr ()"

definition validate_request :: "request \<Rightarrow> (request_validation_error, unit) result" where
  "validate_request r =
     (if rq_id r = [] then Inl EmptyId
      else try_result
        (case (rq_target r, rq_operation r) of
           (None, NodeListChannels) \<Rightarrow> Inr ()
         | (Some _, NodeListChannels) \<Rightarrow> Inl UnexpectedTarget
         | (Some target, _) \<Rightarrow> map_err InvalidTarget (validate_target_name target)
         | (None, _) \<Rightarrow> Inl MissingTarget)
        (\<lambda>_. validate_operation (rq_operation r)))"

section \<open>Observed state, records, snapshots, events\<close>

datatype media_end_reason = Eof | Stop | Quit | Error | Redirect | Unknown

record target_state =
  ts_paused :: "bool option"
  ts_muted :: "bool option"
  ts_volume :: "f64 option"
  ts_title :: "string option"
  ts_playlist_position :: "u32 option"
  ts_playlist_count :: "u32 option"
  ts_idle_active :: "bool option"
  ts_duration :: "f64 option"
  ts_position :: "f64 option"
  ts_loop_file :: "string option"
  ts_loop_playlist :: "string option"
  ts_audio_track :: "string option"
  ts_subtitle_track :: "string option"
  ts_subtitles_visible :: "bool option"
  ts_last_end_reason :: "media_end_reason option"
  ts_last_end_error :: "string option"

definition default_target_state :: target_state where
  "default_target_state =
     \<lparr>ts_paused = None, ts_muted = None, ts_volume = None, ts_title = None,
      ts_playlist_position = None, ts_playlist_count = None, ts_idle_active = None,
      ts_duration = None, ts_position = None, ts_loop_file = None, ts_loop_playlist = None,
      ts_audio_track = None, ts_subtitle_track = None, ts_subtitles_visible = None,
      ts_last_end_reason = None, ts_last_end_error = None\<rparr>"

record target_record =
  tr_name :: string
  tr_disabled :: bool
  tr_stopped :: bool
  tr_online :: bool
  tr_channel :: "string option"
  tr_state :: target_state
  tr_revision :: u64

datatype health_state = Ready | Idle | Degraded

record health =
  h_state :: health_state
  h_configured :: u32
  h_expected :: u32
  h_online :: u32

record snapshot =
  sn_version :: u32
  sn_node :: string
  sn_health :: health
  sn_targets :: "target_record list"

record target_changed =
  ch_target :: string
  ch_revision :: u64
  ch_changed :: json

datatype event =
    SnapshotEvent snapshot
  | TargetChangedEvent target_changed

definition protocol_version :: u32 where
  "protocol_version = 1"

datatype error_code =
    CodeInvalidRequest
  | CodeUnknownTarget
  | CodeTargetAlreadyStopped
  | CodeTargetNotRunning
  | CodeTargetDisabled
  | CodeConfigRejected
  | CodeTargetOffline
  | CodeMpvRejected
  | CodeTimeout
  | CodeIpcLost
  | CodeShuttingDown

text \<open>A terminal response, over the type of its error message: a text for the client, the
  values it is formatted from in the daemon.\<close>

datatype 'm response =
    Success (success_id: string) (success_data: json)
  | Failure (failure_id: string) (failure_code: error_code) (failure_message: 'm)

fun response_id :: "'m response \<Rightarrow> string" where
  "response_id (Success i _) = i"
| "response_id (Failure i _ _) = i"

section \<open>Wire form of the observed state\<close>

definition opt_json :: "('a \<Rightarrow> json) \<Rightarrow> 'a option \<Rightarrow> json" where
  "opt_json f x = (case x of None \<Rightarrow> JNull | Some y \<Rightarrow> f y)"

definition json_u32 :: "u32 \<Rightarrow> json" where
  "json_u32 n = JNum (PosInt (ucast n))"

definition json_f64 :: "f64 \<Rightarrow> json" where
  "json_f64 x = JNum (Float x)"

text \<open>\<^verbatim>\<open>#[serde(rename_all = "snake_case")]\<close> on the fieldless enum.\<close>

fun end_reason_name :: "media_end_reason \<Rightarrow> string" where
  "end_reason_name Eof = ''eof''"
| "end_reason_name Stop = ''stop''"
| "end_reason_name Quit = ''quit''"
| "end_reason_name Error = ''error''"
| "end_reason_name Redirect = ''redirect''"
| "end_reason_name Unknown = ''unknown''"

definition end_reason_json :: "media_end_reason \<Rightarrow> json" where
  "end_reason_json r = JStr (end_reason_name r)"

definition end_reason_of_name :: "string \<Rightarrow> media_end_reason option" where
  "end_reason_of_name s =
     (if s = ''eof'' then Some Eof
      else if s = ''stop'' then Some Stop
      else if s = ''quit'' then Some Quit
      else if s = ''error'' then Some Error
      else if s = ''redirect'' then Some Redirect
      else if s = ''unknown'' then Some Unknown
      else None)"

text \<open>A fieldless variant is read from its name, or from an object with the name as only
  key and \<^verbatim>\<open>null\<close> as value.\<close>

fun end_reason_of_json :: "json \<Rightarrow> media_end_reason option" where
  "end_reason_of_json (JStr s) = end_reason_of_name s"
| "end_reason_of_json (JObj [(k, JNull)]) = end_reason_of_name k"
| "end_reason_of_json _ = None"

definition target_state_fields :: "target_state \<Rightarrow> (string \<times> json) list" where
  "target_state_fields s =
     [(''paused'', opt_json JBool (ts_paused s)),
      (''muted'', opt_json JBool (ts_muted s)),
      (''volume'', opt_json json_f64 (ts_volume s)),
      (''title'', opt_json JStr (ts_title s)),
      (''playlist_position'', opt_json json_u32 (ts_playlist_position s)),
      (''playlist_count'', opt_json json_u32 (ts_playlist_count s)),
      (''idle_active'', opt_json JBool (ts_idle_active s)),
      (''duration'', opt_json json_f64 (ts_duration s)),
      (''position'', opt_json json_f64 (ts_position s)),
      (''loop_file'', opt_json JStr (ts_loop_file s)),
      (''loop_playlist'', opt_json JStr (ts_loop_playlist s)),
      (''audio_track'', opt_json JStr (ts_audio_track s)),
      (''subtitle_track'', opt_json JStr (ts_subtitle_track s)),
      (''subtitles_visible'', opt_json JBool (ts_subtitles_visible s)),
      (''last_end_reason'', opt_json end_reason_json (ts_last_end_reason s)),
      (''last_end_error'', opt_json JStr (ts_last_end_error s))]"

definition target_state_json :: "target_state \<Rightarrow> (string \<times> json) list" where
  "target_state_json s = bt_of_list (target_state_fields s)"

section \<open>Target names are safe path segments\<close>

lemma name_byte_not_slash: "name_byte c \<Longrightarrow> c \<noteq> CHR ''/'' \<and> c \<noteq> CHR ''.'' \<and> c \<noteq> CHR ''@''"
  by (auto simp: name_byte_def is_ascii_lowercase_def is_ascii_digit_def)

lemma name_start_byte:
  "is_ascii_lowercase c \<or> is_ascii_digit c \<longleftrightarrow> name_byte c \<and> c \<noteq> CHR ''-'' \<and> c \<noteq> CHR ''_''"
  by (auto simp: name_byte_def is_ascii_lowercase_def is_ascii_digit_def)

text \<open>
  A target name is accepted exactly when it has 1 to 64 bytes, is not the bulk selector
  \<^verbatim>\<open>all\<close>, consists of lowercase letters, digits, hyphens and underscores, and does not
  begin with a hyphen or underscore.
\<close>

lemma validate_target_name_iff:
  "validate_target_name n = Inr () \<longleftrightarrow>
   1 \<le> length n \<and> length n \<le> 64 \<and> n \<noteq> ''all'' \<and> list_all name_byte n \<and>
   n ! 0 \<noteq> CHR ''-'' \<and> n ! 0 \<noteq> CHR ''_''"
proof (cases n)
  case Nil
  then show ?thesis by (simp add: validate_target_name_def)
next
  case (Cons c s)
  then show ?thesis
    using name_start_byte [of c] by (auto simp: validate_target_name_def Let_def)
qed

lemma valid_name_bytes: "validate_target_name n = Inr () \<Longrightarrow> n \<noteq> [] \<and> list_all name_byte n"
  by (auto simp: validate_target_name_def Let_def split: if_splits)

lemma valid_name_plain: "validate_target_name n = Inr () \<Longrightarrow> plain_segment n"
  using valid_name_bytes [of n] name_byte_not_slash
  by (fastforce simp: plain_segment_def list_all_iff)

lemma valid_name_suffix_plain:
  "validate_target_name n = Inr () \<Longrightarrow> CHR ''/'' \<notin> set s \<Longrightarrow> plain_segment (n @ s)"
  using valid_name_bytes [of n] name_byte_not_slash
  by (cases n) (fastforce simp: plain_segment_def list_all_iff)+

section \<open>Channel names\<close>

lemma channel_extension_plain:
  assumes "channel_extension e"
  shows "CHR ''.'' \<notin> set e \<and> CHR ''/'' \<notin> set e \<and> e \<noteq> []"
proof -
  have "set (map ascii_lower e) \<subseteq> set ''m3u8''" and "e \<noteq> []"
    using assms by (auto simp: channel_extension_def to_ascii_lowercase_def)
  moreover have "ascii_lower CHR ''.'' = CHR ''.''" and "ascii_lower CHR ''/'' = CHR ''/''"
    by (simp_all add: ascii_lower_def)
  ultimately show ?thesis
    by (auto simp: image_subset_iff)
qed

lemma plain_extension: "plain_segment s \<Longrightarrow> extension s = name_extension s"
  by (simp add: extension_def plain_file_name)

text \<open>
  A managed channel name is accepted exactly when it is one file name: a non-empty stem,
  a dot and \<^verbatim>\<open>m3u\<close> or \<^verbatim>\<open>m3u8\<close> in any case, with no directory separator. So a saved
  channel cannot leave the channels directory.
\<close>

lemma valid_channel_name_iff:
  "valid_channel_name v \<longleftrightarrow>
   (\<exists>b e. v = b @ CHR ''.'' # e \<and> b \<noteq> [] \<and> CHR ''/'' \<notin> set b \<and> channel_extension e)"
proof
  assume "valid_channel_name v"
  then have plain: "plain_segment v" and ext: "is_channel_extension v"
    by (simp_all add: valid_channel_name_def file_name_self_iff)
  then obtain e where "name_extension v = Some e" and "channel_extension e"
    by (auto simp: is_channel_extension_def plain_extension split: option.splits)
  moreover from this(1) obtain b where "b \<noteq> []" and "v = b @ CHR ''.'' # e"
    using name_extension_split by blast
  ultimately show "\<exists>b e. v = b @ CHR ''.'' # e \<and> b \<noteq> [] \<and> CHR ''/'' \<notin> set b \<and> channel_extension e"
    using plain by (intro exI [of _ b] exI [of _ e]) (simp add: plain_segment_def)
next
  assume "\<exists>b e. v = b @ CHR ''.'' # e \<and> b \<noteq> [] \<and> CHR ''/'' \<notin> set b \<and> channel_extension e"
  then obtain b e where v: "v = b @ CHR ''.'' # e" "b \<noteq> []" "CHR ''/'' \<notin> set b"
    and e: "channel_extension e" by blast
  note clean = channel_extension_plain [OF e]
  have plain: "plain_segment v"
    using v clean by (cases b) (auto simp: plain_segment_def append_eq_Cons_conv)
  have "name_extension v = Some e"
    using v clean by (simp add: name_extension_intro)
  with plain e v show "valid_channel_name v"
    by (simp add: valid_channel_name_def file_name_self_iff is_channel_extension_def plain_extension)
qed

section \<open>Validated requests\<close>

text \<open>The arguments of an operation that reach the file system, a process or the
  configuration, each safe.\<close>

fun operation_safe :: "operation \<Rightarrow> bool" where
  "operation_safe (TargetAdd from _ paused muted) =
     (case from of None \<Rightarrow> True
      | Some s \<Rightarrow> validate_target_name s = Inr () \<and> paused \<and> muted)"
| "operation_safe (TargetRename name) = (validate_target_name name = Inr ())"
| "operation_safe (TargetSetChannel channel _) =
     (case channel of None \<Rightarrow> True | Some c \<Rightarrow> valid_channel c)"
| "operation_safe (TargetSaveChannel channel _) = valid_channel_name channel"
| "operation_safe (Mpv command _) = is_allowed_mpv_command command"
| "operation_safe _ = True"

lemma validate_operation_iff: "validate_operation op = Inr () \<longleftrightarrow> operation_safe op"
  by (cases op rule: validate_operation.cases) auto


end
