(* ===== verification/SocketAddr.thy ===== *)
theory SocketAddr
  imports Prelude
begin

text \<open>
  \<^verbatim>\<open>std::net::SocketAddr\<close> as the crates use it: \<^verbatim>\<open>str::parse\<close> for the configured
  listener, and the unspecified-address test of \<^verbatim>\<open>targets\<close> and \<^verbatim>\<open>deploy-targets\<close>.
  The reader follows the standard library's recursive-descent parser: a failing
  alternative consumes nothing, and the whole input must be consumed.
\<close>

section \<open>Readers\<close>

type_synonym 'a reader = "string \<Rightarrow> ('a \<times> string) option"

definition digit_value :: "nat \<Rightarrow> char \<Rightarrow> nat option" where
  "digit_value radix c =
     (let n = of_char c :: nat;
          d = (if 48 \<le> n \<and> n \<le> 57 then n - 48
               else if 97 \<le> n \<and> n \<le> 122 then n - 87
               else if 65 \<le> n \<and> n \<le> 90 then n - 55 else 36)
      in if d < radix then Some d else None)"

fun read_digits :: "nat \<Rightarrow> string \<Rightarrow> nat list \<times> string" where
  "read_digits radix [] = ([], [])"
| "read_digits radix (c # s) =
     (case digit_value radix c of
        None \<Rightarrow> ([], c # s)
      | Some d \<Rightarrow> (let (ds, rest) = read_digits radix s in (d # ds, rest)))"

definition digits_value :: "nat \<Rightarrow> nat list \<Rightarrow> nat" where
  "digits_value radix ds = foldl (\<lambda>acc d. acc * radix + d) 0 ds"

text \<open>
  \<^verbatim>\<open>read_number\<close>: at least one digit, at most \<open>max_digits\<close> where that is given, a value
  up to \<open>limit\<close>, and no leading zero unless allowed.
\<close>

definition read_number :: "nat \<Rightarrow> nat option \<Rightarrow> bool \<Rightarrow> nat \<Rightarrow> nat reader" where
  "read_number radix max_digits allow_zero_prefix limit s =
     (let (ds, rest) = read_digits radix s; v = digits_value radix ds in
      if ds = [] then None
      else if (case max_digits of None \<Rightarrow> False | Some m \<Rightarrow> m < length ds) then None
      else if \<not> allow_zero_prefix \<and> hd s = CHR ''0'' \<and> 1 < length ds then None
      else if limit < v then None
      else Some (v, rest))"

definition read_given_char :: "char \<Rightarrow> unit reader" where
  "read_given_char c s = (case s of [] \<Rightarrow> None | x # xs \<Rightarrow> if x = c then Some ((), xs) else None)"

definition read_separator :: "char \<Rightarrow> nat \<Rightarrow> 'a reader \<Rightarrow> 'a reader" where
  "read_separator sep index r s =
     (if index = 0 then r s
      else case read_given_char sep s of None \<Rightarrow> None | Some (_, s1) \<Rightarrow> r s1)"

section \<open>Addresses\<close>

datatype ip_addr = V4 "nat list" | V6 "nat list"

record socket_addr =
  sa_ip :: ip_addr
  sa_port :: nat
  sa_scope :: nat

fun read_ipv4_groups :: "nat \<Rightarrow> nat \<Rightarrow> nat list reader" where
  "read_ipv4_groups i 0 s = Some ([], s)"
| "read_ipv4_groups i (Suc n) s =
     (case read_separator CHR ''.'' i (read_number 10 (Some 3) False 255) s of
        None \<Rightarrow> None
      | Some (g, s1) \<Rightarrow>
          (case read_ipv4_groups (Suc i) n s1 of
             None \<Rightarrow> None
           | Some (gs, s2) \<Rightarrow> Some (g # gs, s2)))"

definition read_ipv4_addr :: "nat list reader" where
  "read_ipv4_addr = read_ipv4_groups 0 4"

text \<open>
  \<open>read_groups i n s\<close> reads up to \<open>n\<close> groups, the first having index \<open>i\<close>, and tells
  whether it ended in an embedded IPv4 address, which fills two groups.
\<close>

fun read_groups :: "nat \<Rightarrow> nat \<Rightarrow> string \<Rightarrow> (nat list \<times> bool) \<times> string" where
  "read_groups i 0 s = (([], False), s)"
| "read_groups i (Suc n) s =
     (case (if 0 < n then read_separator CHR '':'' i read_ipv4_addr s else None) of
        Some (v4, s1) \<Rightarrow>
          (([v4 ! 0 * 256 + v4 ! 1, v4 ! 2 * 256 + v4 ! 3], True), s1)
      | None \<Rightarrow>
          (case read_separator CHR '':'' i (read_number 16 (Some 4) True 65535) s of
             None \<Rightarrow> (([], False), s)
           | Some (g, s1) \<Rightarrow>
               (let ((gs, v4), s2) = read_groups (Suc i) n s1 in ((g # gs, v4), s2))))"

definition read_ipv6_addr :: "nat list reader" where
  "read_ipv6_addr s =
     (let ((head, head_ipv4), s1) = read_groups 0 8 s in
      if length head = 8 then Some (head, s1)
      else if head_ipv4 then None
      else case read_given_char CHR '':'' s1 of
        None \<Rightarrow> None
      | Some (_, s2) \<Rightarrow>
          (case read_given_char CHR '':'' s2 of
             None \<Rightarrow> None
           | Some (_, s3) \<Rightarrow>
               (let ((tail, _), s4) = read_groups 0 (8 - (length head + 1)) s3 in
                Some (head @ replicate (8 - length head - length tail) 0 @ tail, s4))))"

definition read_port :: "nat reader" where
  "read_port s =
     (case read_given_char CHR '':'' s of
        None \<Rightarrow> None
      | Some (_, s1) \<Rightarrow> read_number 10 None True 65535 s1)"

text \<open>The scope of an IPv6 address, zero if there is none.\<close>

definition read_scope_id :: "string \<Rightarrow> nat \<times> string" where
  "read_scope_id s =
     (case read_given_char CHR ''%'' s of
        None \<Rightarrow> (0, s)
      | Some (_, s1) \<Rightarrow>
          (case read_number 10 None True 4294967295 s1 of None \<Rightarrow> (0, s) | Some r \<Rightarrow> r))"

definition read_socket_addr_v4 :: "socket_addr reader" where
  "read_socket_addr_v4 s =
     (case read_ipv4_addr s of
        None \<Rightarrow> None
      | Some (ip, s1) \<Rightarrow>
          (case read_port s1 of
             None \<Rightarrow> None
           | Some (port, s2) \<Rightarrow> Some (\<lparr>sa_ip = V4 ip, sa_port = port, sa_scope = 0\<rparr>, s2)))"

definition read_socket_addr_v6 :: "socket_addr reader" where
  "read_socket_addr_v6 s =
     (case read_given_char CHR ''['' s of
        None \<Rightarrow> None
      | Some (_, s1) \<Rightarrow>
          (case read_ipv6_addr s1 of
             None \<Rightarrow> None
           | Some (ip, s2) \<Rightarrow>
               (let (scope, s3) = read_scope_id s2 in
                case read_given_char CHR '']'' s3 of
                  None \<Rightarrow> None
                | Some (_, s4) \<Rightarrow>
                    (case read_port s4 of
                       None \<Rightarrow> None
                     | Some (port, s5) \<Rightarrow>
                         Some (\<lparr>sa_ip = V6 ip, sa_port = port, sa_scope = scope\<rparr>, s5)))))"

definition parse_socket_addr :: "string \<Rightarrow> socket_addr option" where
  "parse_socket_addr s =
     (case (case read_socket_addr_v4 s of Some r \<Rightarrow> Some r | None \<Rightarrow> read_socket_addr_v6 s) of
        Some (a, []) \<Rightarrow> Some a
      | _ \<Rightarrow> None)"

fun is_unspecified :: "ip_addr \<Rightarrow> bool" where
  "is_unspecified (V4 gs) = list_all (\<lambda>g. g = 0) gs"
| "is_unspecified (V6 gs) = list_all (\<lambda>g. g = 0) gs"

text \<open>Evaluation of a literal address by the simplifier.\<close>

lemma read_ipv4_addr_eval: "read_ipv4_addr s = read_ipv4_groups 0 (Suc (Suc (Suc (Suc 0)))) s"
  by (simp add: read_ipv4_addr_def numeral_eq_Suc)

lemmas socket_addr_eval =
  parse_socket_addr_def read_socket_addr_v4_def read_ipv4_addr_eval read_separator_def
  read_given_char_def read_port_def read_number_def digit_value_def digits_value_def

section \<open>Shape of a parsed address\<close>

lemma read_number_limit: "read_number radix m z limit s = Some (v, rest) \<Longrightarrow> v \<le> limit"
  by (auto simp: read_number_def Let_def split: prod.splits if_splits)

lemma read_ipv4_groups_length: "read_ipv4_groups i n s = Some (gs, r) \<Longrightarrow> length gs = n"
  by (induction i n s arbitrary: gs r rule: read_ipv4_groups.induct)
    (auto split: option.splits prod.splits)

lemma read_port_limit: "read_port s = Some (p, r) \<Longrightarrow> p < 65536"
  by (auto simp: read_port_def dest: read_number_limit split: option.splits)

lemma parse_socket_addr_port: "parse_socket_addr s = Some a \<Longrightarrow> sa_port a < 65536"
  by (auto simp: parse_socket_addr_def read_socket_addr_v4_def read_socket_addr_v6_def
      dest: read_port_limit split: option.splits prod.splits list.splits)

end
