(* ===== verification/TargetLists.thy ===== *)
theory TargetLists
  imports Prelude
begin

text \<open>
  The contract of the two loops that check a list of targets with a hash set of the names
  seen so far (\<^verbatim>\<open>DaemonConfig::validate\<close> and \<^verbatim>\<open>AnswerFile::validate\<close>): the loop
  accepts exactly the lists whose elements are each acceptable and whose names are
  pairwise different.
\<close>

locale target_list_check =
  fixes check :: "string set \<Rightarrow> 'a list \<Rightarrow> ('e, unit) result"
    and name :: "'a \<Rightarrow> string"
    and good :: "'a \<Rightarrow> bool"
  assumes check_Nil: "check seen [] = Inr ()"
    and check_Cons: "check seen (x # xs) = Inr () \<longleftrightarrow>
      good x \<and> name x \<notin> seen \<and> check (insert (name x) seen) xs = Inr ()"
begin

lemma check_iff:
  "check seen xs = Inr () \<longleftrightarrow>
   list_all good xs \<and> distinct (map name xs) \<and> seen \<inter> name ` set xs = {}"
proof (induction xs arbitrary: seen)
  case Nil
  then show ?case by (simp add: check_Nil)
next
  case (Cons x xs)
  then show ?case by (auto simp: check_Cons)
qed

lemma check_empty_iff:
  "check {} xs = Inr () \<longleftrightarrow> list_all good xs \<and> distinct (map name xs)"
  by (simp add: check_iff)

lemma check_replace:
  assumes "check {} xs = Inr ()" and "length ys = length xs"
    and "map name ys = map name xs" and "list_all good ys"
  shows "check {} ys = Inr ()"
  using assms by (simp add: check_empty_iff)

lemma check_snoc:
  "check {} (xs @ [y]) = Inr () \<longleftrightarrow>
   check {} xs = Inr () \<and> good y \<and> name y \<notin> name ` set xs"
  by (auto simp: check_empty_iff)

lemma check_filter: "check {} xs = Inr () \<Longrightarrow> check {} (filter P xs) = Inr ()"
  by (auto simp: check_empty_iff list_all_iff distinct_map_filter)

end

end
