(* ===== verification/Config.thy ===== *)
theory Config
  imports Protocol SocketAddr TargetLists
begin

text \<open>
  The daemon's configuration of \<^verbatim>\<open>crates/mpv-targets/src/config.rs\<close> and its
  validation. Reading the TOML text is the \<^verbatim>\<open>toml\<close> crate's; the model starts from the
  parsed record.
\<close>

section \<open>Configuration\<close>

record node_config =
  nc_id :: string
  nc_listen :: string

record tls_config =
  tls_certificate :: string
  tls_private_key :: string

record target_config =
  tc_name :: string
  tc_disabled :: bool
  tc_channel :: "string option"

record daemon_config =
  dc_node :: node_config
  dc_tls :: tls_config
  dc_targets :: "target_config list"

datatype config_error =
    CfgToml string
  | CfgEmptyNodeId
  | CfgInvalidListenAddress string
  | CfgInvalidPath string string
  | CfgInvalidTargetName string target_name_error
  | CfgDuplicateTarget string
  | CfgInvalidChannel string

definition validate_config_path :: "string \<Rightarrow> string \<Rightarrow> (config_error, unit) result" where
  "validate_config_path value label =
     (if value = [] \<or> is_absolute value \<or> ParentDir \<in> set (path_components value)
      then Inl (CfgInvalidPath label value) else Inr ())"

definition validate_channel :: "string \<Rightarrow> (config_error, unit) result" where
  "validate_channel value =
     (if valid_channel value then Inr () else Inl (CfgInvalidChannel value))"

fun validate_targets :: "string set \<Rightarrow> target_config list \<Rightarrow> (config_error, unit) result" where
  "validate_targets names [] = Inr ()"
| "validate_targets names (target # rest) =
     try_result
       (map_err (CfgInvalidTargetName (tc_name target)) (validate_target_name (tc_name target)))
       (\<lambda>_. if tc_name target \<in> names then Inl (CfgDuplicateTarget (tc_name target))
            else try_result
              (case tc_channel target of None \<Rightarrow> Inr () | Some channel \<Rightarrow> validate_channel channel)
              (\<lambda>_. validate_targets (insert (tc_name target) names) rest))"

definition validate_config :: "daemon_config \<Rightarrow> (config_error, unit) result" where
  "validate_config c =
     (if nc_id (dc_node c) = [] then Inl CfgEmptyNodeId
      else try_result
        (map_err (\<lambda>_. CfgInvalidListenAddress (nc_listen (dc_node c)))
          (ok_or () (parse_socket_addr (nc_listen (dc_node c)))))
        (\<lambda>_. try_result (validate_config_path (tls_certificate (dc_tls c)) ''TLS certificate'')
        (\<lambda>_. try_result (validate_config_path (tls_private_key (dc_tls c)) ''TLS private key'')
        (\<lambda>_. validate_targets {} (dc_targets c)))))"

text \<open>\<^verbatim>\<open>DaemonConfig::parse\<close>, over the result of the TOML decoder.\<close>

definition parse_config ::
    "(string \<Rightarrow> (string, daemon_config) result) \<Rightarrow> string \<Rightarrow> (config_error, daemon_config) result" where
  "parse_config from_toml source =
     try_result (map_err CfgToml (from_toml source))
       (\<lambda>config. try_result (validate_config config) (\<lambda>_. Inr config))"

section \<open>What validation accepts\<close>

definition good_target :: "target_config \<Rightarrow> bool" where
  "good_target t =
     (validate_target_name (tc_name t) = Inr () \<and>
      (case tc_channel t of None \<Rightarrow> True | Some c \<Rightarrow> valid_channel c))"

interpretation cfg: target_list_check validate_targets tc_name good_target
  by unfold_locales
    (auto simp: good_target_def validate_channel_def split: option.splits if_splits)

definition good_header :: "daemon_config \<Rightarrow> bool" where
  "good_header c =
     (nc_id (dc_node c) \<noteq> [] \<and> parse_socket_addr (nc_listen (dc_node c)) \<noteq> None \<and>
      validate_config_path (tls_certificate (dc_tls c)) ''TLS certificate'' = Inr () \<and>
      validate_config_path (tls_private_key (dc_tls c)) ''TLS private key'' = Inr ())"

lemma validate_config_iff:
  "validate_config c = Inr () \<longleftrightarrow>
   good_header c \<and> list_all good_target (dc_targets c) \<and> distinct (map tc_name (dc_targets c))"
  by (auto simp: validate_config_def good_header_def cfg.check_empty_iff)

lemma parent_component_iff:
  "ParentDir \<in> set (path_components v) \<longleftrightarrow> ''..'' \<in> set (split_on CHR ''/'' v)"
  by (force simp: path_components_def body_component_def List.map_filter_def split: if_splits)

definition relative_below :: "string \<Rightarrow> bool" where
  "relative_below p = (p \<noteq> [] \<and> p ! 0 \<noteq> CHR ''/'' \<and> ''..'' \<notin> set (split_on CHR ''/'' p))"

lemma is_absolute_iff: "is_absolute p \<longleftrightarrow> p \<noteq> [] \<and> p ! 0 = CHR ''/''"
  by (cases p) (auto simp: is_absolute_def starts_with_def)

lemma validate_config_path_iff: "validate_config_path p label = Inr () \<longleftrightarrow> relative_below p"
  by (auto simp: validate_config_path_def relative_below_def is_absolute_iff parent_component_iff)

text \<open>
  A daemon configuration is accepted exactly when the node has an id and a socket address
  to listen on, both TLS paths are relative and never climb out of the configuration
  directory, every target has a valid name and (if any) a valid channel, and no two targets
  share a name.
\<close>

lemma validate_config_spec:
  "validate_config c = Inr () \<longleftrightarrow>
   nc_id (dc_node c) \<noteq> [] \<and> (\<exists>a. parse_socket_addr (nc_listen (dc_node c)) = Some a) \<and>
   relative_below (tls_certificate (dc_tls c)) \<and> relative_below (tls_private_key (dc_tls c)) \<and>
   list_all good_target (dc_targets c) \<and> distinct (map tc_name (dc_targets c))"
  by (auto simp: validate_config_iff good_header_def validate_config_path_iff)

end
