(* ===== verification/Observed.thy ===== *)
theory Observed
  imports Protocol
begin

text \<open>
  The pure functions of \<^verbatim>\<open>crates/mpv-targetsd/src/supervisor.rs\<close> between mpv's IPC
  messages and the observed state: normalisation of a property value, its application to
  the state, the reason a file ended, the command line sent to mpv, the recovery back-off,
  and the M3U text of a saved playlist.
\<close>

section \<open>Observed properties\<close>

definition observed_properties :: "(string \<times> string) list" where
  "observed_properties =
     [(''pause'', ''paused''), (''mute'', ''muted''), (''volume'', ''volume''),
      (''media-title'', ''title''), (''playlist-pos'', ''playlist_position''),
      (''playlist-count'', ''playlist_count''), (''idle-active'', ''idle_active''),
      (''duration'', ''duration''), (''time-pos'', ''position''),
      (''loop-file'', ''loop_file''), (''loop-playlist'', ''loop_playlist''),
      (''aid'', ''audio_track''), (''sid'', ''subtitle_track''),
      (''sub-visibility'', ''subtitles_visible'')]"

definition on_off :: "bool \<Rightarrow> string" where
  "on_off enabled = (if enabled then ''on'' else ''off'')"

fun loop_state :: "json \<Rightarrow> string option" where
  "loop_state (JBool enabled) = Some (on_off enabled)"
| "loop_state (JNum number) =
     (case number_as_i64 number of None \<Rightarrow> None | Some n \<Rightarrow> Some (on_off (n \<noteq> 0)))"
| "loop_state (JStr value) =
     Some (on_off (value \<notin> {''no'', ''off'', ''false'', ''0''}))"
| "loop_state _ = None"

definition normalize_observed_value :: "string \<Rightarrow> json \<Rightarrow> json" where
  "normalize_observed_value field value =
     (case (if field = ''loop_file'' \<or> field = ''loop_playlist'' then loop_state value else None) of
        Some state \<Rightarrow> JStr state
      | None \<Rightarrow>
          (case (if field = ''position'' then as_f64 value else None) of
             Some position \<Rightarrow> json_f64 (f64_floor position)
           | None \<Rightarrow>
               (if field = ''playlist_position'' \<and>
                   (case as_i64 value of None \<Rightarrow> False | Some p \<Rightarrow> sint p < 0)
                then JNull else value)))"

text \<open>
  \<open>set_observed\<close> is the macro of that name: it tells whether the slot changed. \<open>optional\<close>
  reads a null as the empty slot and anything else through the parser.
\<close>

definition set_observed ::
    "(target_state \<Rightarrow> 'a option) \<Rightarrow> ('a option \<Rightarrow> target_state) \<Rightarrow> target_state \<Rightarrow>
     'a option option \<Rightarrow> (target_state \<times> bool) option" where
  "set_observed slot write state next =
     (case next of None \<Rightarrow> None
      | Some v \<Rightarrow> Some (if slot state = v then (state, False) else (write v, True)))"

definition optional :: "(json \<Rightarrow> 'a option) \<Rightarrow> json \<Rightarrow> 'a option option" where
  "optional parse value =
     (if is_null value then Some None else map_option Some (parse value))"

definition parse_index :: "json \<Rightarrow> u32 option" where
  "parse_index value = (case as_i64 value of None \<Rightarrow> None | Some n \<Rightarrow> u32_of_i64 n)"

definition parse_track :: "json \<Rightarrow> string option" where
  "parse_track value =
     (case as_str value of Some s \<Rightarrow> Some s | None \<Rightarrow> map_option i64_to_string (as_i64 value))"

definition observed_change ::
    "target_state \<Rightarrow> string \<Rightarrow> json \<Rightarrow> (target_state \<times> bool) option" where
  "observed_change s field value =
     (if field = ''paused'' then
        set_observed ts_paused (\<lambda>v. s\<lparr>ts_paused := v\<rparr>) s (optional as_bool value)
      else if field = ''muted'' then
        set_observed ts_muted (\<lambda>v. s\<lparr>ts_muted := v\<rparr>) s (optional as_bool value)
      else if field = ''volume'' then
        set_observed ts_volume (\<lambda>v. s\<lparr>ts_volume := v\<rparr>) s (optional as_f64 value)
      else if field = ''title'' then
        set_observed ts_title (\<lambda>v. s\<lparr>ts_title := v\<rparr>) s (optional as_str value)
      else if field = ''playlist_position'' then
        set_observed ts_playlist_position (\<lambda>v. s\<lparr>ts_playlist_position := v\<rparr>) s
          (optional parse_index value)
      else if field = ''playlist_count'' then
        set_observed ts_playlist_count (\<lambda>v. s\<lparr>ts_playlist_count := v\<rparr>) s
          (optional parse_index value)
      else if field = ''idle_active'' then
        set_observed ts_idle_active (\<lambda>v. s\<lparr>ts_idle_active := v\<rparr>) s (optional as_bool value)
      else if field = ''duration'' then
        set_observed ts_duration (\<lambda>v. s\<lparr>ts_duration := v\<rparr>) s (optional as_f64 value)
      else if field = ''position'' then
        set_observed ts_position (\<lambda>v. s\<lparr>ts_position := v\<rparr>) s (optional as_f64 value)
      else if field = ''loop_file'' then
        set_observed ts_loop_file (\<lambda>v. s\<lparr>ts_loop_file := v\<rparr>) s (optional loop_state value)
      else if field = ''loop_playlist'' then
        set_observed ts_loop_playlist (\<lambda>v. s\<lparr>ts_loop_playlist := v\<rparr>) s
          (optional loop_state value)
      else if field = ''audio_track'' then
        set_observed ts_audio_track (\<lambda>v. s\<lparr>ts_audio_track := v\<rparr>) s (optional parse_track value)
      else if field = ''subtitle_track'' then
        set_observed ts_subtitle_track (\<lambda>v. s\<lparr>ts_subtitle_track := v\<rparr>) s
          (optional parse_track value)
      else if field = ''subtitles_visible'' then
        set_observed ts_subtitles_visible (\<lambda>v. s\<lparr>ts_subtitles_visible := v\<rparr>) s
          (optional as_bool value)
      else None)"

text \<open>The new state, and the value to publish if it changed anything.\<close>

definition apply_observed_update ::
    "target_state \<Rightarrow> string \<Rightarrow> json \<Rightarrow> target_state \<times> json option" where
  "apply_observed_update s field value =
     (case observed_change s field value of
        None \<Rightarrow> (s, None)
      | Some (s', changed) \<Rightarrow> (s', if changed then Some value else None))"

section \<open>Media end, commands, back-off, playlists\<close>

definition media_end_reason_of :: "string option \<Rightarrow> media_end_reason" where
  "media_end_reason_of value =
     (if value = Some ''eof'' then Eof
      else if value = Some ''stop'' then Stop
      else if value = Some ''quit'' then Quit
      else if value = Some ''error'' then Error
      else if value = Some ''redirect'' then Redirect
      else Unknown)"

definition osd_prefix :: string where
  "osd_prefix = ''${osd-ass-cc/0}''"

definition mpv_command_values :: "string \<Rightarrow> json list \<Rightarrow> json list" where
  "mpv_command_values command args =
     (if command = ''show-text'' \<and>
         (case args of [] \<Rightarrow> False
          | a # _ \<Rightarrow> (case as_str a of None \<Rightarrow> False | Some text \<Rightarrow> starts_with text osd_prefix))
      then [JStr ''expand-properties''] else [])
     @ [JStr command] @ args"

text \<open>
  \<^verbatim>\<open>Duration\<close> in nanoseconds; \<^verbatim>\<open>saturating_mul\<close> stops at \<^verbatim>\<open>Duration::MAX\<close>.
\<close>

type_synonym duration = int

definition duration_max :: duration where
  "duration_max = 18446744073709551615 * 1000000000 + 999999999"

definition recovery_max_delay :: duration where
  "recovery_max_delay = 30 * 1000000000"

definition recovery_first_delay :: duration where
  "recovery_first_delay = 1000000000"

definition next_recovery_delay :: "duration \<Rightarrow> duration" where
  "next_recovery_delay delay = min (min (2 * delay) duration_max) recovery_max_delay"

definition is_channel_path :: "string \<Rightarrow> bool" where
  "is_channel_path path =
     (case extension path of None \<Rightarrow> False | Some e \<Rightarrow> channel_extension e)"

text \<open>A playlist entry's file name, where it has one without line breaks.\<close>

definition entry_filename :: "json \<Rightarrow> string option" where
  "entry_filename entry =
     (case json_get entry ''filename'' of
        Some (JStr f) \<Rightarrow>
          (if char_of (10::nat) \<in> set f \<or> char_of (13::nat) \<in> set f then None else Some f)
      | _ \<Rightarrow> None)"

definition newline :: char where
  "newline = char_of (10::nat)"

fun playlist_entries :: "json list \<Rightarrow> string list option" where
  "playlist_entries [] = Some []"
| "playlist_entries (entry # rest) =
     (case entry_filename entry of
        None \<Rightarrow> None
      | Some f \<Rightarrow> map_option (\<lambda>fs. f # fs) (playlist_entries rest))"

text \<open>\<^verbatim>\<open>None\<close> stands for the error \<^verbatim>\<open>InvalidPlaylist\<close>.\<close>

definition playlist_m3u :: "json \<Rightarrow> (string \<times> nat) option" where
  "playlist_m3u playlist =
     (case as_array playlist of
        None \<Rightarrow> None
      | Some entries \<Rightarrow>
          (case playlist_entries entries of
             None \<Rightarrow> None
           | Some fs \<Rightarrow>
               Some (''#EXTM3U'' @ [newline] @ unlines_on newline fs, length entries)))"

end
