(* ===== verification/SupervisorState.thy ===== *)
theory SupervisorState
  imports Config Observed
begin

text \<open>
  The state of \<^verbatim>\<open>crates/mpv-targetsd/src/supervisor.rs\<close> that its inner mutex guards
  (\<^verbatim>\<open>Inner\<close>, \<^verbatim>\<open>RuntimeTarget\<close>), the snapshot made from it, and the bodies of the
  critical sections: each is the block of code between taking the inner lock and
  releasing it, as a function from the state to the value of the block, the new state and
  the events sent inside the block.
\<close>

section \<open>State\<close>

record runtime_target =
  rt_config :: target_config
  rt_observed :: target_state
  rt_stopped :: bool
  rt_online :: bool
  rt_launching :: bool
  rt_revision :: u64
  rt_recovering :: bool

record inner =
  in_config :: daemon_config
  in_targets :: "(string, runtime_target) btree"

datatype io_error = NotFound | AlreadyExists | OtherIo

text \<open>What \<^verbatim>\<open>MpvRejected\<close> formats: a response of mpv, or a configuration error.\<close>

datatype rejection = RejectedResponse json | RejectedConfig config_error

datatype supervisor_error =
    UnknownTarget string
  | TargetDisabled
  | TargetAlreadyStopped
  | TargetNotRunning
  | RenameRequiresStopped
  | IpcUnavailable string
  | MpvRejected rejection
  | LaunchError io_error
  | ConfigError io_error
  | ConfigSerialization
  | TargetExists string
  | ChannelExists string
  | InvalidPlaylist

definition fresh_runtime :: "target_config \<Rightarrow> bool \<Rightarrow> runtime_target" where
  "fresh_runtime config stopped =
     \<lparr>rt_config = config, rt_observed = default_target_state, rt_stopped = stopped,
      rt_online = False, rt_launching = False, rt_revision = 0, rt_recovering = False\<rparr>"

definition new_inner :: "daemon_config \<Rightarrow> inner" where
  "new_inner config =
     \<lparr>in_config = config,
      in_targets = bt_of_list
        (map (\<lambda>t. (tc_name t, fresh_runtime t (tc_disabled t))) (dc_targets config))\<rparr>"

section \<open>Records, snapshots, events\<close>

definition record_of :: "string \<Rightarrow> runtime_target \<Rightarrow> target_record" where
  "record_of name target =
     \<lparr>tr_name = name, tr_disabled = tc_disabled (rt_config target),
      tr_stopped = rt_stopped target, tr_online = rt_online target,
      tr_channel = tc_channel (rt_config target), tr_state = rt_observed target,
      tr_revision = rt_revision target\<rparr>"

definition snapshot_from :: "inner \<Rightarrow> snapshot" where
  "snapshot_from i =
     (let targets = map (\<lambda>(name, target). record_of name target) (in_targets i);
          expected = word_of_nat (length
            (filter (\<lambda>t. \<not> tr_disabled t \<and> \<not> tr_stopped t) targets)) :: u32;
          online = word_of_nat (length
            (filter (\<lambda>t. \<not> tr_disabled t \<and> \<not> tr_stopped t \<and> tr_online t) targets)) :: u32
      in \<lparr>sn_version = protocol_version,
          sn_node = nc_id (dc_node (in_config i)),
          sn_health =
            \<lparr>h_state = (if expected = 0 then Idle
                        else if expected = online then Ready else Degraded),
             h_configured = word_of_nat (length targets),
             h_expected = expected,
             h_online = online\<rparr>,
          sn_targets = targets\<rparr>)"

definition changed_event :: "string \<Rightarrow> u64 \<Rightarrow> json \<Rightarrow> event" where
  "changed_event name revision changed =
     TargetChangedEvent \<lparr>ch_target = name, ch_revision = revision, ch_changed = changed\<rparr>"

definition emit_snapshot :: "inner \<Rightarrow> event" where
  "emit_snapshot i = SnapshotEvent (snapshot_from i)"

section \<open>Access to one target\<close>

type_synonym 'a target_body = "runtime_target \<Rightarrow> 'a \<times> runtime_target \<times> event list"
type_synonym 'a body = "inner \<Rightarrow> 'a \<times> inner \<times> event list"

text \<open>\<^verbatim>\<open>inner.targets.get_mut(name)\<close> with the value of the block where it is missing.\<close>

definition at_target :: "string \<Rightarrow> 'a \<Rightarrow> 'a target_body \<Rightarrow> 'a body" where
  "at_target name missing f i =
     (case bt_get (in_targets i) name of
        None \<Rightarrow> (missing, i, [])
      | Some t \<Rightarrow>
          (let (a, t', es) = f t in
             (a, i\<lparr>in_targets := bt_modify name (\<lambda>_. t') (in_targets i)\<rparr>, es)))"

definition bump :: "runtime_target \<Rightarrow> runtime_target" where
  "bump t = t\<lparr>rt_revision := rt_revision t + 1\<rparr>"

definition publish :: "string \<Rightarrow> (string \<times> json) list \<Rightarrow> runtime_target \<Rightarrow> event" where
  "publish name members t = changed_event name (rt_revision t) (json_obj members)"

section \<open>Critical sections over one target\<close>

definition start_body :: "string \<Rightarrow> (supervisor_error, bool) result target_body" where
  "start_body name t =
     (if tc_disabled (rt_config t) then (Inl TargetDisabled, t, [])
      else
        (let (t1, es) =
           (if rt_stopped t then
              (let t1 = bump (t\<lparr>rt_stopped := False\<rparr>) in
               (t1, [publish name [(''stopped'', JBool False)] t1]))
            else (t, []))
         in if rt_online t1 \<or> rt_launching t1 then (Inr False, t1, es)
            else (Inr True, t1\<lparr>rt_launching := True\<rparr>, es)))"

definition stop_body :: "string \<Rightarrow> (supervisor_error, bool) result target_body" where
  "stop_body name t =
     (if rt_stopped t then (Inl TargetAlreadyStopped, t, [])
      else
        (let t1 = bump (t\<lparr>rt_stopped := True\<rparr>) in
         (Inr (rt_online t1), t1, [publish name [(''stopped'', JBool True)] t1])))"

text \<open>The block of \<^verbatim>\<open>on_target_lost\<close>: \<open>None\<close> where it returns early, otherwise whether
  to recover.\<close>

definition lost_body :: "string \<Rightarrow> bool option target_body" where
  "lost_body name t =
     (if \<not> rt_online t then (None, t, [])
      else
        (let t1 = bump (t\<lparr>rt_online := False, rt_launching := False\<rparr>) in
         (Some (\<not> tc_disabled (rt_config t1) \<and> \<not> rt_stopped t1), t1,
          [publish name [(''online'', JBool False)] t1])))"

definition recovery_body :: "bool target_body" where
  "recovery_body t =
     (if tc_disabled (rt_config t) \<or> rt_stopped t \<or> rt_recovering t then (False, t, [])
      else (True, t\<lparr>rt_recovering := True\<rparr>, []))"

definition still_expected_body :: "bool target_body" where
  "still_expected_body t =
     (if tc_disabled (rt_config t) \<or> rt_stopped t then (False, t\<lparr>rt_recovering := False\<rparr>, [])
      else (True, t, []))"

definition disabled_off_body :: "string \<Rightarrow> (supervisor_error, unit) result target_body" where
  "disabled_off_body name t =
     (let changed =
        (if \<not> rt_stopped t then [(''stopped'', JBool True)] else [])
        @ (if rt_online t then [(''online'', JBool False)] else []);
        t1 = t\<lparr>rt_stopped := True, rt_online := False, rt_launching := False,
               rt_recovering := False\<rparr>
      in if changed = [] then (Inr (), t1, [])
         else (let t2 = bump t1 in (Inr (), t2, [publish name changed t2])))"

text \<open>\<open>clear_observed_body\<close> and the two media-end blocks compute an event that the code
  sends after it has released the lock.\<close>

definition non_null_members :: "(string \<times> json) list \<Rightarrow> (string \<times> json) list" where
  "non_null_members m = map (\<lambda>(k, v). (k, JNull)) (filter (\<lambda>(k, v). \<not> is_null v) m)"

definition clear_observed_body :: "string \<Rightarrow> event option target_body" where
  "clear_observed_body name t =
     (if rt_observed t = default_target_state then (None, t, [])
      else
        (let members = non_null_members (target_state_json (rt_observed t));
             t1 = bump (t\<lparr>rt_observed := default_target_state\<rparr>)
         in (Some (publish name members t1), t1, [])))"

definition mark_online_body :: "string \<Rightarrow> bool target_body" where
  "mark_online_body name t =
     (if rt_online t then (False, t, [])
      else
        (let t1 = bump (t\<lparr>rt_online := True, rt_launching := False, rt_recovering := False\<rparr>) in
         (True, t1, [publish name [(''online'', JBool True)] t1])))"

definition mark_offline_body :: "string \<Rightarrow> unit target_body" where
  "mark_offline_body name t =
     (if rt_online t then
        (let t1 = bump (t\<lparr>rt_online := False, rt_launching := False\<rparr>) in
         ((), t1, [publish name [(''online'', JBool False)] t1]))
      else ((), t, []))"

definition clear_launching_body :: "unit target_body" where
  "clear_launching_body t = ((), t\<lparr>rt_launching := False\<rparr>, [])"

definition observed_body :: "string \<Rightarrow> string \<Rightarrow> json \<Rightarrow> unit target_body" where
  "observed_body name field value t =
     (case apply_observed_update (rt_observed t) field value of
        (_, None) \<Rightarrow> ((), t, [])
      | (s, Some _) \<Rightarrow>
          (let t1 = bump (t\<lparr>rt_observed := s\<rparr>) in
           ((), t1, [publish name [(field, value)] t1])))"

definition media_end_body ::
    "string \<Rightarrow> media_end_reason \<Rightarrow> string option \<Rightarrow> event option target_body" where
  "media_end_body name reason error t =
     (let s = rt_observed t in
      if ts_last_end_reason s = Some reason \<and> ts_last_end_error s = error then (None, t, [])
      else
        (let t1 = bump (t\<lparr>rt_observed :=
               s\<lparr>ts_last_end_reason := Some reason, ts_last_end_error := error\<rparr>\<rparr>)
         in (Some (publish name
               [(''last_end_reason'', end_reason_json reason),
                (''last_end_error'', opt_json JStr error)] t1), t1, [])))"

definition clear_media_end_body :: "string \<Rightarrow> event option target_body" where
  "clear_media_end_body name t =
     (let s = rt_observed t in
      if ts_last_end_reason s = None \<and> ts_last_end_error s = None then (None, t, [])
      else
        (let t1 = bump (t\<lparr>rt_observed :=
               s\<lparr>ts_last_end_reason := None, ts_last_end_error := None\<rparr>\<rparr>)
         in (Some (publish name
               [(''last_end_reason'', JNull), (''last_end_error'', JNull)] t1), t1, [])))"

section \<open>Critical sections over the registry\<close>

fun position_of :: "string \<Rightarrow> target_config list \<Rightarrow> nat option" where
  "position_of name [] = None"
| "position_of name (t # ts) =
     (if tc_name t = name then Some 0 else map_option Suc (position_of name ts))"

text \<open>The configuration with one target added, removed or renamed.\<close>

definition push_target :: "daemon_config \<Rightarrow> target_config \<Rightarrow> daemon_config" where
  "push_target c t = c\<lparr>dc_targets := dc_targets c @ [t]\<rparr>"

definition retain_other :: "daemon_config \<Rightarrow> string \<Rightarrow> daemon_config" where
  "retain_other c name = c\<lparr>dc_targets := filter (\<lambda>t. tc_name t \<noteq> name) (dc_targets c)\<rparr>"

definition rename_first :: "daemon_config \<Rightarrow> string \<Rightarrow> string \<Rightarrow> daemon_config option" where
  "rename_first c name replacement =
     (case position_of name (dc_targets c) of
        None \<Rightarrow> None
      | Some k \<Rightarrow> Some (c\<lparr>dc_targets :=
          (dc_targets c)[k := (dc_targets c ! k)\<lparr>tc_name := replacement\<rparr>]\<rparr>))"

definition add_commit :: "daemon_config \<Rightarrow> target_config \<Rightarrow> unit body" where
  "add_commit candidate target i =
     (let i1 = i\<lparr>in_config := candidate,
                 in_targets := bt_insert (tc_name target) (fresh_runtime target True) (in_targets i)\<rparr>
      in ((), i1, [emit_snapshot i1]))"

definition remove_commit :: "daemon_config \<Rightarrow> string \<Rightarrow> unit body" where
  "remove_commit candidate name i =
     (let i1 = i\<lparr>in_config := candidate, in_targets := bt_remove name (in_targets i)\<rparr>
      in ((), i1, [emit_snapshot i1]))"

text \<open>\<open>None\<close>: the \<^verbatim>\<open>expect("checked target exists")\<close> fails.\<close>

definition rename_commit :: "daemon_config \<Rightarrow> string \<Rightarrow> string \<Rightarrow> unit option body" where
  "rename_commit candidate name replacement i =
     (case bt_get (in_targets i) name of
        None \<Rightarrow> (None, i\<lparr>in_config := candidate\<rparr>, [])
      | Some t \<Rightarrow>
          (let t1 = bump (t\<lparr>rt_config := (rt_config t)\<lparr>tc_name := replacement\<rparr>\<rparr>);
               i1 = i\<lparr>in_config := candidate,
                      in_targets := bt_insert replacement t1 (bt_remove name (in_targets i))\<rparr>
           in (Some (), i1, [emit_snapshot i1])))"

end
