(* ===== verification/Tasks.thy ===== *)
theory Tasks
  imports SupervisorState
begin

text \<open>
  Asynchronous code as a tree of the points where it meets the rest of the world. A task
  takes or releases one of the two mutexes of the supervisor, sends an event, asks the
  environment (a socket, mpv, the file system, the clock), starts another task, or is
  done. Everything between two such points is ordinary computation. The same task is run
  alone by \<open>run\<close> (theory Sequential) and interleaved with others by \<open>sys_step\<close>
  (theory Interleaving).
\<close>

section \<open>Requests to the environment\<close>

type_synonym path = "string list"

text \<open>The text of a file: the serialised configuration, or bytes.\<close>

datatype content = TomlText daemon_config | Bytes string

datatype io_op =
    CreateDirAll path
  | CopyFile path path
  | CopyDirectory path path
  | WriteFile path content
  | CreateNew path
  | WriteOpen path content
  | SyncFile path
  | RenamePath path path
  | RemoveFile path
  | RemoveDirAll path
  | OpenAppend path
  | CloneHandle path
  | SerializeToml daemon_config
  | SpawnMpv "string list"
  | KillMpv string

text \<open>Background jobs: what \<^verbatim>\<open>tokio::spawn\<close> starts. A loop hands over to its next round as
  a job.\<close>

datatype job =
    ObserveJob string
  | ObserveLoop string
  | RecoveryJob string
  | RecoveryLoop string duration
  | ReapJob string

datatype dir_entry = DirEntry (entry_name: string) (entry_is_file: bool)

section \<open>Tasks\<close>

datatype 'r task =
    Return 'r
  | Panic string
  | Acquire "inner \<Rightarrow> 'r task"
  | Release inner "event list" "'r task"
  | Send event "'r task"
  | LockMutations "'r task"
  | UnlockMutations "'r task"
  | Connect string "bool \<Rightarrow> 'r task"
  | Exchange string json "json option \<Rightarrow> 'r task"
  | WriteLines string "json list" "bool \<Rightarrow> 'r task"
  | ReadLine string "json option option \<Rightarrow> 'r task"
  | Poll string bool "bool \<Rightarrow> 'r task"
  | PathExists path "bool \<Rightarrow> 'r task"
  | Io io_op "(io_error, unit) result \<Rightarrow> 'r task"
  | ReadDir path "(io_error, dir_entry list) result \<Rightarrow> 'r task"
  | Sleep duration "'r task"
  | Spawn job "'r task"

primrec bind_task :: "'a task \<Rightarrow> ('a \<Rightarrow> 'b task) \<Rightarrow> 'b task" where
  "bind_task (Return r) g = g r"
| "bind_task (Panic m) g = Panic m"
| "bind_task (Acquire k) g = Acquire (\<lambda>i. bind_task (k i) g)"
| "bind_task (Release i es p) g = Release i es (bind_task p g)"
| "bind_task (Send e p) g = Send e (bind_task p g)"
| "bind_task (LockMutations p) g = LockMutations (bind_task p g)"
| "bind_task (UnlockMutations p) g = UnlockMutations (bind_task p g)"
| "bind_task (Connect n k) g = Connect n (\<lambda>x. bind_task (k x) g)"
| "bind_task (Exchange n c k) g = Exchange n c (\<lambda>x. bind_task (k x) g)"
| "bind_task (WriteLines n c k) g = WriteLines n c (\<lambda>x. bind_task (k x) g)"
| "bind_task (ReadLine n k) g = ReadLine n (\<lambda>x. bind_task (k x) g)"
| "bind_task (Poll n b k) g = Poll n b (\<lambda>x. bind_task (k x) g)"
| "bind_task (PathExists p k) g = PathExists p (\<lambda>x. bind_task (k x) g)"
| "bind_task (Io x k) g = Io x (\<lambda>r. bind_task (k r) g)"
| "bind_task (ReadDir p k) g = ReadDir p (\<lambda>r. bind_task (k r) g)"
| "bind_task (Sleep d p) g = Sleep d (bind_task p g)"
| "bind_task (Spawn j p) g = Spawn j (bind_task p g)"

text \<open>What a reading of mpv's socket can be: a line that parses is a value the parser
  builds.\<close>

definition reply_wf :: "json option option \<Rightarrow> bool" where
  "reply_wf r = (case r of Some (Some v) \<Rightarrow> json_wf v | _ \<Rightarrow> True)"

text \<open>\<open>locked\<close> runs the body of a critical section; \<open>then_task\<close> propagates an error, as the
  question mark does; \<open>with_mutations\<close> holds the guard until the task returns.\<close>

definition locked :: "'a body \<Rightarrow> ('a \<Rightarrow> 'r task) \<Rightarrow> 'r task" where
  "locked body k =
     Acquire (\<lambda>i. case body i of (a, i', es) \<Rightarrow> Release i' es (k a))"

definition then_task ::
    "('e, 'a) result task \<Rightarrow> ('a \<Rightarrow> ('e, 'b) result task) \<Rightarrow> ('e, 'b) result task" where
  "then_task p k =
     bind_task p (\<lambda>r. case r of Inl e \<Rightarrow> Return (Inl e) | Inr x \<Rightarrow> k x)"

definition with_mutations :: "'r task \<Rightarrow> 'r task" where
  "with_mutations p = LockMutations (bind_task p (\<lambda>r. UnlockMutations (Return r)))"

definition read_inner :: "(inner \<Rightarrow> 'a) \<Rightarrow> 'a body" where
  "read_inner f i = (f i, i, [])"

lemma bind_return [simp]: "bind_task p Return = p"
  by (induction p) (auto simp: fun_eq_iff)

lemma bind_assoc: "bind_task (bind_task p f) g = bind_task p (\<lambda>x. bind_task (f x) g)"
  by (induction p) (auto simp: fun_eq_iff)

lemma bind_locked [simp]: "bind_task (locked body k) g = locked body (\<lambda>a. bind_task (k a) g)"
  by (auto simp: locked_def fun_eq_iff split: prod.splits)

lemma then_task_Return [simp]:
  "then_task (Return (Inl e)) k = Return (Inl e)"
  "then_task (Return (Inr x)) k = k x"
  by (simp_all add: then_task_def)

lemma then_task_locked [simp]:
  "then_task (locked body p) k = locked body (\<lambda>a. then_task (p a) k)"
  by (simp add: then_task_def)

lemma then_task_assoc:
  "then_task (then_task p f) g = then_task p (\<lambda>x. then_task (f x) g)"
  by (auto simp: then_task_def bind_assoc fun_eq_iff intro!: arg_cong [where f = "bind_task p"]
      split: sum.splits)

section \<open>Polling a socket\<close>

text \<open>
  \<^verbatim>\<open>wait_for_socket\<close> and \<^verbatim>\<open>wait_for_socket_gone\<close> poll every 50 ms until the socket is in
  the wanted state or the deadline has passed. Time is in milliseconds; a round of the loop
  takes at least its sleep, and \<open>delay\<close> is what it takes beyond that.
\<close>

definition ipc_wait :: nat where
  "ipc_wait = 5000"

function poll_socket :: "(nat \<Rightarrow> bool) \<Rightarrow> (nat \<Rightarrow> nat) \<Rightarrow> bool \<Rightarrow> nat \<Rightarrow> nat \<Rightarrow> bool \<times> nat" where
  "poll_socket live delay wanted deadline now =
     (if live now = wanted then (True, now)
      else if deadline \<le> now then (False, now)
      else poll_socket live delay wanted deadline (now + 50 + delay now))"
  by pat_completeness auto
termination
  by (relation "measure (\<lambda>(live, delay, wanted, deadline, now). deadline - now)") auto

declare poll_socket.simps [simp del]

lemma poll_socket_result:
  "poll_socket live delay wanted deadline now = (ok, t) \<Longrightarrow>
   now \<le> t \<and> (ok \<longleftrightarrow> live t = wanted) \<and> (ok \<or> deadline \<le> t)"
proof (induction live delay wanted deadline now rule: poll_socket.induct)
  case (1 live delay wanted deadline now)
  show ?case
  proof (cases "live now = wanted \<or> deadline \<le> now")
    case True
    with "1.prems" show ?thesis
      by (subst (asm) poll_socket.simps) (auto split: if_splits)
  next
    case False
    with "1.prems" have "poll_socket live delay wanted deadline (now + 50 + delay now) = (ok, t)"
      by (subst (asm) poll_socket.simps) auto
    with "1.IH" False show ?thesis by fastforce
  qed
qed

end
