(* ===== verification/Supervisor.thy ===== *)
theory Supervisor
  imports Tasks
begin

text \<open>
  The operations of \<^verbatim>\<open>crates/mpv-targetsd/src/supervisor.rs\<close> as tasks: lifecycle,
  persistent configuration, the target registry, channels, native commands, and the
  background jobs that observe mpv and recover lost targets.
\<close>

section \<open>Where the supervisor keeps its files\<close>

record paths =
  pt_config_path :: path
  pt_config_root :: path
  pt_logs :: path
  pt_runtime :: path
  pt_pid :: nat

definition socket_path :: "paths \<Rightarrow> string \<Rightarrow> path" where
  "socket_path pt name = path_join (pt_runtime pt) (name @ ''.sock'')"

definition target_directory :: "paths \<Rightarrow> string \<Rightarrow> path" where
  "target_directory pt name = path_join (path_join (pt_config_root pt) ''targets'') name"

definition channels_directory :: "paths \<Rightarrow> path" where
  "channels_directory pt = path_join (pt_config_root pt) ''channels''"

definition remove_directory :: "paths \<Rightarrow> string \<Rightarrow> path" where
  "remove_directory pt name =
     path_join (path_join (pt_config_root pt) ''targets'')
       (''.remove-'' @ name @ ''-'' @ show_nat (pt_pid pt))"

section \<open>Files\<close>

definition try_io :: "(io_error \<Rightarrow> 'e) \<Rightarrow> io_op \<Rightarrow> ('e, unit) result task" where
  "try_io err op = Io op (\<lambda>r. Return (map_err err r))"

fun try_all :: "(io_error \<Rightarrow> 'e) \<Rightarrow> io_op list \<Rightarrow> ('e, unit) result task" where
  "try_all err [] = Return (Inr ())"
| "try_all err (op # ops) = then_task (try_io err op) (\<lambda>_. try_all err ops)"

definition ignore_io :: "io_op \<Rightarrow> 'r task \<Rightarrow> 'r task" where
  "ignore_io op p = Io op (\<lambda>_. p)"

text \<open>
  Write a temporary file, sync it, rename it over the destination; on an error after the
  creation, remove the temporary file.
\<close>

definition replace_file :: "path \<Rightarrow> content \<Rightarrow> path \<Rightarrow> (supervisor_error, unit) result task" where
  "replace_file temporary contents destination =
     then_task (try_io ConfigError (CreateNew temporary)) (\<lambda>_.
       bind_task (try_all ConfigError
           [WriteOpen temporary contents, SyncFile temporary, RenamePath temporary destination])
         (\<lambda>r. case r of
            Inl e \<Rightarrow> ignore_io (RemoveFile temporary) (Return (Inl e))
          | Inr _ \<Rightarrow> Return (Inr ())))"

definition config_temporary :: "paths \<Rightarrow> path" where
  "config_temporary pt = with_extension (pt_config_path pt) (''toml.tmp-'' @ show_nat (pt_pid pt))"

definition persist_config :: "paths \<Rightarrow> daemon_config \<Rightarrow> (supervisor_error, unit) result task" where
  "persist_config pt config =
     then_task (try_io (\<lambda>_. ConfigSerialization) (SerializeToml config)) (\<lambda>_.
       replace_file (config_temporary pt) (TomlText config) (pt_config_path pt))"

definition validate_and_persist ::
    "paths \<Rightarrow> daemon_config \<Rightarrow> (supervisor_error, unit) result task" where
  "validate_and_persist pt candidate =
     then_task (Return (map_err (\<lambda>e. MpvRejected (RejectedConfig e)) (validate_config candidate)))
       (\<lambda>_. persist_config pt candidate)"

section \<open>Reading one target\<close>

definition query_target ::
    "(string \<Rightarrow> runtime_target \<Rightarrow> 'a) \<Rightarrow> string \<Rightarrow> (supervisor_error, 'a) result task" where
  "query_target f name =
     locked (read_inner (\<lambda>i. ok_or (UnknownTarget name)
       (map_option (f name) (bt_get (in_targets i) name)))) Return"

definition get_target_record :: "string \<Rightarrow> (supervisor_error, target_record) result task" where
  "get_target_record = query_target record_of"

definition get_target_config :: "string \<Rightarrow> (supervisor_error, target_config) result task" where
  "get_target_config = query_target (\<lambda>_ t. rt_config t)"

definition target_disabled :: "string \<Rightarrow> (supervisor_error, bool) result task" where
  "target_disabled = query_target (\<lambda>_ t. tc_disabled (rt_config t))"

definition target_stopped :: "string \<Rightarrow> (supervisor_error, bool) result task" where
  "target_stopped = query_target (\<lambda>_ t. rt_stopped t)"

definition target_online :: "string \<Rightarrow> (supervisor_error, bool) result task" where
  "target_online = query_target (\<lambda>_ t. rt_online t)"

section \<open>Sockets and mpv\<close>

definition socket_is_live :: "string \<Rightarrow> bool task" where
  "socket_is_live name = Connect name Return"

definition wait_for_socket :: "string \<Rightarrow> (supervisor_error, unit) result task" where
  "wait_for_socket name =
     Poll name True (\<lambda>ok. Return (if ok then Inr () else Inl (IpcUnavailable name)))"

definition wait_for_socket_gone :: "string \<Rightarrow> (supervisor_error, unit) result task" where
  "wait_for_socket_gone name =
     Poll name False (\<lambda>ok. Return (if ok then Inr () else Inl (IpcUnavailable name)))"

definition read_response :: "string \<Rightarrow> json option \<Rightarrow> (supervisor_error, json) result" where
  "read_response name reply =
     (case reply of
        None \<Rightarrow> Inl (IpcUnavailable name)
      | Some response \<Rightarrow>
          if (case json_get response ''error'' of Some (JStr e) \<Rightarrow> e \<noteq> ''success'' | _ \<Rightarrow> False)
          then Inl (MpvRejected (RejectedResponse response))
          else Inr (case json_get response ''data'' of None \<Rightarrow> JNull | Some d \<Rightarrow> d))"

definition ipc_command :: "string \<Rightarrow> json \<Rightarrow> (supervisor_error, json) result task" where
  "ipc_command name command =
     Exchange name command (\<lambda>reply. Return (read_response name reply))"

definition command_json :: "json list \<Rightarrow> json" where
  "command_json args = json_obj [(''command'', JArr args)]"

definition mpv_command ::
    "string \<Rightarrow> string \<Rightarrow> json list \<Rightarrow> (supervisor_error, json) result task" where
  "mpv_command name command args =
     then_task (target_online name) (\<lambda>online.
       if \<not> online then Return (Inl TargetNotRunning)
       else ipc_command name (command_json (mpv_command_values command args)))"

section \<open>Marks\<close>

definition deferred :: "event option \<Rightarrow> unit task" where
  "deferred e = (case e of None \<Rightarrow> Return () | Some ev \<Rightarrow> Send ev (Return ()))"

definition clear_observed :: "string \<Rightarrow> unit task" where
  "clear_observed name = locked (at_target name None (clear_observed_body name)) deferred"

definition mark_online :: "string \<Rightarrow> unit task" where
  "mark_online name =
     locked (at_target name False (mark_online_body name)) (\<lambda>changed.
       if changed then Spawn (ObserveJob name) (Return ()) else Return ())"

definition mark_offline :: "string \<Rightarrow> unit task" where
  "mark_offline name = locked (at_target name () (mark_offline_body name)) Return"

definition clear_launching :: "string \<Rightarrow> unit task" where
  "clear_launching name = locked (at_target name () clear_launching_body) Return"

definition schedule_recovery :: "string \<Rightarrow> unit task" where
  "schedule_recovery name = Spawn (RecoveryJob name) (Return ())"

section \<open>Lifecycle\<close>

definition mpv_arguments :: "paths \<Rightarrow> string \<Rightarrow> target_config \<Rightarrow> string list" where
  "mpv_arguments pt name config =
     [''--input-ipc-server='' @ display_path (socket_path pt name),
      ''--config-dir='' @ display_path (target_directory pt name)]
     @ (case tc_channel config of None \<Rightarrow> [] | Some channel \<Rightarrow> [channel])"

definition launch :: "paths \<Rightarrow> string \<Rightarrow> (supervisor_error, unit) result task" where
  "launch pt name =
     then_task (get_target_config name) (\<lambda>config.
     bind_task (socket_is_live name) (\<lambda>live.
       if live then bind_task (mark_online name) (\<lambda>_. Return (Inr ()))
       else
         PathExists (socket_path pt name) (\<lambda>stale.
         then_task (if stale then try_io LaunchError (RemoveFile (socket_path pt name))
                    else Return (Inr ())) (\<lambda>_.
         then_task (try_all LaunchError
             [CreateDirAll (pt_runtime pt), CreateDirAll (pt_logs pt),
              OpenAppend (path_join (pt_logs pt) (name @ ''.log'')),
              CloneHandle (path_join (pt_logs pt) (name @ ''.log'')),
              SpawnMpv (mpv_arguments pt name config)]) (\<lambda>_.
         bind_task (wait_for_socket name) (\<lambda>wait_result.
           case wait_result of
             Inl e \<Rightarrow> ignore_io (KillMpv name) (Return (Inl e))
           | Inr _ \<Rightarrow>
               bind_task (mark_online name) (\<lambda>_. Spawn (ReapJob name) (Return (Inr ())))))))))"

definition start :: "paths \<Rightarrow> string \<Rightarrow> (supervisor_error, target_record) result task" where
  "start pt name =
     then_task (locked (at_target name (Inl (UnknownTarget name)) (start_body name)) Return)
       (\<lambda>should_launch.
         if should_launch then
           bind_task (launch pt name) (\<lambda>r. case r of
             Inl e \<Rightarrow>
               bind_task (clear_launching name) (\<lambda>_.
               bind_task (schedule_recovery name) (\<lambda>_. Return (Inl e)))
           | Inr _ \<Rightarrow> get_target_record name)
         else get_target_record name)"

definition quit_mpv :: "string \<Rightarrow> (supervisor_error, unit) result task" where
  "quit_mpv name =
     then_task (ipc_command name (command_json [JStr ''quit'']))
       (\<lambda>_. wait_for_socket_gone name)"

definition stop :: "string \<Rightarrow> (supervisor_error, target_record) result task" where
  "stop name =
     then_task (locked (at_target name (Inl (UnknownTarget name)) (stop_body name)) Return)
       (\<lambda>was_online.
         then_task (if was_online then quit_mpv name else Return (Inr ())) (\<lambda>_.
         bind_task (clear_observed name) (\<lambda>_.
         bind_task (mark_offline name) (\<lambda>_.
         get_target_record name))))"

definition ensure_disabled_off :: "string \<Rightarrow> (supervisor_error, unit) result task" where
  "ensure_disabled_off name =
     bind_task (socket_is_live name) (\<lambda>live.
     then_task (if live then quit_mpv name else Return (Inr ())) (\<lambda>_.
     bind_task (clear_observed name) (\<lambda>_.
     locked (at_target name (Inl (UnknownTarget name)) (disabled_off_body name)) Return)))"

definition restart :: "paths \<Rightarrow> string \<Rightarrow> (supervisor_error, target_record) result task" where
  "restart pt name =
     then_task (target_disabled name) (\<lambda>disabled.
       if disabled then
         then_task (ensure_disabled_off name) (\<lambda>_. get_target_record name)
       else
         then_task (target_stopped name) (\<lambda>stopped.
         then_task (if \<not> stopped then then_task (stop name) (\<lambda>_. Return (Inr ()))
                    else Return (Inr ())) (\<lambda>_.
         start pt name)))"

section \<open>Persistent configuration\<close>

type_synonym mutation = "target_config \<Rightarrow> target_config \<times> (string \<times> json) list option"

text \<open>The section runs with both mutexes held; the configuration file is replaced inside.\<close>

definition persist_section ::
    "paths \<Rightarrow> string \<Rightarrow> mutation \<Rightarrow> (supervisor_error, unit) result task" where
  "persist_section pt name mutate =
     Acquire (\<lambda>i.
       case position_of name (dc_targets (in_config i)) of
         None \<Rightarrow> Release i [] (Return (Inl (UnknownTarget name)))
       | Some index \<Rightarrow>
           (case mutate (dc_targets (in_config i) ! index) of
              (_, None) \<Rightarrow> Release i [] (Return (Inr ()))
            | (changed_target, Some changed) \<Rightarrow>
                (let candidate = (in_config i)\<lparr>dc_targets :=
                       (dc_targets (in_config i))[index := changed_target]\<rparr>
                 in bind_task (validate_and_persist pt candidate) (\<lambda>r. case r of
                      Inl e \<Rightarrow> Release i [] (Return (Inl e))
                    | Inr _ \<Rightarrow>
                        (case bt_get (in_targets i) name of
                           None \<Rightarrow> Panic ''configured target must have runtime state''
                         | Some t \<Rightarrow>
                             (let t1 = bump (t\<lparr>rt_config := dc_targets candidate ! index\<rparr>)
                              in Release
                                   (i\<lparr>in_config := candidate,
                                      in_targets := bt_modify name (\<lambda>_. t1) (in_targets i)\<rparr>)
                                   [publish name changed t1]
                                   (Return (Inr ()))))))))"

definition persist_target_change ::
    "paths \<Rightarrow> string \<Rightarrow> mutation \<Rightarrow> (supervisor_error, unit) result task" where
  "persist_target_change pt name mutate = with_mutations (persist_section pt name mutate)"

definition enable_mutation :: mutation where
  "enable_mutation t =
     (if tc_disabled t then (t\<lparr>tc_disabled := False\<rparr>, Some [(''disabled'', JBool False)])
      else (t, None))"

definition disable_mutation :: mutation where
  "disable_mutation t =
     (if tc_disabled t then (t, None)
      else (t\<lparr>tc_disabled := True\<rparr>, Some [(''disabled'', JBool True)]))"

definition channel_mutation :: "string option \<Rightarrow> mutation" where
  "channel_mutation channel t =
     (if tc_channel t = channel then (t, None)
      else (t\<lparr>tc_channel := channel\<rparr>, Some [(''channel'', opt_json JStr channel)]))"

definition enable :: "paths \<Rightarrow> string \<Rightarrow> (supervisor_error, target_record) result task" where
  "enable pt name =
     then_task (persist_target_change pt name enable_mutation) (\<lambda>_. get_target_record name)"

definition disable :: "paths \<Rightarrow> string \<Rightarrow> (supervisor_error, target_record) result task" where
  "disable pt name =
     then_task (target_stopped name) (\<lambda>stopped.
     then_task (if \<not> stopped then then_task (stop name) (\<lambda>_. Return (Inr ()))
                else Return (Inr ())) (\<lambda>_.
     then_task (persist_target_change pt name disable_mutation) (\<lambda>_. get_target_record name)))"

definition set_channel ::
    "paths \<Rightarrow> string \<Rightarrow> string option \<Rightarrow> (supervisor_error, target_record) result task" where
  "set_channel pt name channel =
     then_task (persist_target_change pt name (channel_mutation channel))
       (\<lambda>_. get_target_record name)"

end
