(* ===== verification/Registry.thy ===== *)
theory Registry
  imports Supervisor
begin

text \<open>
  The operations of the supervisor that change the set of targets or the channel files
  (\<^verbatim>\<open>add\<close>, \<^verbatim>\<open>remove\<close>, \<^verbatim>\<open>rename\<close>, \<^verbatim>\<open>list_channels\<close>, \<^verbatim>\<open>save_channel\<close>), the start of
  the configured targets, and the background jobs.
\<close>

section \<open>Adding a target\<close>

text \<open>\<^verbatim>\<open>base_mpv_conf\<close> of \<^verbatim>\<open>crates/mpv-targets/src/lib.rs\<close>; the volume is given as the text
  it is displayed as.\<close>

definition yes_no :: "bool \<Rightarrow> string" where
  "yes_no b = (if b then ''yes'' else ''no'')"

definition base_mpv_conf :: "bool \<Rightarrow> bool \<Rightarrow> string \<Rightarrow> string" where
  "base_mpv_conf start_paused start_muted volume =
     ''# Generated by mpv-targets. Edit this target-local file for advanced mpv settings.'' @ [newline]
     @ ''force-window=yes'' @ [newline] @ ''idle=yes'' @ [newline]
     @ ''really-quiet=yes'' @ [newline]
     @ ''pause='' @ yes_no start_paused @ [newline]
     @ ''volume='' @ volume @ [newline]
     @ ''mute='' @ yes_no start_muted @ [newline]
     @ ''directory-mode=recursive'' @ [newline]"

definition add_lookup ::
    "string \<Rightarrow> string option \<Rightarrow> inner \<Rightarrow> (supervisor_error, string option) result" where
  "add_lookup name from i =
     (if bt_get (in_targets i) name \<noteq> None then Inl (TargetExists name)
      else case from of
        None \<Rightarrow> Inr None
      | Some source \<Rightarrow>
          (case bt_get (in_targets i) source of
             None \<Rightarrow> Inl (UnknownTarget source)
           | Some t \<Rightarrow> Inr (tc_channel (rt_config t))))"

definition preparation :: "paths \<Rightarrow> string \<Rightarrow> string option \<Rightarrow> bool \<Rightarrow> bool \<Rightarrow> io_op list" where
  "preparation pt name from start_paused start_muted =
     (let dir = target_directory pt name in
      CreateDirAll (path_join dir ''scripts'') #
      (case from of
         Some source \<Rightarrow>
           [CopyFile (path_join (target_directory pt source) ''mpv.conf'') (path_join dir ''mpv.conf''),
            CopyDirectory (path_join (target_directory pt source) ''scripts'')
              (path_join dir ''scripts'')]
       | None \<Rightarrow>
           [WriteFile (path_join dir ''mpv.conf'')
              (Bytes (base_mpv_conf start_paused start_muted ''100''))]))"

text \<open>The configuration is read, extended and replaced, then the target is registered.\<close>

definition add_finish :: "paths \<Rightarrow> target_config \<Rightarrow> (supervisor_error, target_record) result task" where
  "add_finish pt target =
     locked (read_inner (\<lambda>i. push_target (in_config i) target)) (\<lambda>candidate.
     bind_task (validate_and_persist pt candidate) (\<lambda>persisted.
       case persisted of
         Inl e \<Rightarrow> ignore_io (RemoveDirAll (target_directory pt (tc_name target))) (Return (Inl e))
       | Inr _ \<Rightarrow> locked (add_commit candidate target) (\<lambda>_. get_target_record (tc_name target))))"

definition add_section ::
    "paths \<Rightarrow> string \<Rightarrow> string option \<Rightarrow> bool \<Rightarrow> bool \<Rightarrow> bool \<Rightarrow>
     (supervisor_error, target_record) result task" where
  "add_section pt name from enabled start_paused start_muted =
     locked (read_inner (add_lookup name from)) (\<lambda>lookup. case lookup of
       Inl e \<Rightarrow> Return (Inl e)
     | Inr source_channel \<Rightarrow>
         PathExists (target_directory pt name) (\<lambda>exists.
           if exists then Return (Inl (TargetExists name))
           else
             bind_task (try_all ConfigError (preparation pt name from start_paused start_muted))
               (\<lambda>prepared. case prepared of
                  Inl e \<Rightarrow> ignore_io (RemoveDirAll (target_directory pt name)) (Return (Inl e))
                | Inr _ \<Rightarrow> add_finish pt
                    \<lparr>tc_name = name, tc_disabled = \<not> enabled, tc_channel = source_channel\<rparr>)))"

definition add ::
    "paths \<Rightarrow> string \<Rightarrow> string option \<Rightarrow> bool \<Rightarrow> bool \<Rightarrow> bool \<Rightarrow>
     (supervisor_error, target_record) result task" where
  "add pt name from enabled start_paused start_muted =
     with_mutations (add_section pt name from enabled start_paused start_muted)"

section \<open>Removing a target\<close>

definition remove_finish :: "paths \<Rightarrow> string \<Rightarrow> (supervisor_error, unit) result task" where
  "remove_finish pt name =
     locked (read_inner (\<lambda>i. retain_other (in_config i) name)) (\<lambda>candidate.
     bind_task (validate_and_persist pt candidate) (\<lambda>persisted.
       case persisted of
         Inl e \<Rightarrow>
           PathExists (remove_directory pt name) (\<lambda>moved.
             if moved
             then ignore_io (RenamePath (remove_directory pt name) (target_directory pt name))
               (Return (Inl e))
             else Return (Inl e))
       | Inr _ \<Rightarrow>
           locked (remove_commit candidate name) (\<lambda>_.
           PathExists (remove_directory pt name) (\<lambda>moved.
             if moved then try_io ConfigError (RemoveDirAll (remove_directory pt name))
             else Return (Inr ())))))"

definition remove_section :: "paths \<Rightarrow> string \<Rightarrow> (supervisor_error, unit) result task" where
  "remove_section pt name =
     then_task (target_stopped name) (\<lambda>was_stopped.
     then_task (if \<not> was_stopped then then_task (stop name) (\<lambda>_. Return (Inr ()))
                else Return (Inr ())) (\<lambda>_.
     PathExists (target_directory pt name) (\<lambda>exists.
     then_task (if exists
                then try_io ConfigError (RenamePath (target_directory pt name) (remove_directory pt name))
                else Return (Inr ())) (\<lambda>_.
     remove_finish pt name))))"

definition remove :: "paths \<Rightarrow> string \<Rightarrow> (supervisor_error, unit) result task" where
  "remove pt name = with_mutations (remove_section pt name)"

section \<open>Renaming a target\<close>

definition rename_lookup :: "string \<Rightarrow> string \<Rightarrow> inner \<Rightarrow> (supervisor_error, unit) result" where
  "rename_lookup name replacement i =
     (case bt_get (in_targets i) name of
        None \<Rightarrow> Inl (UnknownTarget name)
      | Some t \<Rightarrow>
          if bt_get (in_targets i) replacement \<noteq> None then Inl (TargetExists replacement)
          else if \<not> rt_stopped t then Inl RenameRequiresStopped
          else Inr ())"

definition rename_finish ::
    "paths \<Rightarrow> string \<Rightarrow> string \<Rightarrow> (supervisor_error, target_record) result task" where
  "rename_finish pt name replacement =
     locked (read_inner (\<lambda>i. rename_first (in_config i) name replacement)) (\<lambda>lookup. case lookup of
       None \<Rightarrow> Return (Inl (UnknownTarget name))
     | Some candidate \<Rightarrow>
         bind_task (validate_and_persist pt candidate) (\<lambda>persisted. case persisted of
           Inl e \<Rightarrow>
             ignore_io (RenamePath (target_directory pt replacement) (target_directory pt name))
               (Return (Inl e))
         | Inr _ \<Rightarrow>
             locked (rename_commit candidate name replacement) (\<lambda>done. case done of
               None \<Rightarrow> Panic ''checked target exists''
             | Some _ \<Rightarrow> get_target_record replacement)))"

definition rename_section ::
    "paths \<Rightarrow> string \<Rightarrow> string \<Rightarrow> (supervisor_error, target_record) result task" where
  "rename_section pt name replacement =
     locked (read_inner (rename_lookup name replacement)) (\<lambda>lookup. case lookup of
       Inl e \<Rightarrow> Return (Inl e)
     | Inr _ \<Rightarrow>
         PathExists (target_directory pt replacement) (\<lambda>exists.
           if exists then Return (Inl (TargetExists replacement))
           else
             then_task (try_io ConfigError
                 (RenamePath (target_directory pt name) (target_directory pt replacement)))
               (\<lambda>_. rename_finish pt name replacement)))"

definition rename ::
    "paths \<Rightarrow> string \<Rightarrow> string \<Rightarrow> (supervisor_error, target_record) result task" where
  "rename pt name replacement = with_mutations (rename_section pt name replacement)"

section \<open>Channels\<close>

definition channel_files :: "paths \<Rightarrow> dir_entry list \<Rightarrow> string list" where
  "channel_files pt entries =
     sort (map (\<lambda>e. display_path (path_join (channels_directory pt) (entry_name e)))
       (filter (\<lambda>e. entry_is_file e \<and>
          is_channel_path (display_path (path_join (channels_directory pt) (entry_name e)))) entries))"

definition list_channels :: "paths \<Rightarrow> (supervisor_error, string list) result task" where
  "list_channels pt =
     ReadDir (channels_directory pt) (\<lambda>r. Return (case r of
       Inl NotFound \<Rightarrow> Inr []
     | Inl e \<Rightarrow> Inl (ConfigError e)
     | Inr entries \<Rightarrow> Inr (channel_files pt entries)))"

definition channel_temporary :: "paths \<Rightarrow> string \<Rightarrow> path" where
  "channel_temporary pt channel =
     path_join (channels_directory pt) (''.'' @ channel @ ''.tmp-'' @ show_nat (pt_pid pt))"

definition save_channel_section ::
    "paths \<Rightarrow> string \<Rightarrow> string \<Rightarrow> bool \<Rightarrow> (supervisor_error, nat) result task" where
  "save_channel_section pt target channel overwrite =
     then_task (mpv_command target ''get_property'' [JStr ''playlist'']) (\<lambda>playlist.
     then_task (Return (ok_or InvalidPlaylist (playlist_m3u playlist))) (\<lambda>(contents, items).
     then_task (try_io ConfigError (CreateDirAll (channels_directory pt))) (\<lambda>_.
     PathExists (path_join (channels_directory pt) channel) (\<lambda>exists.
       if \<not> overwrite \<and> exists then Return (Inl (ChannelExists channel))
       else
         then_task (replace_file (channel_temporary pt channel) (Bytes contents)
             (path_join (channels_directory pt) channel))
           (\<lambda>_. Return (Inr items))))))"

definition save_channel ::
    "paths \<Rightarrow> string \<Rightarrow> string \<Rightarrow> bool \<Rightarrow> (supervisor_error, nat) result task" where
  "save_channel pt target channel overwrite =
     with_mutations (save_channel_section pt target channel overwrite)"

section \<open>Observation of mpv\<close>

definition update_observed :: "string \<Rightarrow> string \<Rightarrow> json \<Rightarrow> unit task" where
  "update_observed name field value =
     locked (at_target name ()
       (observed_body name field (normalize_observed_value field value))) Return"

definition update_media_end :: "string \<Rightarrow> media_end_reason \<Rightarrow> string option \<Rightarrow> unit task" where
  "update_media_end name reason error =
     locked (at_target name None (media_end_body name reason error)) deferred"

definition clear_media_end :: "string \<Rightarrow> unit task" where
  "clear_media_end name = locked (at_target name None (clear_media_end_body name)) deferred"

definition json_str :: "json \<Rightarrow> string \<Rightarrow> string option" where
  "json_str message key =
     (case json_get message key of None \<Rightarrow> None | Some v \<Rightarrow> as_str v)"

definition observe_message :: "string \<Rightarrow> json \<Rightarrow> unit task" where
  "observe_message name message =
     (case json_str message ''event'' of
        Some event \<Rightarrow>
          if event = ''property-change'' then
            (case json_str message ''name'' of
               None \<Rightarrow> Return ()
             | Some property \<Rightarrow>
                 (case find (\<lambda>p. fst p = property) observed_properties of
                    None \<Rightarrow> Return ()
                  | Some (_, field) \<Rightarrow>
                      update_observed name field
                        (case json_get message ''data'' of None \<Rightarrow> JNull | Some d \<Rightarrow> d)))
          else if event = ''end-file'' then
            update_media_end name (media_end_reason_of (json_str message ''reason''))
              (case json_str message ''file_error'' of
                 None \<Rightarrow> None
               | Some e \<Rightarrow> if e = [] then None else Some e)
          else if event = ''file-loaded'' then clear_media_end name
          else Return ()
      | None \<Rightarrow> Return ())"

definition on_target_lost :: "string \<Rightarrow> unit task" where
  "on_target_lost name =
     locked (at_target name None (lost_body name)) (\<lambda>lost.
       case lost of
         None \<Rightarrow> Return ()
       | Some should_recover \<Rightarrow>
           bind_task (clear_observed name) (\<lambda>_.
             if should_recover then schedule_recovery name else Return ()))"

definition observe_commands :: "json list" where
  "observe_commands =
     map (\<lambda>(id, property, _).
         command_json [JStr ''observe_property'', JNum (PosInt (word_of_nat (id + 1))), JStr property])
       (List.enumerate 0 observed_properties)"

definition observe_target :: "string \<Rightarrow> unit task" where
  "observe_target name =
     Connect name (\<lambda>connected.
       if \<not> connected then on_target_lost name
       else WriteLines name observe_commands (\<lambda>written.
         if \<not> written then on_target_lost name
         else Spawn (ObserveLoop name) (Return ())))"

text \<open>One round of the reading loop. \<open>None\<close> is the end of the stream or a read error,
  \<open>Some None\<close> a line that is not JSON.\<close>

definition observe_round :: "string \<Rightarrow> unit task" where
  "observe_round name =
     ReadLine name (\<lambda>line. case line of
       None \<Rightarrow> on_target_lost name
     | Some None \<Rightarrow> Spawn (ObserveLoop name) (Return ())
     | Some (Some message) \<Rightarrow>
         bind_task (observe_message name message) (\<lambda>_. Spawn (ObserveLoop name) (Return ())))"

section \<open>Recovery\<close>

definition recovery_task :: "string \<Rightarrow> unit task" where
  "recovery_task name =
     locked (at_target name False recovery_body) (\<lambda>should_recover.
       if should_recover then Spawn (RecoveryLoop name recovery_first_delay) (Return ())
       else Return ())"

definition recovery_round :: "paths \<Rightarrow> string \<Rightarrow> duration \<Rightarrow> unit task" where
  "recovery_round pt name delay =
     Sleep delay (locked (at_target name False still_expected_body) (\<lambda>still_expected.
       if \<not> still_expected then Return ()
       else bind_task (start pt name) (\<lambda>r.
         if is_ok r then Return ()
         else Spawn (RecoveryLoop name (next_recovery_delay delay)) (Return ()))))"

fun job_task :: "paths \<Rightarrow> job \<Rightarrow> unit task" where
  "job_task pt (ObserveJob name) = observe_target name"
| "job_task pt (ObserveLoop name) = observe_round name"
| "job_task pt (RecoveryJob name) = recovery_task name"
| "job_task pt (RecoveryLoop name delay) = recovery_round pt name delay"
| "job_task pt (ReapJob name) = Return ()"

section \<open>Start of the daemon\<close>

text \<open>\<^verbatim>\<open>start_configured_targets\<close>: the index \<^verbatim>\<open>targets[&name]\<close> panics on a missing name.\<close>

fun start_targets :: "paths \<Rightarrow> string list \<Rightarrow> (supervisor_error, unit) result task" where
  "start_targets pt [] = Return (Inr ())"
| "start_targets pt (name # names) =
     locked (read_inner (\<lambda>i. map_option (\<lambda>t. tc_disabled (rt_config t))
         (bt_get (in_targets i) name))) (\<lambda>disabled.
       case disabled of
         None \<Rightarrow> Panic ''no entry found for key''
       | Some disabled \<Rightarrow>
           if disabled then
             then_task (ensure_disabled_off name) (\<lambda>_. start_targets pt names)
           else
             bind_task (socket_is_live name) (\<lambda>live.
               if live then bind_task (mark_online name) (\<lambda>_. start_targets pt names)
               else bind_task (start pt name) (\<lambda>r.
                 if is_ok r then start_targets pt names
                 else bind_task (schedule_recovery name) (\<lambda>_. start_targets pt names))))"

definition start_configured_targets :: "paths \<Rightarrow> (supervisor_error, unit) result task" where
  "start_configured_targets pt =
     locked (read_inner (\<lambda>i. bt_keys (in_targets i))) (start_targets pt)"

text \<open>What a new connection receives first: the snapshot, taken under the inner lock in
  the same block as the subscription to later events.\<close>

definition snapshot_and_subscribe :: "snapshot task" where
  "snapshot_and_subscribe = locked (read_inner snapshot_from) Return"

end
