(* ===== verification/ClientCache.thy ===== *)
theory ClientCache
  imports Protocol
begin

text \<open>
  The cached node state of \<^verbatim>\<open>crates/mpv-targets/src/client.rs\<close>: how a client applies the
  daemon's events to its snapshot (\<^verbatim>\<open>handle_message\<close>, \<^verbatim>\<open>apply_target_change\<close>), the
  health it recomputes, and the status it derives from a record. Error texts are
  represented by the values they are formatted from.
\<close>

section \<open>Errors\<close>

datatype protocol_fault =
    UnsupportedVersion u32
  | ChangeBeforeSnapshot
  | ChangeUnknownTarget string
  | RevisionGap string u64 u64
  | ChangedNotObject
  | InvalidChangeField string
  | UnknownChangeField string
  | UndecodableMessage
  | RejectedRequest request_validation_error
  | UndecodableResult

datatype client_error =
    InvalidUrl
  | UrlError string
  | ConnectError string
  | TlsError string
  | Disconnected
  | RequestTimeout
  | Remote error_code string
  | ProtocolError protocol_fault

section \<open>Status\<close>

datatype target_status =
    StatusDisabled | StatusStopped | StatusOffline | StatusIdle | StatusPaused | StatusPlaying

definition target_status :: "target_record \<Rightarrow> target_status" where
  "target_status target =
     (if tr_disabled target then StatusDisabled
      else if tr_stopped target then StatusStopped
      else if \<not> tr_online target then StatusOffline
      else if ts_idle_active (tr_state target) = Some True then StatusIdle
      else if ts_paused (tr_state target) = Some True then StatusPaused
      else StatusPlaying)"

section \<open>Field decoders\<close>

definition invalid_change_field :: "string \<Rightarrow> client_error" where
  "invalid_change_field field = ProtocolError (InvalidChangeField field)"

definition required_bool :: "string \<Rightarrow> json \<Rightarrow> (client_error, bool) result" where
  "required_bool field value = ok_or (invalid_change_field field) (as_bool value)"

definition optional_bool :: "string \<Rightarrow> json \<Rightarrow> (client_error, bool option) result" where
  "optional_bool field value =
     (if is_null value then Inr None
      else try_result (required_bool field value) (\<lambda>b. Inr (Some b)))"

definition optional_number :: "string \<Rightarrow> json \<Rightarrow> (client_error, f64 option) result" where
  "optional_number field value =
     (if is_null value then Inr None
      else ok_or (invalid_change_field field) (map_option Some (as_f64 value)))"

definition optional_u32 :: "string \<Rightarrow> json \<Rightarrow> (client_error, u32 option) result" where
  "optional_u32 field value =
     (if is_null value then Inr None
      else ok_or (invalid_change_field field)
        (map_option Some (case as_u64 value of None \<Rightarrow> None | Some n \<Rightarrow> u32_of_u64 n)))"

definition optional_string :: "string \<Rightarrow> json \<Rightarrow> (client_error, string option) result" where
  "optional_string field value =
     (if is_null value then Inr None
      else ok_or (invalid_change_field field) (map_option Some (as_str value)))"

definition optional_track :: "string \<Rightarrow> json \<Rightarrow> (client_error, string option) result" where
  "optional_track field value =
     (if is_null value then Inr None
      else case as_str value of
        Some s \<Rightarrow> Inr (Some s)
      | None \<Rightarrow>
          (case as_i64 value of
             Some n \<Rightarrow> Inr (Some (i64_to_string n))
           | None \<Rightarrow> Inl (invalid_change_field field)))"

definition optional_end_reason ::
    "string \<Rightarrow> json \<Rightarrow> (client_error, media_end_reason option) result" where
  "optional_end_reason field value =
     (if is_null value then Inr None
      else ok_or (invalid_change_field field) (map_option Some (end_reason_of_json value)))"

section \<open>Applying a change\<close>

definition put :: "('e, 'a) result \<Rightarrow> ('a \<Rightarrow> target_record) \<Rightarrow> ('e, target_record) result" where
  "put r write = try_result r (\<lambda>v. Inr (write v))"

definition apply_field ::
    "target_record \<Rightarrow> string \<Rightarrow> json \<Rightarrow> (client_error, target_record) result" where
  "apply_field t field value =
     (let s = tr_state t in
      if field = ''disabled'' then
        put (required_bool field value) (\<lambda>v. t\<lparr>tr_disabled := v\<rparr>)
      else if field = ''stopped'' then
        put (required_bool field value) (\<lambda>v. t\<lparr>tr_stopped := v\<rparr>)
      else if field = ''online'' then
        put (required_bool field value) (\<lambda>v. t\<lparr>tr_online := v\<rparr>)
      else if field = ''channel'' then
        put (optional_string field value) (\<lambda>v. t\<lparr>tr_channel := v\<rparr>)
      else if field = ''paused'' then
        put (optional_bool field value) (\<lambda>v. t\<lparr>tr_state := s\<lparr>ts_paused := v\<rparr>\<rparr>)
      else if field = ''muted'' then
        put (optional_bool field value) (\<lambda>v. t\<lparr>tr_state := s\<lparr>ts_muted := v\<rparr>\<rparr>)
      else if field = ''volume'' then
        put (optional_number field value) (\<lambda>v. t\<lparr>tr_state := s\<lparr>ts_volume := v\<rparr>\<rparr>)
      else if field = ''title'' then
        put (optional_string field value) (\<lambda>v. t\<lparr>tr_state := s\<lparr>ts_title := v\<rparr>\<rparr>)
      else if field = ''playlist_position'' then
        put (optional_u32 field value) (\<lambda>v. t\<lparr>tr_state := s\<lparr>ts_playlist_position := v\<rparr>\<rparr>)
      else if field = ''playlist_count'' then
        put (optional_u32 field value) (\<lambda>v. t\<lparr>tr_state := s\<lparr>ts_playlist_count := v\<rparr>\<rparr>)
      else if field = ''idle_active'' then
        put (optional_bool field value) (\<lambda>v. t\<lparr>tr_state := s\<lparr>ts_idle_active := v\<rparr>\<rparr>)
      else if field = ''duration'' then
        put (optional_number field value) (\<lambda>v. t\<lparr>tr_state := s\<lparr>ts_duration := v\<rparr>\<rparr>)
      else if field = ''position'' then
        put (optional_number field value) (\<lambda>v. t\<lparr>tr_state := s\<lparr>ts_position := v\<rparr>\<rparr>)
      else if field = ''loop_file'' then
        put (optional_string field value) (\<lambda>v. t\<lparr>tr_state := s\<lparr>ts_loop_file := v\<rparr>\<rparr>)
      else if field = ''loop_playlist'' then
        put (optional_string field value) (\<lambda>v. t\<lparr>tr_state := s\<lparr>ts_loop_playlist := v\<rparr>\<rparr>)
      else if field = ''audio_track'' then
        put (optional_track field value) (\<lambda>v. t\<lparr>tr_state := s\<lparr>ts_audio_track := v\<rparr>\<rparr>)
      else if field = ''subtitle_track'' then
        put (optional_track field value) (\<lambda>v. t\<lparr>tr_state := s\<lparr>ts_subtitle_track := v\<rparr>\<rparr>)
      else if field = ''subtitles_visible'' then
        put (optional_bool field value) (\<lambda>v. t\<lparr>tr_state := s\<lparr>ts_subtitles_visible := v\<rparr>\<rparr>)
      else if field = ''last_end_reason'' then
        put (optional_end_reason field value) (\<lambda>v. t\<lparr>tr_state := s\<lparr>ts_last_end_reason := v\<rparr>\<rparr>)
      else if field = ''last_end_error'' then
        put (optional_string field value) (\<lambda>v. t\<lparr>tr_state := s\<lparr>ts_last_end_error := v\<rparr>\<rparr>)
      else Inl (ProtocolError (UnknownChangeField field)))"

fun apply_fields ::
    "target_record \<Rightarrow> (string \<times> json) list \<Rightarrow> (client_error, target_record) result" where
  "apply_fields t [] = Inr t"
| "apply_fields t ((field, value) # rest) =
     try_result (apply_field t field value) (\<lambda>t'. apply_fields t' rest)"

definition expected_count :: "target_record list \<Rightarrow> u32" where
  "expected_count ts = word_of_nat (length (filter (\<lambda>t. \<not> tr_disabled t \<and> \<not> tr_stopped t) ts))"

definition online_count :: "target_record list \<Rightarrow> u32" where
  "online_count ts =
     word_of_nat (length (filter (\<lambda>t. \<not> tr_disabled t \<and> \<not> tr_stopped t \<and> tr_online t) ts))"

definition refresh_health :: "snapshot \<Rightarrow> snapshot" where
  "refresh_health sn =
     (let expected = expected_count (sn_targets sn); online = online_count (sn_targets sn) in
      sn\<lparr>sn_health := (sn_health sn)
        \<lparr>h_configured := word_of_nat (length (sn_targets sn)),
         h_expected := expected,
         h_online := online,
         h_state := (if expected = 0 then Idle else if expected = online then Ready else Degraded)\<rparr>\<rparr>)"

text \<open>A mutation through \<^verbatim>\<open>iter_mut().find\<close>: the first record of that name.\<close>

fun update_record ::
    "string \<Rightarrow> target_record \<Rightarrow> target_record list \<Rightarrow> target_record list" where
  "update_record n t' [] = []"
| "update_record n t' (t # ts) = (if tr_name t = n then t' # ts else t # update_record n t' ts)"

definition apply_target_change ::
    "snapshot \<Rightarrow> target_changed \<Rightarrow> (client_error, snapshot) result" where
  "apply_target_change sn change =
     (case find (\<lambda>t. tr_name t = ch_target change) (sn_targets sn) of
        None \<Rightarrow> Inl (ProtocolError (ChangeUnknownTarget (ch_target change)))
      | Some t \<Rightarrow>
          if ch_revision change \<noteq> tr_revision t + 1
          then Inl (ProtocolError (RevisionGap (ch_target change) (tr_revision t + 1) (ch_revision change)))
          else (case as_object (ch_changed change) of
            None \<Rightarrow> Inl (ProtocolError ChangedNotObject)
          | Some members \<Rightarrow>
              try_result (apply_fields t members) (\<lambda>t'.
                Inr (refresh_health (sn\<lparr>sn_targets :=
                  update_record (ch_target change) (t'\<lparr>tr_revision := ch_revision change\<rparr>)
                    (sn_targets sn)\<rparr>)))))"

text \<open>The event branch of \<^verbatim>\<open>handle_message\<close>: the snapshot to cache next.\<close>

definition apply_event :: "snapshot option \<Rightarrow> event \<Rightarrow> (client_error, snapshot) result" where
  "apply_event cached e =
     (case e of
        SnapshotEvent value \<Rightarrow>
          (if sn_version value \<noteq> protocol_version
           then Inl (ProtocolError (UnsupportedVersion (sn_version value)))
           else Inr value)
      | TargetChangedEvent change \<Rightarrow>
          try_result (ok_or (ProtocolError ChangeBeforeSnapshot) cached)
            (\<lambda>current. apply_target_change current change))"

fun apply_events :: "snapshot option \<Rightarrow> event list \<Rightarrow> (client_error, snapshot option) result" where
  "apply_events cached [] = Inr cached"
| "apply_events cached (e # es) =
     try_result (apply_event cached e) (\<lambda>next. apply_events (Some next) es)"

end
