(* ===== verification/Decimal.thy ===== *)
theory Decimal
  imports Prelude
begin

text \<open>
  Decimal numbers as text: \<^verbatim>\<open>str::parse\<close> of an unsigned integer type (an optional plus
  sign, at least one digit, no overflow) and its round trip with \<^verbatim>\<open>Display\<close>.
\<close>

section \<open>Reading\<close>

definition digit_of :: "char \<Rightarrow> nat" where
  "digit_of c = (of_char c :: nat) - 48"

definition decimal_value :: "string \<Rightarrow> nat" where
  "decimal_value s = foldl (\<lambda>acc c. acc * 10 + digit_of c) 0 s"

definition unsigned_digits :: "string \<Rightarrow> string" where
  "unsigned_digits s = (case s of c # t \<Rightarrow> if c = CHR ''+'' \<and> t \<noteq> [] then t else s | [] \<Rightarrow> s)"

definition parse_unsigned :: "nat \<Rightarrow> string \<Rightarrow> nat option" where
  "parse_unsigned limit s =
     (let ds = unsigned_digits s in
      if ds = [] \<or> \<not> list_all is_ascii_digit ds then None
      else if limit < decimal_value ds then None else Some (decimal_value ds))"

section \<open>Writing and reading back\<close>

lemma show_digit:
  assumes "n < 10"
  shows "is_ascii_digit (char_of (48 + n))" and "digit_of (char_of (48 + n)) = n"
proof -
  have "(of_char (char_of (48 + n) :: char) :: nat) = 48 + n"
    using assms by (simp add: take_bit_eq_mod)
  then show "is_ascii_digit (char_of (48 + n))" "digit_of (char_of (48 + n)) = n"
    using assms by (simp_all add: is_ascii_digit_def digit_of_def)
qed

lemma decimal_snoc: "decimal_value (s @ [c]) = decimal_value s * 10 + digit_of c"
  by (simp add: decimal_value_def)

lemma show_nat_decimal: "show_nat n \<noteq> [] \<and> list_all is_ascii_digit (show_nat n) \<and> decimal_value (show_nat n) = n"
proof (induction n rule: show_nat.induct)
  case (1 n)
  show ?case
  proof (cases "n < 10")
    case True
    then show ?thesis
      by (simp add: show_nat.simps [of n] show_digit decimal_value_def)
  next
    case False
    then show ?thesis
      using 1 show_digit [of "n mod 10"]
      by (simp add: show_nat.simps [of n] decimal_snoc)
  qed
qed

lemma show_nat_inj: "show_nat m = show_nat n \<longleftrightarrow> m = n"
  using show_nat_decimal by metis

lemma digits_plain: "is_ascii_digit c \<Longrightarrow> c \<noteq> CHR ''+'' \<and> c \<noteq> CHR '':'' \<and> c \<noteq> CHR ''-'' \<and> c \<noteq> CHR ''/''
    \<and> c \<noteq> CHR ''['' \<and> c \<noteq> CHR '']'' \<and> c \<noteq> CHR ''.'' \<and> c \<noteq> CHR ''%''"
  by (auto simp: is_ascii_digit_def)

lemma unsigned_digits_id: "list_all is_ascii_digit s \<Longrightarrow> unsigned_digits s = s"
  by (auto simp: unsigned_digits_def is_ascii_digit_def split: list.splits)

lemma parse_show: "n \<le> limit \<Longrightarrow> parse_unsigned limit (show_nat n) = Some n"
  using show_nat_decimal [of n] by (simp add: parse_unsigned_def unsigned_digits_id Let_def)

lemma parse_unsigned_limit: "parse_unsigned limit s = Some n \<Longrightarrow> n \<le> limit"
  by (auto simp: parse_unsigned_def Let_def split: if_splits)

end
