(* ===== verification/Endpoint.thy ===== *)
theory Endpoint
  imports Config ClientCache Decimal
begin

text \<open>
  From the configured listener to the connection of a client: \<^verbatim>\<open>daemon_url\<close> of
  \<^verbatim>\<open>crates/targets/src/main.rs\<close> writes the address of the local daemon as a URL, and
  \<^verbatim>\<open>Endpoint::parse\<close> of \<^verbatim>\<open>crates/mpv-targets/src/client.rs\<close> reads host and port back
  out of it. \<^verbatim>\<open>Display\<close> of the addresses is the standard library's.
\<close>

section \<open>Displaying an address\<close>

fun join_with :: "string \<Rightarrow> string list \<Rightarrow> string" where
  "join_with sep [] = []"
| "join_with sep [p] = p"
| "join_with sep (p # ps) = p @ sep @ join_with sep ps"

definition hex_digit :: "nat \<Rightarrow> char" where
  "hex_digit d = (if d < 10 then char_of (48 + d) else char_of (87 + d))"

fun show_hex :: "nat \<Rightarrow> string" where
  "show_hex n = (if n < 16 then [hex_digit n] else show_hex (n div 16) @ [hex_digit (n mod 16)])"

declare show_hex.simps [simp del]

text \<open>The first longest run of zero groups: its start and its length.\<close>

fun zero_span :: "nat \<Rightarrow> nat \<times> nat \<Rightarrow> nat \<times> nat \<Rightarrow> nat list \<Rightarrow> nat \<times> nat" where
  "zero_span i longest current [] = longest"
| "zero_span i longest current (g # gs) =
     (if g = 0 then
        (let current' = (if snd current = 0 then (i, 1) else (fst current, Suc (snd current)))
         in zero_span (Suc i) (if snd longest < snd current' then current' else longest) current' gs)
      else zero_span (Suc i) longest (0, 0) gs)"

definition is_mapped :: "nat list \<Rightarrow> bool" where
  "is_mapped gs = (length gs = 8 \<and> take 5 gs = [0, 0, 0, 0, 0] \<and> gs ! 5 = 65535)"

definition show_ipv4 :: "nat list \<Rightarrow> string" where
  "show_ipv4 gs = join_with ''.'' (map show_nat gs)"

definition show_groups :: "nat list \<Rightarrow> string" where
  "show_groups gs = join_with '':'' (map show_hex gs)"

definition show_ipv6 :: "nat list \<Rightarrow> string" where
  "show_ipv6 gs =
     (if is_mapped gs then
        ''::ffff:'' @ show_ipv4 [gs ! 6 div 256, gs ! 6 mod 256, gs ! 7 div 256, gs ! 7 mod 256]
      else
        (let (start, len) = zero_span 0 (0, 0) (0, 0) gs in
         if 1 < len then show_groups (take start gs) @ ''::'' @ show_groups (drop (start + len) gs)
         else show_groups gs))"

definition show_scope :: "nat \<Rightarrow> string" where
  "show_scope s = (if s = 0 then [] else CHR ''%'' # show_nat s)"

fun show_host :: "ip_addr \<Rightarrow> nat \<Rightarrow> string" where
  "show_host (V4 gs) scope = show_ipv4 gs"
| "show_host (V6 gs) scope = show_ipv6 gs @ show_scope scope"

definition show_socket_addr :: "socket_addr \<Rightarrow> string" where
  "show_socket_addr a =
     (case sa_ip a of
        V4 gs \<Rightarrow> show_ipv4 gs
      | V6 gs \<Rightarrow> ''['' @ show_ipv6 gs @ show_scope (sa_scope a) @ '']'')
     @ '':'' @ show_nat (sa_port a)"

section \<open>The URL of the local daemon\<close>

fun local_ip :: "ip_addr \<Rightarrow> ip_addr" where
  "local_ip (V4 gs) = (if is_unspecified (V4 gs) then V4 [127, 0, 0, 1] else V4 gs)"
| "local_ip (V6 gs) = (if is_unspecified (V6 gs) then V6 [0, 0, 0, 0, 0, 0, 0, 1] else V6 gs)"

datatype url_error = InvalidListen

definition daemon_url :: "daemon_config \<Rightarrow> (url_error, string) result" where
  "daemon_url config =
     try_result (ok_or InvalidListen (parse_socket_addr (nc_listen (dc_node config))))
       (\<lambda>address. Inr (''wss://'' @ show_socket_addr (address\<lparr>sa_ip := local_ip (sa_ip address)\<rparr>)))"

section \<open>Reading it in the client\<close>

record endpoint =
  ep_host :: string
  ep_port :: nat

definition strip_prefix :: "string \<Rightarrow> string \<Rightarrow> string option" where
  "strip_prefix p s = (if starts_with s p then Some (drop (length p) s) else None)"

definition rsplit_once :: "char \<Rightarrow> string \<Rightarrow> (string \<times> string) option" where
  "rsplit_once c s =
     (if c \<in> set s
      then Some (take (length s - Suc (length (after_last c s))) s, after_last c s) else None)"

definition trim_matches :: "char \<Rightarrow> string \<Rightarrow> string" where
  "trim_matches c s = rev (dropWhile (\<lambda>x. x = c) (rev (dropWhile (\<lambda>x. x = c) s)))"

definition parse_endpoint :: "string \<Rightarrow> (client_error, endpoint) result" where
  "parse_endpoint value =
     try_result (ok_or InvalidUrl (strip_prefix ''wss://'' value)) (\<lambda>rest.
     try_result (ok_or (UrlError ''URL must include host and port'')
         (rsplit_once CHR '':'' (hd (split_on CHR ''/'' rest)))) (\<lambda>(host, port).
     try_result (ok_or (UrlError ''invalid port'') (parse_unsigned 65535 port)) (\<lambda>n.
       if host = [] then Inl (UrlError ''URL must include host'')
       else Inr \<lparr>ep_host = trim_matches CHR '']'' (trim_matches CHR ''['' host), ep_port = n\<rparr>)))"

section \<open>Characters of an address\<close>

definition host_char :: "char \<Rightarrow> bool" where
  "host_char c \<longleftrightarrow> c \<noteq> CHR ''['' \<and> c \<noteq> CHR '']'' \<and> c \<noteq> CHR ''/''"

lemma join_chars: "list_all (list_all P) ps \<Longrightarrow> list_all P sep \<Longrightarrow> list_all P (join_with sep ps)"
  by (induction sep ps rule: join_with.induct) auto

lemma show_nat_host: "list_all host_char (show_nat n)"
proof -
  have "list_all is_ascii_digit (show_nat n)" using show_nat_decimal by blast
  then show ?thesis by (auto simp: list_all_iff host_char_def dest: digits_plain)
qed

lemma hex_digit_host: "d < 16 \<Longrightarrow> host_char (hex_digit d)"
proof -
  assume "d < 16"
  then have "(of_char (hex_digit d) :: nat) = (if d < 10 then 48 + d else 87 + d)"
    by (simp add: hex_digit_def take_bit_eq_mod)
  then show ?thesis using \<open>d < 16\<close> by (auto simp: host_char_def split: if_splits)
qed

lemma show_hex_host: "list_all host_char (show_hex n)"
  by (induction n rule: show_hex.induct)
    (subst show_hex.simps, auto simp: hex_digit_host)

lemma show_ipv4_host: "list_all host_char (show_ipv4 gs)"
  unfolding show_ipv4_def
  by (rule join_chars) (auto simp: list_all_iff host_char_def dest: show_nat_host [unfolded list_all_iff, rule_format])

lemma show_groups_host: "list_all host_char (show_groups gs)"
  unfolding show_groups_def
  by (rule join_chars) (auto simp: list_all_iff host_char_def dest: show_hex_host [unfolded list_all_iff, rule_format])

lemma show_host_chars: "list_all host_char (show_host ip scope)"
proof -
  have colons: "list_all host_char ''::''" "list_all host_char ''::ffff:''"
    by (simp_all add: host_char_def)
  have "list_all host_char (show_ipv6 gs)" for gs
    using show_groups_host show_ipv4_host colons
    by (auto simp: show_ipv6_def split: prod.splits)
  moreover have "list_all host_char (show_scope scope)"
    using show_nat_host by (simp add: show_scope_def host_char_def)
  ultimately show ?thesis using show_ipv4_host by (cases ip) auto
qed


section \<open>The address survives\<close>

lemma dropWhile_clean: "c \<notin> set s \<Longrightarrow> dropWhile (\<lambda>x. x = c) s = s"
  by (cases s) auto

lemma trim_clean: "c \<notin> set s \<Longrightarrow> trim_matches c s = s"
  by (simp add: trim_matches_def dropWhile_clean)

lemma host_clean:
  "list_all host_char s \<Longrightarrow> CHR ''['' \<notin> set s \<and> CHR '']'' \<notin> set s \<and> CHR ''/'' \<notin> set s"
  by (auto simp: list_all_iff host_char_def)

lemma trim_brackets:
  assumes "list_all host_char h" and "h \<noteq> []"
  shows "trim_matches CHR '']'' (trim_matches CHR ''['' (''['' @ h @ '']'')) = h"
proof -
  note clean = host_clean [OF assms(1)]
  have "trim_matches CHR ''['' (''['' @ h @ '']'') = h @ '']''"
    using clean assms(2) by (cases h) (auto simp: trim_matches_def)
  moreover have "trim_matches CHR '']'' (h @ '']'') = h"
  proof -
    have "dropWhile (\<lambda>x. x = CHR '']'') (h @ '']'') = h @ '']''"
      using clean assms(2) by (cases h) auto
    moreover have "dropWhile (\<lambda>x. x = CHR '']'') (rev h) = rev h"
      using clean by (intro dropWhile_clean) simp
    ultimately show ?thesis by (simp add: trim_matches_def)
  qed
  ultimately show ?thesis by simp
qed

lemma rsplit_append: "c \<notin> set t \<Longrightarrow> rsplit_once c (s @ c # t) = Some (s, t)"
  by (simp add: rsplit_once_def after_last_append)

lemma join_nonempty: "gs \<noteq> [] \<Longrightarrow> (\<And>n. f n \<noteq> []) \<Longrightarrow> join_with sep (map f gs) \<noteq> []"
  by (cases gs; cases "tl gs") auto

lemma show_hex_nonempty: "show_hex n \<noteq> []"
  by (subst show_hex.simps) simp

lemma show_ipv6_nonempty: "gs \<noteq> [] \<Longrightarrow> show_ipv6 gs \<noteq> []"
  using join_nonempty [of gs show_hex] show_hex_nonempty
  by (simp add: show_ipv6_def show_groups_def split: prod.splits)

lemma read_ipv4_nonempty: "read_ipv4_addr s = Some (gs, r) \<Longrightarrow> gs \<noteq> []"
  unfolding read_ipv4_addr_def by (drule read_ipv4_groups_length) auto

lemma read_ipv6_nonempty: "read_ipv6_addr s = Some (gs, r) \<Longrightarrow> gs \<noteq> []"
  by (auto simp: read_ipv6_addr_def Let_def split: prod.splits if_splits option.splits)

fun ip_nonempty :: "ip_addr \<Rightarrow> bool" where
  "ip_nonempty (V4 gs) = (gs \<noteq> [])"
| "ip_nonempty (V6 gs) = (gs \<noteq> [])"

lemma parsed_ip_nonempty: "parse_socket_addr s = Some a \<Longrightarrow> ip_nonempty (sa_ip a)"
  by (auto simp: parse_socket_addr_def read_socket_addr_v4_def read_socket_addr_v6_def
      dest: read_ipv6_nonempty read_ipv4_nonempty split: option.splits prod.splits list.splits)

lemma show_host_nonempty: "ip_nonempty ip \<Longrightarrow> show_host ip scope \<noteq> []"
  using show_ipv6_nonempty join_nonempty [of _ show_nat] show_nat_decimal
  by (cases ip) (simp_all add: show_ipv4_def)

lemma local_ip_nonempty: "ip_nonempty ip \<Longrightarrow> ip_nonempty (local_ip ip)"
  by (cases ip) auto

lemma endpoint_of_address:
  assumes "ip_nonempty (sa_ip a)" and "sa_port a < 65536"
  shows "parse_endpoint (''wss://'' @ show_socket_addr a) =
    Inr \<lparr>ep_host = show_host (sa_ip a) (sa_scope a), ep_port = sa_port a\<rparr>"
proof -
  let ?h = "show_host (sa_ip a) (sa_scope a)" and ?p = "show_nat (sa_port a)"
  define w where "w = (case sa_ip a of V4 _ \<Rightarrow> ?h | V6 _ \<Rightarrow> ''['' @ ?h @ '']'')"
  have h: "list_all host_char ?h" "?h \<noteq> []"
    using show_host_chars show_host_nonempty [OF assms(1)] by auto
  have digits: "list_all is_ascii_digit ?p" using show_nat_decimal by blast
  then have p: "CHR '':'' \<notin> set ?p" "CHR ''/'' \<notin> set ?p"
    using digits_plain by (auto simp: list_all_iff)
  have shown: "show_socket_addr a = w @ CHR '':'' # ?p"
    by (cases "sa_ip a") (simp_all add: show_socket_addr_def w_def)
  have w: "CHR ''/'' \<notin> set w" "w \<noteq> []"
    using host_clean [OF h(1)] h(2) by (auto simp: w_def split: ip_addr.splits)
  have "trim_matches CHR '']'' (trim_matches CHR ''['' w) = ?h"
    using host_clean [OF h(1)] trim_brackets [OF h] trim_clean
    by (auto simp: w_def split: ip_addr.splits)
  moreover have "strip_prefix ''wss://'' (''wss://'' @ s) = Some s" for s
    by (simp add: strip_prefix_def starts_with_def)
  moreover have "split_on CHR ''/'' (w @ CHR '':'' # ?p) = [w @ CHR '':'' # ?p]"
    using w p by (intro split_on_no_sep) simp
  moreover have "parse_unsigned 65535 ?p = Some (sa_port a)"
    using assms(2) by (intro parse_show) simp
  ultimately show ?thesis
    unfolding parse_endpoint_def shown
    using w p by (simp add: rsplit_append)
qed



end
