(* ===== verification/Answer.thy ===== *)
theory Answer
  imports Registry Endpoint
begin

text \<open>
  The answer file of a deployment (\<^verbatim>\<open>crates/mpv-targets/src/answer.rs\<close>), the check of the
  TLS material (\<^verbatim>\<open>crates/mpv-targets/src/tls.rs\<close>), and the plan that
  \<^verbatim>\<open>deploy-targets\<close> builds from them. Decoding TOML, reading PEM, generating a
  certificate, reading files and displaying a binary64 value are parameters.
\<close>

section \<open>The answer file\<close>

text \<open>TOML, unlike JSON, has the infinities and the values that are no number.\<close>

datatype toml_float = Finite f64 | Infinity | NegInfinity | NotANumber

fun is_finite :: "toml_float \<Rightarrow> bool" where
  "is_finite (Finite x) = True"
| "is_finite _ = False"

fun float_negative :: "toml_float \<Rightarrow> bool" where
  "float_negative (Finite x) = (x < 0)"
| "float_negative NegInfinity = True"
| "float_negative _ = False"

record answer_target =
  at_name :: string
  at_disabled :: bool
  at_start_paused :: bool
  at_start_muted :: bool
  at_volume :: toml_float

record answer_tls =
  al_generate_self_signed :: bool
  al_certificate :: "string option"
  al_private_key :: "string option"

record answer_file =
  af_host_profile :: string
  af_node :: node_config
  af_tls :: answer_tls
  af_install :: bool
  af_targets :: "answer_target list"

datatype answer_error =
    AnswerToml string
  | EmptyHostProfile
  | EmptyNodeId
  | InvalidListenAddress string
  | InvalidTlsChoice
  | IncompleteTlsPair
  | InvalidTargetName string target_name_error
  | DuplicateTarget string
  | InvalidVolume string toml_float

text \<open>The defaults of the optional entries.\<close>

definition generic_host_profile :: string where
  "generic_host_profile = ''generic''"

definition default_answer_target :: "string \<Rightarrow> answer_target" where
  "default_answer_target name =
     \<lparr>at_name = name, at_disabled = False, at_start_paused = True, at_start_muted = True,
      at_volume = Finite 100\<rparr>"

definition certificate_pair :: "answer_file \<Rightarrow> (answer_error, (string \<times> string) option) result" where
  "certificate_pair a =
     (case (al_certificate (af_tls a), al_private_key (af_tls a)) of
        (None, None) \<Rightarrow> Inr None
      | (Some certificate, Some private_key) \<Rightarrow>
          if certificate \<noteq> [] \<and> private_key \<noteq> [] then Inr (Some (certificate, private_key))
          else Inl IncompleteTlsPair
      | _ \<Rightarrow> Inl IncompleteTlsPair)"

fun validate_answer_targets :: "string set \<Rightarrow> answer_target list \<Rightarrow> (answer_error, unit) result" where
  "validate_answer_targets names [] = Inr ()"
| "validate_answer_targets names (target # rest) =
     try_result
       (map_err (InvalidTargetName (at_name target)) (validate_target_name (at_name target)))
       (\<lambda>_. if at_name target \<in> names then Inl (DuplicateTarget (at_name target))
            else if \<not> is_finite (at_volume target) \<or> float_negative (at_volume target)
            then Inl (InvalidVolume (at_name target) (at_volume target))
            else validate_answer_targets (insert (at_name target) names) rest)"

definition validate_answer :: "answer_file \<Rightarrow> (answer_error, unit) result" where
  "validate_answer a =
     (if af_host_profile a = [] then Inl EmptyHostProfile
      else if nc_id (af_node a) = [] then Inl EmptyNodeId
      else try_result
        (map_err (\<lambda>_. InvalidListenAddress (nc_listen (af_node a)))
          (ok_or () (parse_socket_addr (nc_listen (af_node a)))))
        (\<lambda>_. try_result (certificate_pair a) (\<lambda>supplied_pair.
          if al_generate_self_signed (af_tls a) = (supplied_pair \<noteq> None) then Inl InvalidTlsChoice
          else validate_answer_targets {} (af_targets a))))"

text \<open>\<^verbatim>\<open>AnswerFile::parse\<close>, over the result of the TOML decoder.\<close>

definition parse_answer ::
    "(string \<Rightarrow> (string, answer_file) result) \<Rightarrow> string \<Rightarrow> (answer_error, answer_file) result" where
  "parse_answer from_toml source =
     try_result (map_err AnswerToml (from_toml source))
       (\<lambda>answer. try_result (validate_answer answer) (\<lambda>_. Inr answer))"

definition good_answer_target :: "answer_target \<Rightarrow> bool" where
  "good_answer_target t =
     (validate_target_name (at_name t) = Inr () \<and>
      is_finite (at_volume t) \<and> \<not> float_negative (at_volume t))"

interpretation ans: target_list_check validate_answer_targets at_name good_answer_target
  by unfold_locales (auto simp: good_answer_target_def split: if_splits)

text \<open>What the checked answer says about its key material.\<close>

definition tls_choice_ok :: "answer_tls \<Rightarrow> bool" where
  "tls_choice_ok t =
     (if al_generate_self_signed t then al_certificate t = None \<and> al_private_key t = None
      else (\<exists>c k. al_certificate t = Some c \<and> al_private_key t = Some k \<and> c \<noteq> [] \<and> k \<noteq> []))"

lemma certificate_pair_iff:
  "tls_choice_ok (af_tls a) \<longleftrightarrow>
   (\<exists>pair. certificate_pair a = Inr pair \<and> al_generate_self_signed (af_tls a) \<noteq> (pair \<noteq> None))"
  by (auto simp: tls_choice_ok_def certificate_pair_def split: option.splits)

lemma validate_answer_iff:
  "validate_answer a = Inr () \<longleftrightarrow>
   af_host_profile a \<noteq> [] \<and> nc_id (af_node a) \<noteq> [] \<and>
   parse_socket_addr (nc_listen (af_node a)) \<noteq> None \<and> tls_choice_ok (af_tls a) \<and>
   list_all good_answer_target (af_targets a) \<and> distinct (map at_name (af_targets a))"
  unfolding certificate_pair_iff
  by (auto simp: validate_answer_def ans.check_empty_iff)

section \<open>TLS material\<close>

datatype tls_material_error =
    TlsParse string
  | NoCertificate
  | NoPrivateKey
  | InvalidPair string

text \<open>\<^verbatim>\<open>server_tls_config\<close>; the PEM readers and \<^verbatim>\<open>with_single_cert\<close> are the parameters.\<close>

record 'cfg tls_library =
  tl_certs :: "string \<Rightarrow> (string, string list) result"
  tl_private_key :: "string \<Rightarrow> (string, string option) result"
  tl_single_cert :: "string list \<Rightarrow> string \<Rightarrow> (string, 'cfg) result"

definition server_tls_config ::
    "'cfg tls_library \<Rightarrow> string \<Rightarrow> string \<Rightarrow> (tls_material_error, 'cfg) result" where
  "server_tls_config lib certificate private_key =
     try_result (map_err TlsParse (tl_certs lib certificate)) (\<lambda>certificates.
       if certificates = [] then Inl NoCertificate
       else try_result (map_err TlsParse (tl_private_key lib private_key)) (\<lambda>key.
       try_result (ok_or NoPrivateKey key) (\<lambda>k.
         map_err InvalidPair (tl_single_cert lib certificates k))))"

section \<open>Errors of a deployment\<close>

datatype deploy_error =
    Usage
  | ExistingConfig path
  | SymlinkRoot path
  | OverwriteRequiresTerminal
  | OverwriteCancelled
  | PromptIo io_error
  | MissingHome
  | CurrentExecutable io_error
  | MissingDaemonBinary path
  | InvalidDaemonPath path
  | InputFile path io_error
  | AnswerRejected answer_error
  | ConfigRejected config_error
  | UnsupportedHostProfile string
  | CertificateFailed string
  | OutputFile path io_error
  | InvalidTlsMaterial tls_material_error
  | Serialize string
  | SystemctlFailed io_error

section \<open>The plan\<close>

datatype host_profile = Generic | Hyprland

definition parse_host_profile :: "string \<Rightarrow> (deploy_error, host_profile) result" where
  "parse_host_profile value =
     (if value = ''generic'' then Inr Generic
      else if value = ''hyprland'' then Inr Hyprland
      else Inl (UnsupportedHostProfile value))"

definition hyprland_wait_helper :: string where
  "hyprland_wait_helper = ''mpv-targets-wait-hyprland''"

definition service_unit :: "host_profile \<Rightarrow> path \<Rightarrow> string" where
  "service_unit profile config_path =
     ''[Unit]'' @ [newline] @ ''Description=mpv-targets daemon'' @ [newline]
     @ ''After=default.target'' @ [newline, newline] @ ''[Service]'' @ [newline]
     @ (case profile of
          Generic \<Rightarrow> []
        | Hyprland \<Rightarrow> ''ExecStartPre=%h/.local/bin/'' @ hyprland_wait_helper @ [newline])
     @ ''ExecStart=%h/.local/bin/mpv-targetsd --config '' @ display_path config_path @ [newline]
     @ ''Restart=on-failure'' @ [newline] @ ''KillMode=process'' @ [newline, newline]
     @ ''[Install]'' @ [newline] @ ''WantedBy=default.target'' @ [newline]"

record plan =
  pl_host_profile :: host_profile
  pl_install_service :: bool
  pl_config :: daemon_config
  pl_config_root :: path
  pl_target_configs :: "(string \<times> string) list"
  pl_certificate :: string
  pl_private_key :: string
  pl_daemon_binary :: string

text \<open>What building a plan asks for: reading a file, generating a certificate for a list of
  names, the TLS library, and the display of a volume.\<close>

record 'cfg build_env =
  be_read :: "path \<Rightarrow> (io_error, string) result"
  be_generate :: "string list \<Rightarrow> (string, string \<times> string) result"
  be_tls :: "'cfg tls_library"
  be_show_volume :: "toml_float \<Rightarrow> string"

definition resolve_source :: "path \<Rightarrow> string \<Rightarrow> path" where
  "resolve_source base source = (if is_absolute source then normal_segments source else path_join base source)"

definition certificate_names :: "string \<Rightarrow> string \<Rightarrow> string list" where
  "certificate_names node_id listen =
     [node_id, ''localhost''] @
     (case parse_socket_addr listen of
        Some address \<Rightarrow>
          if \<not> is_unspecified (sa_ip address) then [show_host (sa_ip address) 0] else []
      | None \<Rightarrow> [])"

definition generate_certificate ::
    "'cfg build_env \<Rightarrow> string \<Rightarrow> string \<Rightarrow> (deploy_error, string \<times> string) result" where
  "generate_certificate env node_id listen =
     map_err CertificateFailed (be_generate env (certificate_names node_id listen))"

definition read_input :: "'cfg build_env \<Rightarrow> path \<Rightarrow> (deploy_error, string) result" where
  "read_input env p = map_err (InputFile p) (be_read env p)"

definition generated_mpv_conf :: "'cfg build_env \<Rightarrow> answer_target \<Rightarrow> string" where
  "generated_mpv_conf env t =
     base_mpv_conf (at_start_paused t) (at_start_muted t) (be_show_volume env (at_volume t))"

definition key_material ::
    "'cfg build_env \<Rightarrow> answer_file \<Rightarrow> path \<Rightarrow> (deploy_error, string \<times> string) result" where
  "key_material env answer answer_dir =
     try_result (map_err AnswerRejected (certificate_pair answer)) (\<lambda>pair.
       case pair of
         Some (certificate, private_key) \<Rightarrow>
           try_result (read_input env (resolve_source answer_dir certificate)) (\<lambda>c.
           try_result (read_input env (resolve_source answer_dir private_key)) (\<lambda>k. Inr (c, k)))
       | None \<Rightarrow> generate_certificate env (nc_id (af_node answer)) (nc_listen (af_node answer)))"

definition planned_config :: "answer_file \<Rightarrow> daemon_config" where
  "planned_config answer =
     \<lparr>dc_node = af_node answer,
      dc_tls = \<lparr>tls_certificate = ''tls/server.crt'', tls_private_key = ''tls/server.key''\<rparr>,
      dc_targets = map (\<lambda>t. \<lparr>tc_name = at_name t, tc_disabled = at_disabled t, tc_channel = None\<rparr>)
        (af_targets answer)\<rparr>"

text \<open>\<^verbatim>\<open>Plan::build\<close>; the answer's path is absolute, its parent the directory of the answer.\<close>

definition build_plan ::
    "'cfg build_env \<Rightarrow> answer_file \<Rightarrow> path \<Rightarrow> path \<Rightarrow> string \<Rightarrow> (deploy_error, plan) result" where
  "build_plan env answer answer_path dest daemon_binary =
     try_result (parse_host_profile (af_host_profile answer)) (\<lambda>profile.
     try_result (key_material env answer (butlast answer_path)) (\<lambda>(certificate, private_key).
     try_result (map_err InvalidTlsMaterial (server_tls_config (be_tls env) certificate private_key)) (\<lambda>_.
     try_result (map_err ConfigRejected (validate_config (planned_config answer))) (\<lambda>_.
       Inr \<lparr>pl_host_profile = profile, pl_install_service = af_install answer,
            pl_config = planned_config answer, pl_config_root = dest,
            pl_target_configs = map (\<lambda>t. (at_name t, generated_mpv_conf env t)) (af_targets answer),
            pl_certificate = certificate, pl_private_key = private_key,
            pl_daemon_binary = daemon_binary\<rparr>))))"

lemma planned_config_valid:
  assumes "validate_answer answer = Inr ()"
  shows "validate_config (planned_config answer) = Inr ()"
proof -
  have "relative_below ''tls/server.crt''" and "relative_below ''tls/server.key''"
    by code_simp+
  moreover have "list_all good_target (dc_targets (planned_config answer))"
    using assms by (auto simp: validate_answer_iff planned_config_def good_answer_target_def
        good_target_def list_all_iff)
  ultimately show ?thesis
    using assms
    by (auto simp: validate_config_iff validate_answer_iff good_header_def validate_config_path_iff
        planned_config_def comp_def)
qed

lemma planned_names: "map tc_name (dc_targets (planned_config answer)) = map at_name (af_targets answer)"
  by (simp add: planned_config_def comp_def)

text \<open>
  A deployment never rejects its own configuration: for an answer that passed its check,
  the plan fails only on the host profile, the key files, the certificate generator or the
  TLS material; and a plan that is built has a configuration the daemon accepts, with the
  targets of the answer in order, and one player configuration for each of them.
\<close>

lemma plan_of_valid_answer:
  assumes "validate_answer answer = Inr ()"
  shows "case build_plan env answer answer_path dest daemon_binary of
      Inl e \<Rightarrow> (\<exists>h. e = UnsupportedHostProfile h) \<or> (\<exists>p x. e = InputFile p x) \<or>
        (\<exists>x. e = CertificateFailed x) \<or> (\<exists>x. e = InvalidTlsMaterial x)
    | Inr p \<Rightarrow> validate_config (pl_config p) = Inr () \<and>
        map tc_name (dc_targets (pl_config p)) = map at_name (af_targets answer) \<and>
        map fst (pl_target_configs p) = map at_name (af_targets answer) \<and>
        pl_config_root p = dest"
proof -
  have pair: "certificate_pair answer = Inl e \<Longrightarrow> False" for e
    using assms by (auto simp: validate_answer_iff certificate_pair_iff)
  show ?thesis
    unfolding build_plan_def planned_config_valid [OF assms]
    by (auto simp: parse_host_profile_def key_material_def generate_certificate_def read_input_def
        try_result_def map_err_def planned_config_valid [OF assms] comp_def planned_names
        dest: pair split: sum.splits prod.splits option.splits if_splits)
qed

text \<open>
  The answer file's check accepts exactly the answers with a host profile, a node id, a
  listener address, one and only one source of key material, and targets with valid,
  pairwise different names and a startup volume that is a number of at least zero.
\<close>

lemma validate_answer_spec:
  "validate_answer a = Inr () \<longleftrightarrow>
   af_host_profile a \<noteq> [] \<and> nc_id (af_node a) \<noteq> [] \<and>
   (\<exists>addr. parse_socket_addr (nc_listen (af_node a)) = Some addr) \<and>
   (if al_generate_self_signed (af_tls a)
    then al_certificate (af_tls a) = None \<and> al_private_key (af_tls a) = None
    else (\<exists>c k. al_certificate (af_tls a) = Some c \<and> al_private_key (af_tls a) = Some k \<and>
            c \<noteq> [] \<and> k \<noteq> [])) \<and>
   list_all (\<lambda>t. validate_target_name (at_name t) = Inr () \<and> (\<exists>v. at_volume t = Finite v \<and> 0 \<le> v))
     (af_targets a) \<and>
   distinct (map at_name (af_targets a))"
proof -
  have "good_answer_target = (\<lambda>t. validate_target_name (at_name t) = Inr () \<and>
      (\<exists>v. at_volume t = Finite v \<and> 0 \<le> v))"
    by (rule ext, case_tac "at_volume t") (auto simp: good_answer_target_def)
  then show ?thesis by (auto simp: validate_answer_iff tls_choice_ok_def)
qed

end
