(* ===== verification/Server.thy ===== *)
theory Server
  imports Registry
begin

text \<open>
  The request side of \<^verbatim>\<open>crates/mpv-targetsd/src/server.rs\<close>: a text frame becomes a
  request, the request an operation of the supervisor, and its outcome the one response
  that carries the id of the request. Parsing the text and decoding the value are
  parameters (theory Wire has the decoder of the protocol); the message of an error is the
  value it is formatted from.
\<close>

section \<open>Responses\<close>

datatype response_fault =
    ParseFault
  | DecodeFault
  | ValidationFault request_validation_error
  | OperationFault supervisor_error

fun error_code_of :: "supervisor_error \<Rightarrow> error_code" where
  "error_code_of (UnknownTarget _) = CodeUnknownTarget"
| "error_code_of TargetDisabled = CodeTargetDisabled"
| "error_code_of TargetAlreadyStopped = CodeTargetAlreadyStopped"
| "error_code_of TargetNotRunning = CodeTargetNotRunning"
| "error_code_of RenameRequiresStopped = CodeConfigRejected"
| "error_code_of (IpcUnavailable _) = CodeIpcLost"
| "error_code_of (MpvRejected _) = CodeMpvRejected"
| "error_code_of (LaunchError _) = CodeTargetOffline"
| "error_code_of (ConfigError _) = CodeConfigRejected"
| "error_code_of ConfigSerialization = CodeConfigRejected"
| "error_code_of (TargetExists _) = CodeConfigRejected"
| "error_code_of (ChannelExists _) = CodeConfigRejected"
| "error_code_of InvalidPlaylist = CodeMpvRejected"

section \<open>Operations\<close>

definition on_target :: "string option \<Rightarrow> (string \<Rightarrow> 'r task) \<Rightarrow> 'r task" where
  "on_target target p =
     (case target of None \<Rightarrow> Panic ''validated target operation'' | Some name \<Rightarrow> p name)"

definition power_json :: "target_record \<Rightarrow> json" where
  "power_json t = json_obj [(''online'', JBool (tr_online t)), (''stopped'', JBool (tr_stopped t))]"

definition disabled_json :: "target_record \<Rightarrow> json" where
  "disabled_json t = json_obj [(''disabled'', JBool (tr_disabled t))]"

definition added_json :: "string option \<Rightarrow> target_record \<Rightarrow> json" where
  "added_json from t = json_obj
     [(''name'', JStr (tr_name t)), (''disabled'', JBool (tr_disabled t)),
      (''online'', JBool (tr_online t)), (''stopped'', JBool (tr_stopped t)),
      (''channel'', opt_json JStr (tr_channel t)),
      (''copied'', JArr (case from of
         Some _ \<Rightarrow> [JStr ''mpv.conf'', JStr ''scripts/''] | None \<Rightarrow> [JStr ''mpv.conf'']))]"

definition answer ::
    "(supervisor_error, 'a) result task \<Rightarrow> ('a \<Rightarrow> json) \<Rightarrow> (supervisor_error, json) result task" where
  "answer p f = then_task p (\<lambda>x. Return (Inr (f x)))"

fun dispatch_operation ::
    "paths \<Rightarrow> string option \<Rightarrow> operation \<Rightarrow> (supervisor_error, json) result task" where
  "dispatch_operation pt target (TargetAdd from enabled start_paused start_muted) =
     on_target target (\<lambda>name.
       answer (add pt name from enabled start_paused start_muted) (added_json from))"
| "dispatch_operation pt target TargetStart =
     on_target target (\<lambda>name. answer (start pt name) power_json)"
| "dispatch_operation pt target TargetRemove =
     on_target target (\<lambda>name.
       answer (remove pt name) (\<lambda>_. json_obj [(''removed'', JStr name)]))"
| "dispatch_operation pt target TargetStop =
     on_target target (\<lambda>name. answer (stop name) power_json)"
| "dispatch_operation pt target TargetRestart =
     on_target target (\<lambda>name. answer (restart pt name) power_json)"
| "dispatch_operation pt target TargetEnable =
     on_target target (\<lambda>name. answer (enable pt name) disabled_json)"
| "dispatch_operation pt target TargetDisable =
     on_target target (\<lambda>name. answer (disable pt name) disabled_json)"
| "dispatch_operation pt target (TargetSetChannel channel restart_requested) =
     on_target target (\<lambda>name.
       then_task (set_channel pt name channel) (\<lambda>t.
       then_task (if restart_requested then restart pt name else Return (Inr t)) (\<lambda>t'.
         Return (Inr (json_obj
           [(''channel'', opt_json JStr channel),
            (''restart_requested'', JBool restart_requested),
            (''restart_completed'', JBool (restart_requested \<and> tr_online t'))])))))"
| "dispatch_operation pt target NodeListChannels =
     answer (list_channels pt) (\<lambda>channels. json_obj [(''channels'', JArr (map JStr channels))])"
| "dispatch_operation pt target (TargetSaveChannel channel overwrite) =
     on_target target (\<lambda>name.
       answer (save_channel pt name channel overwrite) (\<lambda>items. json_obj
         [(''channel'', JStr channel), (''items'', JNum (PosInt (word_of_nat items)))]))"
| "dispatch_operation pt target (TargetRename replacement) =
     on_target target (\<lambda>name.
       answer (rename pt name replacement) (\<lambda>t. json_obj
         [(''from'', JStr name), (''to'', JStr (tr_name t))]))"
| "dispatch_operation pt target (Mpv command args) =
     on_target target (\<lambda>name. mpv_command name command args)"

section \<open>Requests\<close>

definition request_id_of :: "json \<Rightarrow> string" where
  "request_id_of v =
     (case json_get v ''id'' of
        None \<Rightarrow> [] | Some i \<Rightarrow> (case as_str i of None \<Rightarrow> [] | Some s \<Rightarrow> s))"

definition outcome_response :: "string \<Rightarrow> (supervisor_error, json) result \<Rightarrow> response_fault response" where
  "outcome_response i r =
     (case r of Inr data \<Rightarrow> Success i data | Inl e \<Rightarrow> Failure i (error_code_of e) (OperationFault e))"

definition handle_request :: "paths \<Rightarrow> request \<Rightarrow> response_fault response task" where
  "handle_request pt r =
     (case validate_request r of
        Inl e \<Rightarrow> Return (Failure (rq_id r) CodeInvalidRequest (ValidationFault e))
      | Inr _ \<Rightarrow>
          bind_task (dispatch_operation pt (rq_target r) (rq_operation r))
            (\<lambda>outcome. Return (outcome_response (rq_id r) outcome)))"

definition dispatch_request ::
    "(string \<Rightarrow> json option) \<Rightarrow> (json \<Rightarrow> request option) \<Rightarrow> paths \<Rightarrow> string \<Rightarrow>
     response_fault response task" where
  "dispatch_request parse decode pt source =
     (case parse source of
        None \<Rightarrow> Return (Failure [] CodeInvalidRequest ParseFault)
      | Some v \<Rightarrow>
          (case decode v of
             None \<Rightarrow> Return (Failure (request_id_of v) CodeInvalidRequest DecodeFault)
           | Some r \<Rightarrow> handle_request pt r))"

end
