(* ===== verification/Replication.thy ===== *)
theory Replication
  imports Registry ClientCache
begin

text \<open>
  The events of the daemon and the cache of the client agree: what each critical section
  publishes, applied by the client to the record of the target before the section, gives
  the record after it.
\<close>

section \<open>Health\<close>

lemma expected_count_snapshot: "h_expected (sn_health (snapshot_from i)) = expected_count (sn_targets (snapshot_from i))"
  by (simp add: snapshot_from_def expected_count_def Let_def)

lemma refresh_health_snapshot: "refresh_health (snapshot_from i) = snapshot_from i"
  by (simp add: refresh_health_def snapshot_from_def expected_count_def online_count_def Let_def)

lemma refresh_health_targets:
  "refresh_health (snapshot_from i\<lparr>sn_targets := sn_targets (snapshot_from i')\<rparr>) =
   snapshot_from i'" if "nc_id (dc_node (in_config i)) = nc_id (dc_node (in_config i'))"
  using that
  by (simp add: refresh_health_def snapshot_from_def expected_count_def online_count_def Let_def)

section \<open>Records of the targets\<close>

lemma sn_targets_snapshot:
  "sn_targets (snapshot_from i) = map (\<lambda>(name, target). record_of name target) (in_targets i)"
  by (simp add: snapshot_from_def Let_def)

lemma find_record:
  "find (\<lambda>t. tr_name t = name) (map (\<lambda>(n, t). record_of n t) m) =
   map_option (record_of name) (bt_get m name)"
  unfolding bt_get_def by (induction m) (auto simp: record_of_def)

lemma update_record_modify:
  "bt_wf m \<Longrightarrow> bt_get m name = Some t \<Longrightarrow>
   update_record name (record_of name t') (map (\<lambda>(n, t). record_of n t) m) =
   map (\<lambda>(n, t). record_of n t) (bt_modify name (\<lambda>_. t') m)"
proof (induction m)
  case Nil
  then show ?case by simp
next
  case (Cons p m)
  obtain n u where p: "p = (n, u)" by fastforce
  show ?case
  proof (cases "n = name")
    case True
    with Cons.prems p have "bt_get m name = None"
      by (auto simp: bt_wf_def bt_get_def map_of_eq_None_iff)
    with True p show ?thesis
      using bt_modify_id [of m name "\<lambda>_. t'"] by (simp add: bt_modify_def record_of_def)
  next
    case False
    with Cons p show ?thesis
      by (auto simp: bt_wf_def bt_get_def bt_modify_def record_of_def)
  qed
qed

section \<open>Matching changes\<close>

definition change_matches :: "string \<Rightarrow> runtime_target \<Rightarrow> event \<Rightarrow> runtime_target \<Rightarrow> bool" where
  "change_matches name t e t' \<longleftrightarrow>
     rt_revision t' = rt_revision t + 1 \<and>
     (\<exists>members r. e = changed_event name (rt_revision t') (JObj members) \<and>
        apply_fields (record_of name t) members = Inr r \<and>
        r\<lparr>tr_revision := rt_revision t'\<rparr> = record_of name t')"

lemma change_matches_apply:
  assumes "bt_wf (in_targets i)" and "bt_get (in_targets i) name = Some t"
    and "change_matches name t e t'"
  shows "apply_event (Some (snapshot_from i)) e =
    Inr (snapshot_from (i\<lparr>in_targets := bt_modify name (\<lambda>_. t') (in_targets i)\<rparr>))"
proof -
  obtain members r where e: "e = changed_event name (rt_revision t') (JObj members)"
    and rev: "rt_revision t' = rt_revision t + 1"
    and app: "apply_fields (record_of name t) members = Inr r"
    and r: "r\<lparr>tr_revision := rt_revision t'\<rparr> = record_of name t'"
    using assms(3) by (auto simp: change_matches_def)
  let ?i = "i\<lparr>in_targets := bt_modify name (\<lambda>_. t') (in_targets i)\<rparr>"
  have "update_record name (record_of name t') (sn_targets (snapshot_from i)) =
    sn_targets (snapshot_from ?i)"
    using assms(1,2) by (simp add: sn_targets_snapshot update_record_modify)
  moreover have "find (\<lambda>t. tr_name t = name) (sn_targets (snapshot_from i)) =
    Some (record_of name t)"
    using assms(2) by (simp add: sn_targets_snapshot find_record)
  moreover have "tr_revision (record_of name t) = rt_revision t"
    by (simp add: record_of_def)
  ultimately show ?thesis
    using refresh_health_targets [of i ?i]
    by (simp add: e apply_event_def apply_target_change_def changed_event_def rev app
        r [unfolded rev])
qed

text \<open>A body reports what it does: it publishes nothing and the record stays, or it
  publishes one change that matches.\<close>

definition reports :: "string \<Rightarrow> 'a target_body \<Rightarrow> bool" where
  "reports name f \<longleftrightarrow> (\<forall>t a t' es. f t = (a, t', es) \<longrightarrow>
     rt_config t' = rt_config t \<and>
     (es = [] \<and> record_of name t' = record_of name t \<or>
      (\<exists>e. es = [e] \<and> change_matches name t e t')))"

definition defers :: "string \<Rightarrow> event option target_body \<Rightarrow> bool" where
  "defers name f \<longleftrightarrow> (\<forall>t a t' es. f t = (a, t', es) \<longrightarrow>
     rt_config t' = rt_config t \<and> es = [] \<and>
     (case a of None \<Rightarrow> record_of name t' = record_of name t
      | Some e \<Rightarrow> change_matches name t e t'))"

lemma change_matchesI:
  assumes "rt_revision t' = rt_revision t + 1"
    and "rt_revision u = rt_revision t'"
    and "apply_fields (record_of name t) (bt_of_list members) = Inr r"
    and "r\<lparr>tr_revision := rt_revision t'\<rparr> = record_of name t'"
  shows "change_matches name t (publish name members u) t'"
  using assms by (auto simp: change_matches_def publish_def json_obj_def)

lemma bt_of_list_single [simp]: "bt_of_list [(k, v)] = [(k, v)]"
  by (simp add: bt_of_list_def)

lemma lifecycle_fields [simp]:
  "apply_field t ''stopped'' (JBool b) = Inr (t\<lparr>tr_stopped := b\<rparr>)"
  "apply_field t ''online'' (JBool b) = Inr (t\<lparr>tr_online := b\<rparr>)"
  "apply_field t ''disabled'' (JBool b) = Inr (t\<lparr>tr_disabled := b\<rparr>)"
  "apply_field t ''channel'' (opt_json JStr c) = Inr (t\<lparr>tr_channel := c\<rparr>)"
  by (cases c; simp add: apply_field_def put_def required_bool_def optional_string_def opt_json_def)+

lemma stopped_online_members:
  "bt_of_list [(''stopped'', a), (''online'', b)] = [(''online'', b), (''stopped'', a)]"
  by (simp add: bt_of_list_def)

lemma start_body_reports: "reports name (start_body name)"
  unfolding reports_def start_body_def bump_def
  by (auto simp: Let_def record_of_def intro!: change_matchesI split: if_splits)

lemma stop_body_reports: "reports name (stop_body name)"
  unfolding reports_def stop_body_def bump_def
  by (auto simp: Let_def record_of_def intro!: change_matchesI split: if_splits)

lemma lost_body_reports: "reports name (lost_body name)"
  unfolding reports_def lost_body_def bump_def
  by (auto simp: Let_def record_of_def intro!: change_matchesI split: if_splits)

lemma recovery_body_reports: "reports name recovery_body"
  unfolding reports_def recovery_body_def by (auto simp: record_of_def split: if_splits)

lemma still_expected_body_reports: "reports name still_expected_body"
  unfolding reports_def still_expected_body_def by (auto simp: record_of_def split: if_splits)

lemma mark_online_body_reports: "reports name (mark_online_body name)"
  unfolding reports_def mark_online_body_def bump_def
  by (auto simp: Let_def record_of_def intro!: change_matchesI split: if_splits)

lemma mark_offline_body_reports: "reports name (mark_offline_body name)"
  unfolding reports_def mark_offline_body_def bump_def
  by (auto simp: Let_def record_of_def intro!: change_matchesI split: if_splits)

lemma clear_launching_body_reports: "reports name clear_launching_body"
  unfolding reports_def clear_launching_body_def by (auto simp: record_of_def)

lemma disabled_off_body_reports: "reports name (disabled_off_body name)"
  unfolding reports_def disabled_off_body_def bump_def
  by (auto simp: Let_def record_of_def stopped_online_members intro!: change_matchesI
      split: if_splits)

section \<open>Observed properties\<close>

text \<open>What the daemon's parser of a property accepts, the client's decoder reads as the
  same value.\<close>

lemma set_observed_True:
  "set_observed slot write s next = Some (s', True) \<longleftrightarrow>
   (\<exists>v. next = Some v \<and> slot s \<noteq> v \<and> s' = write v)"
  by (auto simp: set_observed_def split: option.splits if_splits)

lemma optional_Some:
  "optional parse v = Some x \<longleftrightarrow> v = JNull \<and> x = None \<or>
   v \<noteq> JNull \<and> (\<exists>y. parse v = Some y \<and> x = Some y)"
  by (auto simp: optional_def)

lemma optional_bool_agrees: "optional as_bool v = Some x \<Longrightarrow> optional_bool f v = Inr x"
  by (auto simp: optional_Some optional_bool_def required_bool_def)

lemma optional_number_agrees: "optional as_f64 v = Some x \<Longrightarrow> optional_number f v = Inr x"
  by (auto simp: optional_Some optional_number_def)

lemma optional_string_agrees: "optional as_str v = Some x \<Longrightarrow> optional_string f v = Inr x"
  by (auto simp: optional_Some optional_string_def)

lemma optional_track_agrees: "optional parse_track v = Some x \<Longrightarrow> optional_track f v = Inr x"
  by (auto simp: optional_Some optional_track_def parse_track_def split: option.splits)

lemma optional_index_agrees:
  "optional parse_index v = Some x \<Longrightarrow> json_wf v \<Longrightarrow> optional_u32 f v = Inr x"
  using u32_index_agree [of v]
  by (fastforce simp: optional_Some optional_u32_def parse_index_def split: option.splits)

definition loop_normal :: "json \<Rightarrow> bool" where
  "loop_normal v \<longleftrightarrow> (loop_state v \<noteq> None \<longrightarrow> v = JStr ''on'' \<or> v = JStr ''off'')"

lemma loop_state_fixed:
  "loop_state (JStr ''on'') = Some ''on''" "loop_state (JStr ''off'') = Some ''off''"
  by (simp_all add: on_off_def)

lemma optional_loop_agrees:
  "optional loop_state v = Some x \<Longrightarrow> loop_normal v \<Longrightarrow> optional_string f v = Inr x"
  by (auto simp: optional_Some optional_string_def loop_normal_def loop_state_fixed
      simp del: loop_state.simps)

lemmas decoders_agree =
  optional_bool_agrees optional_number_agrees optional_string_agrees optional_track_agrees
  optional_index_agrees optional_loop_agrees

lemma apply_state_field:
  "apply_field r ''paused'' v =
     put (optional_bool ''paused'' v) (\<lambda>x. r\<lparr>tr_state := (tr_state r)\<lparr>ts_paused := x\<rparr>\<rparr>)"
  "apply_field r ''muted'' v =
     put (optional_bool ''muted'' v) (\<lambda>x. r\<lparr>tr_state := (tr_state r)\<lparr>ts_muted := x\<rparr>\<rparr>)"
  "apply_field r ''volume'' v =
     put (optional_number ''volume'' v) (\<lambda>x. r\<lparr>tr_state := (tr_state r)\<lparr>ts_volume := x\<rparr>\<rparr>)"
  "apply_field r ''title'' v =
     put (optional_string ''title'' v) (\<lambda>x. r\<lparr>tr_state := (tr_state r)\<lparr>ts_title := x\<rparr>\<rparr>)"
  "apply_field r ''playlist_position'' v =
     put (optional_u32 ''playlist_position'' v) (\<lambda>x. r\<lparr>tr_state := (tr_state r)\<lparr>ts_playlist_position := x\<rparr>\<rparr>)"
  "apply_field r ''playlist_count'' v =
     put (optional_u32 ''playlist_count'' v) (\<lambda>x. r\<lparr>tr_state := (tr_state r)\<lparr>ts_playlist_count := x\<rparr>\<rparr>)"
  "apply_field r ''idle_active'' v =
     put (optional_bool ''idle_active'' v) (\<lambda>x. r\<lparr>tr_state := (tr_state r)\<lparr>ts_idle_active := x\<rparr>\<rparr>)"
  "apply_field r ''duration'' v =
     put (optional_number ''duration'' v) (\<lambda>x. r\<lparr>tr_state := (tr_state r)\<lparr>ts_duration := x\<rparr>\<rparr>)"
  "apply_field r ''position'' v =
     put (optional_number ''position'' v) (\<lambda>x. r\<lparr>tr_state := (tr_state r)\<lparr>ts_position := x\<rparr>\<rparr>)"
  "apply_field r ''loop_file'' v =
     put (optional_string ''loop_file'' v) (\<lambda>x. r\<lparr>tr_state := (tr_state r)\<lparr>ts_loop_file := x\<rparr>\<rparr>)"
  "apply_field r ''loop_playlist'' v =
     put (optional_string ''loop_playlist'' v) (\<lambda>x. r\<lparr>tr_state := (tr_state r)\<lparr>ts_loop_playlist := x\<rparr>\<rparr>)"
  "apply_field r ''audio_track'' v =
     put (optional_track ''audio_track'' v) (\<lambda>x. r\<lparr>tr_state := (tr_state r)\<lparr>ts_audio_track := x\<rparr>\<rparr>)"
  "apply_field r ''subtitle_track'' v =
     put (optional_track ''subtitle_track'' v) (\<lambda>x. r\<lparr>tr_state := (tr_state r)\<lparr>ts_subtitle_track := x\<rparr>\<rparr>)"
  "apply_field r ''subtitles_visible'' v =
     put (optional_bool ''subtitles_visible'' v) (\<lambda>x. r\<lparr>tr_state := (tr_state r)\<lparr>ts_subtitles_visible := x\<rparr>\<rparr>)"
  "apply_field r ''last_end_reason'' v =
     put (optional_end_reason ''last_end_reason'' v) (\<lambda>x. r\<lparr>tr_state := (tr_state r)\<lparr>ts_last_end_reason := x\<rparr>\<rparr>)"
  "apply_field r ''last_end_error'' v =
     put (optional_string ''last_end_error'' v) (\<lambda>x. r\<lparr>tr_state := (tr_state r)\<lparr>ts_last_end_error := x\<rparr>\<rparr>)"
  by (simp_all add: apply_field_def Let_def)

lemma observed_change_field:
  "observed_change s ''paused'' v =
     set_observed ts_paused (\<lambda>x. s\<lparr>ts_paused := x\<rparr>) s (optional as_bool v)"
  "observed_change s ''muted'' v =
     set_observed ts_muted (\<lambda>x. s\<lparr>ts_muted := x\<rparr>) s (optional as_bool v)"
  "observed_change s ''volume'' v =
     set_observed ts_volume (\<lambda>x. s\<lparr>ts_volume := x\<rparr>) s (optional as_f64 v)"
  "observed_change s ''title'' v =
     set_observed ts_title (\<lambda>x. s\<lparr>ts_title := x\<rparr>) s (optional as_str v)"
  "observed_change s ''playlist_position'' v =
     set_observed ts_playlist_position (\<lambda>x. s\<lparr>ts_playlist_position := x\<rparr>) s (optional parse_index v)"
  "observed_change s ''playlist_count'' v =
     set_observed ts_playlist_count (\<lambda>x. s\<lparr>ts_playlist_count := x\<rparr>) s (optional parse_index v)"
  "observed_change s ''idle_active'' v =
     set_observed ts_idle_active (\<lambda>x. s\<lparr>ts_idle_active := x\<rparr>) s (optional as_bool v)"
  "observed_change s ''duration'' v =
     set_observed ts_duration (\<lambda>x. s\<lparr>ts_duration := x\<rparr>) s (optional as_f64 v)"
  "observed_change s ''position'' v =
     set_observed ts_position (\<lambda>x. s\<lparr>ts_position := x\<rparr>) s (optional as_f64 v)"
  "observed_change s ''loop_file'' v =
     set_observed ts_loop_file (\<lambda>x. s\<lparr>ts_loop_file := x\<rparr>) s (optional loop_state v)"
  "observed_change s ''loop_playlist'' v =
     set_observed ts_loop_playlist (\<lambda>x. s\<lparr>ts_loop_playlist := x\<rparr>) s (optional loop_state v)"
  "observed_change s ''audio_track'' v =
     set_observed ts_audio_track (\<lambda>x. s\<lparr>ts_audio_track := x\<rparr>) s (optional parse_track v)"
  "observed_change s ''subtitle_track'' v =
     set_observed ts_subtitle_track (\<lambda>x. s\<lparr>ts_subtitle_track := x\<rparr>) s (optional parse_track v)"
  "observed_change s ''subtitles_visible'' v =
     set_observed ts_subtitles_visible (\<lambda>x. s\<lparr>ts_subtitles_visible := x\<rparr>) s (optional as_bool v)"
  by (simp_all add: observed_change_def)

lemma observed_change_fields:
  "observed_change s field v \<noteq> None \<Longrightarrow> field \<in> snd ` set observed_properties"
  by (rule ccontr) (simp add: observed_change_def observed_properties_def)

lemma observed_agrees:
  assumes "observed_change (tr_state r) field v = Some (s', True)"
    and "json_wf v" and "field \<in> {''loop_file'', ''loop_playlist''} \<Longrightarrow> loop_normal v"
  shows "apply_field r field v = Inr (r\<lparr>tr_state := s'\<rparr>)"
proof -
  have "field \<in> snd ` set observed_properties"
    using observed_change_fields [of "tr_state r" field v] assms(1) by simp
  then show ?thesis
    using assms unfolding observed_properties_def
    by (elim imageE)
      (auto simp: observed_change_field apply_state_field set_observed_True put_def decoders_agree)
qed

lemma loop_state_on_off: "loop_state v = Some x \<Longrightarrow> x = ''on'' \<or> x = ''off''"
  by (cases v) (auto simp: on_off_def split: option.splits if_splits)

lemma normalize_loop_normal:
  "field \<in> {''loop_file'', ''loop_playlist''} \<Longrightarrow> loop_normal (normalize_observed_value field v)"
  using loop_state_on_off [of v]
  by (auto simp: normalize_observed_value_def loop_normal_def split: option.splits)

lemma normalize_wf: "json_wf v \<Longrightarrow> json_wf (normalize_observed_value field v)"
  by (auto simp: normalize_observed_value_def json_f64_def split: option.splits)

lemma observed_change_False: "observed_change s field v = Some (s', False) \<Longrightarrow> s' = s"
  unfolding observed_change_def
  by (auto simp: set_observed_def split: option.splits if_splits)

lemma observed_body_reports:
  assumes "json_wf v"
  shows "reports name (observed_body name field (normalize_observed_value field v))"
proof -
  let ?v = "normalize_observed_value field v"
  have "change_matches name t (publish name [(field, ?v)] (bump (t\<lparr>rt_observed := s'\<rparr>)))
      (bump (t\<lparr>rt_observed := s'\<rparr>))"
    if "observed_change (rt_observed t) field ?v = Some (s', True)" for t s'
    using observed_agrees [of "record_of name t" field ?v s'] that
      normalize_wf [OF assms] normalize_loop_normal
    by (intro change_matchesI) (auto simp: record_of_def bump_def)
  then show ?thesis
    using observed_change_False
    unfolding reports_def observed_body_def apply_observed_update_def
    by (auto simp: Let_def split: option.splits if_splits simp: bump_def)
qed

section \<open>Deferred events\<close>

definition clear_state_field :: "string \<Rightarrow> target_record \<Rightarrow> target_record" where
  "clear_state_field k r =
     (case apply_field r k JNull of Inl _ \<Rightarrow> r | Inr r' \<Rightarrow> r')"

definition state_keys :: "string list" where
  "state_keys = map fst (target_state_fields default_target_state)"

lemma map_fst_state_fields: "map fst (target_state_fields s) = state_keys"
  by (simp add: state_keys_def target_state_fields_def)

lemma state_keys_eq:
  "state_keys = [''paused'', ''muted'', ''volume'', ''title'', ''playlist_position'',
     ''playlist_count'', ''idle_active'', ''duration'', ''position'', ''loop_file'',
     ''loop_playlist'', ''audio_track'', ''subtitle_track'', ''subtitles_visible'',
     ''last_end_reason'', ''last_end_error'']"
  by (simp add: state_keys_def target_state_fields_def)

lemma distinct_state_keys: "distinct state_keys"
  by (simp add: state_keys_eq)

lemma optional_null [simp]:
  "optional_bool f JNull = Inr None" "optional_number f JNull = Inr None"
  "optional_u32 f JNull = Inr None" "optional_string f JNull = Inr None"
  "optional_track f JNull = Inr None" "optional_end_reason f JNull = Inr None"
  by (simp_all add: optional_bool_def optional_number_def optional_u32_def optional_string_def
      optional_track_def optional_end_reason_def)

lemma state_keys_cases:
  assumes "k \<in> set state_keys"
  obtains "k = ''paused''" | "k = ''muted''" | "k = ''volume''" | "k = ''title''"
    | "k = ''playlist_position''" | "k = ''playlist_count''" | "k = ''idle_active''"
    | "k = ''duration''" | "k = ''position''" | "k = ''loop_file''" | "k = ''loop_playlist''"
    | "k = ''audio_track''" | "k = ''subtitle_track''" | "k = ''subtitles_visible''"
    | "k = ''last_end_reason''" | "k = ''last_end_error''"
  using assms unfolding state_keys_eq list.set insert_iff empty_iff
  by (elim disjE FalseE) (rule that, assumption)+

lemma apply_state_null:
  assumes "k \<in> set state_keys"
  shows "apply_field r k JNull = Inr (clear_state_field k r)"
  using assms by (cases rule: state_keys_cases)
    (simp_all only: clear_state_field_def apply_state_field put_def optional_null
      try_result_simps sum.case)

lemma clear_state_frame:
  assumes "k \<in> set state_keys"
  shows "clear_state_field k r = r\<lparr>tr_state := tr_state (clear_state_field k r)\<rparr>"
  using assms by (cases rule: state_keys_cases)
    (simp_all add: clear_state_field_def apply_state_field put_def)

lemma clear_state_fields:
  assumes "k \<in> set state_keys"
  shows "target_state_fields (tr_state (clear_state_field k r)) =
      map (\<lambda>(j, v). (j, if j = k then JNull else v)) (target_state_fields (tr_state r))"
  using assms by (cases rule: state_keys_cases)
    (simp_all add: clear_state_field_def apply_state_field put_def target_state_fields_def
      opt_json_def)

lemma clear_fields:
  "set ks \<subseteq> set state_keys \<Longrightarrow>
   \<exists>s. apply_fields r (map (\<lambda>k. (k, JNull)) ks) = Inr (r\<lparr>tr_state := s\<rparr>) \<and>
     target_state_fields s =
       map (\<lambda>(j, v). (j, if j \<in> set ks then JNull else v)) (target_state_fields (tr_state r))"
proof (induction ks arbitrary: r)
  case Nil
  show ?case by (intro exI [of _ "tr_state r"]) (simp add: case_prod_beta)
next
  case (Cons k ks)
  let ?r = "clear_state_field k r"
  have "set ks \<subseteq> set state_keys" using Cons.prems by simp
  from Cons.IH [OF this, of ?r] obtain s where
    s: "apply_fields ?r (map (\<lambda>k. (k, JNull)) ks) = Inr (?r\<lparr>tr_state := s\<rparr>)"
      "target_state_fields s =
        map (\<lambda>(j, v). (j, if j \<in> set ks then JNull else v)) (target_state_fields (tr_state ?r))"
    by blast
  have k: "k \<in> set state_keys" using Cons.prems by simp
  have "?r\<lparr>tr_state := s\<rparr> = r\<lparr>tr_state := s\<rparr>"
    by (subst clear_state_frame [OF k]) simp
  with s show ?case
    by (intro exI [of _ s]) (auto simp: apply_state_null [OF k] clear_state_fields [OF k])
qed

lemma opt_json_null:
  "opt_json JBool x = JNull \<longleftrightarrow> x = None" "opt_json JStr y = JNull \<longleftrightarrow> y = None"
  "opt_json json_f64 z = JNull \<longleftrightarrow> z = None" "opt_json json_u32 w = JNull \<longleftrightarrow> w = None"
  "opt_json end_reason_json e = JNull \<longleftrightarrow> e = None"
  by (auto simp: opt_json_def json_u32_def json_f64_def end_reason_json_def split: option.splits)

lemma fields_null_default:
  "list_all (\<lambda>(k, v). v = JNull) (target_state_fields s) \<Longrightarrow> s = default_target_state"
  by (cases s) (simp add: target_state_fields_def default_target_state_def opt_json_null)

lemma state_json_members: "set (target_state_json s) = set (target_state_fields s)"
proof -
  let ?fs = "target_state_fields s" and ?m = "target_state_json s"
  have d: "distinct (map fst ?fs)" by (simp add: map_fst_state_fields distinct_state_keys)
  have "map_of ?m = map_of ?fs"
  proof
    fix k
    have "map_of (rev ?fs) k = map_of ?fs k" using d by (simp add: map_of_rev_distinct)
    then show "map_of ?m k = map_of ?fs k"
      using bt_get_of_list [of ?fs k] by (simp add: target_state_json_def bt_get_def)
  qed
  moreover have "distinct (map fst ?m)"
    using bt_wf_of_list [of ?fs] by (simp add: target_state_json_def bt_wf_def strict_sorted_iff)
  ultimately show ?thesis using d by (simp add: map_of_inject_set)
qed

lemma set_bt_insert_subset: "set (bt_insert k v m) \<subseteq> insert (k, v) (set m)"
  by (induction k v m rule: bt_insert.induct) auto

lemma set_bt_of_list_subset: "set (bt_of_list ps) \<subseteq> set ps"
proof -
  have "set (fold (\<lambda>(k, v) m. bt_insert k v m) ps m) \<subseteq> set m \<union> set ps" for m
  proof (induction ps arbitrary: m)
    case (Cons p ps)
    obtain k v where p: "p = (k, v)" by fastforce
    show ?case
      using Cons.IH [of "bt_insert k v m"] set_bt_insert_subset [of k v m] p by auto
  qed simp
  from this [of "[]"] show ?thesis by (simp add: bt_of_list_def)
qed

lemma keys_bt_of_list: "fst ` set (bt_of_list ps) = fst ` set ps"
proof -
  have "k \<in> fst ` set (bt_of_list ps) \<longleftrightarrow> k \<in> fst ` set ps" for k
    using bt_get_of_list [of ps k] map_of_eq_None_iff [of "rev ps" k]
      map_of_eq_None_iff [of "bt_of_list ps" k] by (auto simp: bt_get_def)
  then show ?thesis by blast
qed

lemma clear_observed_fields:
  "apply_fields r (bt_of_list (non_null_members (target_state_json (tr_state r)))) =
   Inr (r\<lparr>tr_state := default_target_state\<rparr>)"
proof -
  let ?m = "bt_of_list (non_null_members (target_state_json (tr_state r)))"
  let ?ks = "map fst ?m"
  have "snd p = JNull" if "p \<in> set ?m" for p
    using subsetD [OF set_bt_of_list_subset that] by (auto simp: non_null_members_def)
  then have "map (\<lambda>p. (fst p, JNull)) ?m = ?m"
    by (intro map_idI) (metis prod.collapse)
  then have m: "?m = map (\<lambda>k. (k, JNull)) ?ks" by (simp add: comp_def)
  have ks: "k \<in> fst ` set ?m \<longleftrightarrow> (\<exists>v. (k, v) \<in> set (target_state_fields (tr_state r)) \<and> v \<noteq> JNull)" for k
    by (simp add: keys_bt_of_list) (force simp: non_null_members_def state_json_members)
  have "set ?ks \<subseteq> set state_keys"
    by (force simp: ks simp flip: map_fst_state_fields [of "tr_state r"])
  then obtain s where s: "apply_fields r (map (\<lambda>k. (k, JNull)) ?ks) = Inr (r\<lparr>tr_state := s\<rparr>)"
    "target_state_fields s =
       map (\<lambda>(j, v). (j, if j \<in> set ?ks then JNull else v)) (target_state_fields (tr_state r))"
    using clear_fields by blast
  have "s = default_target_state"
    unfolding s(2) by (rule fields_null_default) (auto simp: list_all_iff s(2) ks)
  with s(1) m show ?thesis by simp
qed

lemma clear_observed_body_defers: "defers name (clear_observed_body name)"
proof -
  have "change_matches name t
     (publish name (non_null_members (target_state_json (rt_observed t)))
       (bump (t\<lparr>rt_observed := default_target_state\<rparr>)))
     (bump (t\<lparr>rt_observed := default_target_state\<rparr>))" for t
    using clear_observed_fields [of "record_of name t"]
    by (intro change_matchesI) (auto simp: record_of_def bump_def)
  then show ?thesis
    by (auto simp: defers_def clear_observed_body_def Let_def bump_def)
qed

lemma end_reason_round: "end_reason_of_json (end_reason_json r) = Some r"
  by (cases r) (simp_all add: end_reason_json_def end_reason_of_name_def)

lemma end_reason_json_null: "end_reason_json r \<noteq> JNull"
  by (simp add: end_reason_json_def)

lemma end_members:
  "bt_of_list [(''last_end_reason'', a), (''last_end_error'', b)] =
   [(''last_end_error'', b), (''last_end_reason'', a)]"
  by (simp add: bt_of_list_def)

lemma end_fields:
  "apply_field r ''last_end_reason'' (end_reason_json x) =
     Inr (r\<lparr>tr_state := (tr_state r)\<lparr>ts_last_end_reason := Some x\<rparr>\<rparr>)"
  "apply_field r ''last_end_error'' (opt_json JStr e) =
     Inr (r\<lparr>tr_state := (tr_state r)\<lparr>ts_last_end_error := e\<rparr>\<rparr>)"
  by (simp_all add: apply_state_field put_def optional_end_reason_def end_reason_round
      end_reason_json_null) (cases e; simp add: optional_string_def opt_json_def)

lemma media_end_body_defers: "defers name (media_end_body name reason error)"
proof -
  have "change_matches name t (publish name
       [(''last_end_reason'', end_reason_json reason), (''last_end_error'', opt_json JStr error)]
       (bump (t\<lparr>rt_observed := (rt_observed t)
          \<lparr>ts_last_end_reason := Some reason, ts_last_end_error := error\<rparr>\<rparr>)))
     (bump (t\<lparr>rt_observed := (rt_observed t)
          \<lparr>ts_last_end_reason := Some reason, ts_last_end_error := error\<rparr>\<rparr>))" for t
    by (rule change_matchesI) (auto simp: end_members end_fields record_of_def bump_def)
  then show ?thesis
    by (auto simp: defers_def media_end_body_def Let_def bump_def)
qed

lemma clear_media_end_body_defers: "defers name (clear_media_end_body name)"
proof -
  have "change_matches name t
     (publish name [(''last_end_reason'', JNull), (''last_end_error'', JNull)]
       (bump (t\<lparr>rt_observed := (rt_observed t)
          \<lparr>ts_last_end_reason := None, ts_last_end_error := None\<rparr>\<rparr>)))
     (bump (t\<lparr>rt_observed := (rt_observed t)
          \<lparr>ts_last_end_reason := None, ts_last_end_error := None\<rparr>\<rparr>))" for t
    by (rule change_matchesI)
      (auto simp: end_members apply_state_field put_def record_of_def bump_def)
  then show ?thesis
    by (auto simp: defers_def clear_media_end_body_def Let_def bump_def)
qed

end
