(* ===== verification/Contracts.thy ===== *)
theory Contracts
  imports Server Replication
begin

text \<open>
  What a task may rely on and must keep while it is interleaved with others. Taking the
  inner lock gives any state that satisfies the invariant of the registry; releasing it
  must restore the invariant, may change the configured targets only under the mutation
  lock, and must have published the change of the record, or owe one event for it.
\<close>

section \<open>The invariant of the registry\<close>

text \<open>The configured targets and the runtime targets are the same, name by name.\<close>

definition consistent :: "inner \<Rightarrow> bool" where
  "consistent i \<longleftrightarrow>
     (\<forall>name. map_option rt_config (bt_get (in_targets i) name) =
        find (\<lambda>t. tc_name t = name) (dc_targets (in_config i)))"

definition registry_ok :: "inner \<Rightarrow> bool" where
  "registry_ok i \<longleftrightarrow>
     bt_wf (in_targets i) \<and> validate_config (in_config i) = Inr () \<and> consistent i"

text \<open>The part of the state that only the holder of the mutation lock changes.\<close>

definition core :: "inner \<Rightarrow> daemon_config \<times> (string \<times> target_config) list" where
  "core i = (in_config i, map (\<lambda>(n, t). (n, rt_config t)) (in_targets i))"

type_synonym core = "daemon_config \<times> (string \<times> target_config) list"

lemma core_targets:
  assumes "core i = core j"
  shows "in_config i = in_config j"
    and "map_option rt_config (bt_get (in_targets i) n) = map_option rt_config (bt_get (in_targets j) n)"
    and "bt_keys (in_targets i) = bt_keys (in_targets j)"
proof -
  have "map_of (map (\<lambda>(n, t). (n, rt_config t)) m) n = map_option rt_config (bt_get m n)" for m
    by (simp add: bt_get_def map_of_map)
  then show "map_option rt_config (bt_get (in_targets i) n) = map_option rt_config (bt_get (in_targets j) n)"
    using assms by (metis core_def prod.inject)
  have "bt_keys m = map fst (map (\<lambda>(n, t). (n, rt_config t)) m)" for m :: "(string, runtime_target) btree"
    by (auto simp: bt_keys_def)
  then show "bt_keys (in_targets i) = bt_keys (in_targets j)"
    using assms by (metis core_def prod.inject)
  show "in_config i = in_config j" using assms by (simp add: core_def)
qed

lemma core_known:
  "core i = core j \<Longrightarrow> bt_get (in_targets i) n = None \<longleftrightarrow> bt_get (in_targets j) n = None"
  using core_targets(2) [of i j n] by (metis option.map_disc_iff)

section \<open>Following the log of events\<close>

text \<open>
  The interface between a publisher and a follower: the follower starts from a view of the
  publisher's state and applies what is published.
\<close>

locale event_log =
  fixes view :: "'s \<Rightarrow> 'v"
    and absorb :: "'v option \<Rightarrow> 'e list \<Rightarrow> ('x, 'v option) result"
  assumes absorb_nil: "absorb v [] = Inr v"
    and absorb_append: "absorb v (es @ fs) = try_result (absorb v es) (\<lambda>w. absorb w fs)"
begin

definition follows :: "'s \<Rightarrow> 'e list \<Rightarrow> 's \<Rightarrow> bool" where
  "follows s es t \<longleftrightarrow> absorb (Some (view s)) es = Inr (Some (view t))"

lemma follows_refl: "follows s [] s"
  by (simp add: follows_def absorb_nil)

lemma follows_trans: "follows s es t \<Longrightarrow> follows t fs u \<Longrightarrow> follows s (es @ fs) u"
  by (simp add: follows_def absorb_append)

lemma follows_view: "view t = view u \<Longrightarrow> follows s es t \<longleftrightarrow> follows s es u"
  by (simp add: follows_def)

lemma follows_late: "follows s es t \<Longrightarrow> follows s (es @ fs) u \<Longrightarrow> follows t fs u"
  by (simp add: follows_def absorb_append)

end

interpretation ev: event_log snapshot_from apply_events
proof
  show "apply_events v [] = Inr v" for v by simp
  show "apply_events v (es @ fs) = try_result (apply_events v es) (\<lambda>w. apply_events w fs)" for v es fs
  proof (induction es arbitrary: v)
    case (Cons e es)
    then show ?case by (cases "apply_event v e") simp_all
  qed simp
qed

definition replicates :: "inner \<Rightarrow> event list \<Rightarrow> inner \<Rightarrow> bool" where
  "replicates i es i' \<longleftrightarrow> apply_events (Some (snapshot_from i)) es = Inr (Some (snapshot_from i'))"

lemma replicates_follows: "replicates i es i' \<longleftrightarrow> ev.follows i es i'"
  by (simp add: replicates_def ev.follows_def)

lemma replicates_refl [simp]: "replicates i [] i"
  by (simp add: replicates_def)

section \<open>The obligations of a task\<close>

datatype mode = Shared | Frozen core | Guarded core

fun knows :: "mode \<Rightarrow> inner \<Rightarrow> bool" where
  "knows Shared i = True"
| "knows (Frozen c) i = (core i = c)"
| "knows (Guarded c) i = (core i = c)"

fun is_guarded :: "mode \<Rightarrow> bool" where
  "is_guarded (Guarded _) = True"
| "is_guarded _ = False"

fun learn :: "inner \<Rightarrow> mode \<Rightarrow> mode" where
  "learn i (Guarded _) = Guarded (core i)"
| "learn i m = m"

text \<open>Whether the task holds the inner lock, or owes the event of its last release.\<close>

datatype hold = Free | Held inner | Owes inner inner

fun owes :: "hold \<Rightarrow> bool" where
  "owes (Owes _ _) = True"
| "owes _ = False"

primrec wp :: "'r task \<Rightarrow> ('r \<Rightarrow> mode \<Rightarrow> hold \<Rightarrow> bool) \<Rightarrow> mode \<Rightarrow> hold \<Rightarrow> bool" where
  "wp (Return r) Q m h = Q r m h"
| "wp (Panic s) Q m h = False"
| "wp (Acquire k) Q m h =
     (h = Free \<and> (\<forall>i. registry_ok i \<and> knows m i \<longrightarrow> wp (k i) Q m (Held i)))"
| "wp (Release i' es p) Q m h =
     (\<exists>i. h = Held i \<and> registry_ok i' \<and> (is_guarded m \<or> core i' = core i) \<and>
        (if replicates i es i' then wp p Q (learn i' m) Free
         else es = [] \<and> wp p Q (learn i' m) (Owes i i')))"
| "wp (Send e p) Q m h =
     (\<exists>i i'. h = Owes i i' \<and> replicates i [e] i' \<and> wp p Q m Free)"
| "wp (LockMutations p) Q m h =
     (m = Shared \<and> h = Free \<and> (\<forall>c. wp p Q (Guarded c) h))"
| "wp (UnlockMutations p) Q m h = (is_guarded m \<and> h = Free \<and> wp p Q Shared h)"
| "wp (Connect n k) Q m h = (\<not> owes h \<and> (\<forall>x. wp (k x) Q m h))"
| "wp (Exchange n c k) Q m h = (\<not> owes h \<and> (\<forall>x. wp (k x) Q m h))"
| "wp (WriteLines n c k) Q m h = (\<not> owes h \<and> (\<forall>x. wp (k x) Q m h))"
| "wp (ReadLine n k) Q m h = (\<not> owes h \<and> (\<forall>x. reply_wf x \<longrightarrow> wp (k x) Q m h))"
| "wp (Poll n b k) Q m h = (\<not> owes h \<and> (\<forall>x. wp (k x) Q m h))"
| "wp (PathExists q k) Q m h = (\<not> owes h \<and> (\<forall>x. wp (k x) Q m h))"
| "wp (Io x k) Q m h = (\<not> owes h \<and> (\<forall>r. wp (k r) Q m h))"
| "wp (ReadDir q k) Q m h = (\<not> owes h \<and> (\<forall>r. wp (k r) Q m h))"
| "wp (Sleep d p) Q m h = (\<not> owes h \<and> wp p Q m h)"
| "wp (Spawn j p) Q m h = (\<not> owes h \<and> wp p Q m h)"

lemma wp_bind [simp]: "wp (bind_task p g) Q m h \<longleftrightarrow> wp p (\<lambda>r m h. wp (g r) Q m h) m h"
  by (induction p arbitrary: m h) simp_all

lemma wp_mono:
  "wp p Q m h \<Longrightarrow> (\<And>r m h. Q r m h \<Longrightarrow> R r m h) \<Longrightarrow> wp p R m h"
  by (induction p arbitrary: m h) (fastforce split: if_splits)+

section \<open>Critical sections of one target\<close>

lemma core_modify:
  assumes "bt_wf m" and "bt_get m name = Some t" and "rt_config t' = rt_config t"
  shows "map (\<lambda>(n, t). (n, rt_config t)) (bt_modify name (\<lambda>_. t') m) =
    map (\<lambda>(n, t). (n, rt_config t)) m"
proof -
  have "u = t" if "(name, u) \<in> set m" for u
    using that assms(1,2) by (auto simp: bt_wf_def bt_get_def strict_sorted_iff)
  then show ?thesis
    using assms(3) by (auto simp: bt_modify_def)
qed

lemma registry_core: "registry_ok i \<Longrightarrow> core i' = core i \<Longrightarrow> bt_wf (in_targets i') \<Longrightarrow> registry_ok i'"
  unfolding registry_ok_def consistent_def
  using core_targets [of i' i] by metis

lemma registry_modify:
  assumes "registry_ok i" and "bt_get (in_targets i) name = Some t" and "rt_config t' = rt_config t"
  defines "i' \<equiv> i\<lparr>in_targets := bt_modify name (\<lambda>_. t') (in_targets i)\<rparr>"
  shows "registry_ok i'" and "core i' = core i"
proof -
  have wf: "bt_wf (in_targets i)" using assms(1) by (simp add: registry_ok_def)
  show c: "core i' = core i"
    using core_modify [OF wf assms(2,3)] by (simp add: core_def i'_def)
  show "registry_ok i'"
    by (rule registry_core [OF assms(1) c]) (simp add: i'_def bt_wf_modify wf)
qed

lemma snapshot_modify:
  assumes "bt_wf (in_targets i)" and "bt_get (in_targets i) name = Some t"
    and "record_of name t' = record_of name t"
  shows "snapshot_from (i\<lparr>in_targets := bt_modify name (\<lambda>_. t') (in_targets i)\<rparr>) = snapshot_from i"
proof -
  have "u = t" if "(name, u) \<in> set (in_targets i)" for u
    using that assms(1,2) by (auto simp: bt_wf_def bt_get_def strict_sorted_iff)
  then have "map (\<lambda>(n, t). record_of n t) (bt_modify name (\<lambda>_. t') (in_targets i)) =
    map (\<lambda>(n, t). record_of n t) (in_targets i)"
    using assms(3) by (auto simp: bt_modify_def)
  then show ?thesis by (simp add: snapshot_from_def)
qed

lemma change_replicates:
  assumes "bt_wf (in_targets i)" and "bt_get (in_targets i) name = Some t"
    and "change_matches name t e t'"
  shows "replicates i [e] (i\<lparr>in_targets := bt_modify name (\<lambda>_. t') (in_targets i)\<rparr>)"
  using change_matches_apply [OF assms] by (simp add: replicates_def)

lemma change_visible:
  assumes "bt_get (in_targets i) name = Some t" and "change_matches name t e t'"
  shows "\<not> replicates i [] (i\<lparr>in_targets := bt_modify name (\<lambda>_. t') (in_targets i)\<rparr>)"
proof
  let ?i = "i\<lparr>in_targets := bt_modify name (\<lambda>_. t') (in_targets i)\<rparr>"
  assume "replicates i [] ?i"
  then have "find (\<lambda>t. tr_name t = name) (sn_targets (snapshot_from i)) =
      find (\<lambda>t. tr_name t = name) (sn_targets (snapshot_from ?i))"
    by (simp add: replicates_def)
  then have "record_of name t' = record_of name t"
    using assms(1) by (simp add: sn_targets_snapshot find_record)
  then show False
    using assms(2) by (simp add: change_matches_def record_of_def)
qed

text \<open>A body that keeps the contract of the shared lock.\<close>

definition body_keeps :: "'a body \<Rightarrow> bool" where
  "body_keeps b \<longleftrightarrow> (\<forall>i. registry_ok i \<longrightarrow>
     (case b i of (a, i', es) \<Rightarrow> registry_ok i' \<and> core i' = core i \<and> replicates i es i'))"

definition body_defers :: "event option body \<Rightarrow> bool" where
  "body_defers b \<longleftrightarrow> (\<forall>i. registry_ok i \<longrightarrow>
     (case b i of (a, i', es) \<Rightarrow> registry_ok i' \<and> core i' = core i \<and> es = [] \<and>
        (case a of None \<Rightarrow> replicates i [] i'
         | Some e \<Rightarrow> replicates i [e] i' \<and> \<not> replicates i [] i')))"

lemma reports_keeps:
  assumes "reports name f"
  shows "body_keeps (at_target name x f)"
  unfolding body_keeps_def
proof (intro allI impI)
  fix i assume i: "registry_ok i"
  then have wf: "bt_wf (in_targets i)" by (simp add: registry_ok_def)
  show "case at_target name x f i of (a, i', es) \<Rightarrow>
    registry_ok i' \<and> core i' = core i \<and> replicates i es i'"
  proof (cases "bt_get (in_targets i) name")
    case None
    with i show ?thesis by (simp add: at_target_def)
  next
    case (Some t)
    obtain a t' es where f: "f t = (a, t', es)" by (cases "f t")
    with assms have c: "rt_config t' = rt_config t"
      and r: "es = [] \<and> record_of name t' = record_of name t \<or>
        (\<exists>e. es = [e] \<and> change_matches name t e t')"
      unfolding reports_def by blast+
    have "replicates i es (i\<lparr>in_targets := bt_modify name (\<lambda>_. t') (in_targets i)\<rparr>)"
      using r change_replicates [OF wf Some] snapshot_modify [OF wf Some, of t']
      by (auto simp: replicates_def)
    with Some f registry_modify [OF i Some c] show ?thesis
      by (simp add: at_target_def)
  qed
qed

lemma defers_keeps:
  assumes "defers name f"
  shows "body_defers (at_target name None f)"
  unfolding body_defers_def
proof (intro allI impI)
  fix i assume i: "registry_ok i"
  then have wf: "bt_wf (in_targets i)" by (simp add: registry_ok_def)
  show "case at_target name None f i of (a, i', es) \<Rightarrow>
    registry_ok i' \<and> core i' = core i \<and> es = [] \<and>
    (case a of None \<Rightarrow> replicates i [] i'
     | Some e \<Rightarrow> replicates i [e] i' \<and> \<not> replicates i [] i')"
  proof (cases "bt_get (in_targets i) name")
    case None
    with i show ?thesis by (simp add: at_target_def)
  next
    case (Some t)
    obtain a t' es where f: "f t = (a, t', es)" by (cases "f t")
    with assms have c: "rt_config t' = rt_config t" and es: "es = []"
      and r: "case a of None \<Rightarrow> record_of name t' = record_of name t
        | Some e \<Rightarrow> change_matches name t e t'"
      unfolding defers_def by blast+
    have "case a of None \<Rightarrow> replicates i [] (i\<lparr>in_targets := bt_modify name (\<lambda>_. t') (in_targets i)\<rparr>)
      | Some e \<Rightarrow> replicates i [e] (i\<lparr>in_targets := bt_modify name (\<lambda>_. t') (in_targets i)\<rparr>) \<and>
          \<not> replicates i [] (i\<lparr>in_targets := bt_modify name (\<lambda>_. t') (in_targets i)\<rparr>)"
      using r change_replicates [OF wf Some] snapshot_modify [OF wf Some, of t']
        change_visible [OF Some]
      by (auto simp: replicates_def split: option.splits)
    with Some f es registry_modify [OF i Some c] show ?thesis
      by (simp add: at_target_def)
  qed
qed

lemma read_inner_keeps: "body_keeps (read_inner f)"
  by (simp add: body_keeps_def read_inner_def)

section \<open>Calm tasks\<close>

text \<open>A calm task takes only the inner lock, leaves the configured targets alone, and ends
  free of obligations, in every mode.\<close>

definition calm :: "'r task \<Rightarrow> bool" where
  "calm p \<longleftrightarrow> (\<forall>m. wp p (\<lambda>_ m' h. m' = m \<and> h = Free) m Free)"

lemma learn_same: "knows m i \<Longrightarrow> core i' = core i \<Longrightarrow> learn i' m = m"
  by (cases m) auto

lemma calm_Return: "calm (Return r)"
  by (simp add: calm_def)

lemma calm_bind:
  assumes "calm p" and "\<And>r. calm (g r)"
  shows "calm (bind_task p g)"
  unfolding calm_def wp_bind
proof
  fix m
  have p: "wp p (\<lambda>_ m' h. m' = m \<and> h = Free) m Free" using assms(1) by (simp add: calm_def)
  show "wp p (\<lambda>r m1 h. wp (g r) (\<lambda>_ m' h. m' = m \<and> h = Free) m1 h) m Free"
    by (rule wp_mono [OF p]) (use assms(2) in \<open>simp add: calm_def\<close>)
qed

lemma calm_then:
  assumes "calm p" and "\<And>x. calm (k x)"
  shows "calm (then_task p k)"
  unfolding then_task_def using assms
  by (intro calm_bind) (auto simp: calm_Return split: sum.splits)

lemma calm_locked:
  assumes "body_keeps b" and "\<And>a. calm (k a)"
  shows "calm (locked b k)"
proof -
  have "wp (case b i of (a, i', es) \<Rightarrow> Release i' es (k a)) (\<lambda>_ m' h. m' = m \<and> h = Free) m (Held i)"
    if i: "registry_ok i" "knows m i" for m i
  proof -
    obtain a i' es where b: "b i = (a, i', es)" by (cases "b i")
    with assms(1) i have "registry_ok i'" "core i' = core i" "replicates i es i'"
      unfolding body_keeps_def by fastforce+
    then show ?thesis
      using b assms(2) i by (simp add: calm_def learn_same)
  qed
  then show ?thesis by (simp add: calm_def locked_def)
qed

lemma calm_locked_deferred:
  assumes "body_defers b"
  shows "calm (locked b deferred)"
proof -
  have "wp (case b i of (a, i', es) \<Rightarrow> Release i' es (deferred a))
      (\<lambda>_ m' h. m' = m \<and> h = Free) m (Held i)"
    if i: "registry_ok i" "knows m i" for m i
  proof -
    obtain a i' es where b: "b i = (a, i', es)" by (cases "b i")
    with assms(1) i have "registry_ok i'" "core i' = core i" "es = []"
      "case a of None \<Rightarrow> replicates i [] i'
       | Some e \<Rightarrow> replicates i [e] i' \<and> \<not> replicates i [] i'"
      unfolding body_defers_def by fastforce+
    then show ?thesis
      using b i by (auto simp: deferred_def learn_same split: option.splits)
  qed
  then show ?thesis by (simp add: calm_def locked_def)
qed

lemma calm_steps:
  "(\<And>x. calm (k1 x)) \<Longrightarrow> calm (Connect n k1)"
  "(\<And>x. calm (k2 x)) \<Longrightarrow> calm (Exchange n c k2)"
  "(\<And>x. calm (k1 x)) \<Longrightarrow> calm (WriteLines n cs k1)"
  "(\<And>x. reply_wf x \<Longrightarrow> calm (k3 x)) \<Longrightarrow> calm (ReadLine n k3)"
  "(\<And>x. calm (k1 x)) \<Longrightarrow> calm (Poll n b k1)"
  "(\<And>x. calm (k1 x)) \<Longrightarrow> calm (PathExists q k1)"
  "(\<And>x. calm (k4 x)) \<Longrightarrow> calm (Io op k4)"
  "(\<And>x. calm (k5 x)) \<Longrightarrow> calm (ReadDir q k5)"
  "calm p \<Longrightarrow> calm (Sleep d p)"
  "calm p \<Longrightarrow> calm (Spawn j p)"
  by (auto simp: calm_def)

lemma calm_if: "(b \<Longrightarrow> calm p) \<Longrightarrow> (\<not> b \<Longrightarrow> calm q) \<Longrightarrow> calm (if b then p else q)"
  by simp

lemma calm_case_sum:
  "(\<And>e. calm (f e)) \<Longrightarrow> (\<And>x. calm (g x)) \<Longrightarrow> calm (case r of Inl e \<Rightarrow> f e | Inr x \<Rightarrow> g x)"
  by (cases r) auto

lemma calm_case_option:
  "calm p \<Longrightarrow> (\<And>x. calm (g x)) \<Longrightarrow> calm (case r of None \<Rightarrow> p | Some x \<Rightarrow> g x)"
  by (cases r) auto

lemma calm_case_prod: "(\<And>x y. calm (f x y)) \<Longrightarrow> calm (case r of (x, y) \<Rightarrow> f x y)"
  by (cases r) auto

lemmas calm_intros =
  calm_Return calm_bind calm_then calm_locked calm_locked_deferred calm_steps calm_if
  calm_case_sum calm_case_option calm_case_prod read_inner_keeps

section \<open>The operations that are calm\<close>

lemmas body_reports =
  start_body_reports stop_body_reports lost_body_reports recovery_body_reports
  still_expected_body_reports disabled_off_body_reports mark_online_body_reports
  mark_offline_body_reports clear_launching_body_reports

lemmas body_keeps_intros = body_reports [THEN reports_keeps] read_inner_keeps

lemmas body_defers_intros =
  clear_observed_body_defers [THEN defers_keeps] media_end_body_defers [THEN defers_keeps]
  clear_media_end_body_defers [THEN defers_keeps]

lemma calm_try_io [intro]: "calm (try_io err op)"
  by (auto simp: try_io_def intro!: calm_intros)

lemma calm_try_all [intro]: "calm (try_all err ops)"
  by (induction err ops rule: try_all.induct) (auto intro!: calm_intros)

lemma calm_ignore_io: "calm p \<Longrightarrow> calm (ignore_io op p)"
  by (auto simp: ignore_io_def intro!: calm_intros)

lemma calm_query [intro]: "calm (query_target f name)"
  unfolding query_target_def by (intro calm_intros)

lemma calm_queries [intro]:
  "calm (get_target_record name)" "calm (get_target_config name)" "calm (target_disabled name)"
  "calm (target_stopped name)" "calm (target_online name)"
  by (auto simp: get_target_record_def get_target_config_def target_disabled_def
      target_stopped_def target_online_def)

lemma calm_sockets [intro]:
  "calm (socket_is_live name)" "calm (wait_for_socket name)" "calm (wait_for_socket_gone name)"
  "calm (ipc_command name c)" "calm (schedule_recovery name)"
  by (auto simp: socket_is_live_def wait_for_socket_def wait_for_socket_gone_def
      ipc_command_def schedule_recovery_def intro!: calm_intros)

lemma calm_marks [intro]:
  "calm (clear_observed name)" "calm (mark_online name)" "calm (mark_offline name)"
  "calm (clear_launching name)"
  unfolding clear_observed_def mark_online_def mark_offline_def clear_launching_def
  by (intro calm_intros body_keeps_intros body_defers_intros)+

lemma calm_launch [intro]: "calm (launch pt name)"
  unfolding launch_def by (intro calm_intros calm_ignore_io calm_queries calm_sockets calm_marks
      calm_try_io calm_try_all)

lemma calm_start [intro]: "calm (start pt name)"
  unfolding start_def
  by (intro calm_intros body_keeps_intros calm_launch calm_queries calm_sockets calm_marks)

lemma calm_quit [intro]: "calm (quit_mpv name)"
  unfolding quit_mpv_def by (intro calm_intros calm_sockets)

lemma calm_stop [intro]: "calm (stop name)"
  unfolding stop_def by (intro calm_intros body_keeps_intros calm_quit calm_queries calm_marks)

lemma calm_disabled_off [intro]: "calm (ensure_disabled_off name)"
  unfolding ensure_disabled_off_def
  by (intro calm_intros body_keeps_intros calm_quit calm_sockets calm_marks)

lemma calm_restart [intro]: "calm (restart pt name)"
  unfolding restart_def
  by (intro calm_intros calm_disabled_off calm_stop calm_start calm_queries)

lemma calm_mpv_command [intro]: "calm (mpv_command name c args)"
  unfolding mpv_command_def by (intro calm_intros calm_queries calm_sockets)

lemma calm_list_channels [intro]: "calm (list_channels pt)"
  unfolding list_channels_def by (intro calm_intros)

lemma calm_replace_file [intro]: "calm (replace_file tmp contents dest)"
  unfolding replace_file_def by (intro calm_intros calm_try_io calm_try_all calm_ignore_io)

lemma calm_save_channel_section [intro]: "calm (save_channel_section pt t c ow)"
  unfolding save_channel_section_def
  by (intro calm_intros calm_mpv_command calm_try_io calm_replace_file)

lemma calm_recovery [intro]:
  "calm (recovery_task name)" "calm (recovery_round pt name delay)"
  unfolding recovery_task_def recovery_round_def
  by (intro calm_intros body_keeps_intros calm_start)+

lemma calm_lost [intro]: "calm (on_target_lost name)"
  unfolding on_target_lost_def
  by (intro calm_intros body_keeps_intros calm_marks calm_sockets)

text \<open>The values in a message are values a parser builds.\<close>

lemma json_get_wf: "json_wf v \<Longrightarrow> json_get v k = Some w \<Longrightarrow> json_wf w"
  by (cases v) (auto simp: bt_get_def dest!: map_of_SomeD)

lemma calm_update_observed: "json_wf v \<Longrightarrow> calm (update_observed name field v)"
  unfolding update_observed_def
  by (intro calm_intros observed_body_reports [THEN reports_keeps])

lemma calm_media_end [intro]:
  "calm (update_media_end name reason e)" "calm (clear_media_end name)"
  unfolding update_media_end_def clear_media_end_def
  by (intro calm_intros body_defers_intros)+

lemma message_data_wf:
  "json_wf v \<Longrightarrow> json_wf (case json_get v k of None \<Rightarrow> JNull | Some d \<Rightarrow> d)"
  by (auto split: option.splits intro: json_get_wf)

lemma calm_observe_message: "json_wf v \<Longrightarrow> calm (observe_message name v)"
  unfolding observe_message_def
  by (intro calm_intros calm_update_observed calm_media_end message_data_wf)

lemma calm_observe_round [intro]: "calm (observe_round name)"
  unfolding observe_round_def
proof (rule calm_steps(4))
  fix line assume line: "reply_wf line"
  consider "line = None" | "line = Some None" | message where "line = Some (Some message)"
    by (cases line) auto
  then show "calm (case line of None \<Rightarrow> on_target_lost name
     | Some None \<Rightarrow> Spawn (ObserveLoop name) (Return ())
     | Some (Some message) \<Rightarrow>
         bind_task (observe_message name message) (\<lambda>_. Spawn (ObserveLoop name) (Return ())))"
    by cases (use line in \<open>auto simp: reply_wf_def intro!: calm_intros calm_observe_message\<close>)
qed

lemma calm_observe [intro]: "calm (observe_target name)"
  unfolding observe_target_def by (intro calm_intros calm_lost)

lemma calm_job: "calm (job_task pt j)"
  by (cases j) (auto intro: calm_Return)

end
