(* ===== verification/Guarded.thy ===== *)
theory Guarded
  imports Contracts
begin

text \<open>
  The operations that hold the mutation lock: what each commit does to the invariant of
  the registry, and that every request and every background job keeps the contract.
\<close>

section \<open>Lists of configured targets\<close>

lemma position_of_Some:
  "position_of name ts = Some k \<Longrightarrow>
   k < length ts \<and> tc_name (ts ! k) = name \<and> find (\<lambda>t. tc_name t = name) ts = Some (ts ! k)"
  by (induction ts arbitrary: k) (auto split: if_splits)

lemma find_snoc:
  "find P (xs @ [x]) =
   (case find P xs of None \<Rightarrow> if P x then Some x else None | Some y \<Rightarrow> Some y)"
  by (induction xs) auto

lemma find_filter_name:
  "find (\<lambda>t. tc_name t = n) (filter (\<lambda>t. tc_name t \<noteq> name) ts) =
   (if n = name then None else find (\<lambda>t. tc_name t = n) ts)"
  by (induction ts) auto

lemma find_update:
  assumes "position_of name ts = Some k" and "distinct (map tc_name ts)"
    and "n \<noteq> name" and "tc_name t' = n \<longrightarrow> find (\<lambda>t. tc_name t = n) ts = None"
  shows "find (\<lambda>t. tc_name t = n) (ts[k := t']) =
    (if tc_name t' = n then Some t' else find (\<lambda>t. tc_name t = n) ts)"
  using assms
proof (induction ts arbitrary: k)
  case (Cons t ts)
  show ?case
  proof (cases k)
    case 0
    with Cons.prems show ?thesis by (auto split: if_splits)
  next
    case (Suc j)
    with Cons.prems have "position_of name ts = Some j" by (auto split: if_splits)
    with Cons Suc show ?thesis by (auto split: if_splits)
  qed
qed simp

lemma find_update_same:
  assumes "position_of name ts = Some k" and "distinct (map tc_name ts)"
  shows "find (\<lambda>t. tc_name t = name) (ts[k := t']) = (if tc_name t' = name then Some t' else None)"
  using assms
proof (induction ts arbitrary: k)
  case (Cons t ts)
  show ?case
  proof (cases k)
    case 0
    with Cons.prems have "tc_name t = name" by (auto split: if_splits)
    with 0 Cons.prems show ?thesis by (simp add: find_None_iff image_iff) metis
  next
    case (Suc j)
    with Cons.prems have "position_of name ts = Some j" "tc_name t \<noteq> name" by (auto split: if_splits)
    with Cons Suc show ?thesis by simp
  qed
qed simp

lemma registry_distinct: "registry_ok i \<Longrightarrow> distinct (map tc_name (dc_targets (in_config i)))"
  by (simp add: registry_ok_def validate_config_iff)

lemma consistentD:
  "registry_ok i \<Longrightarrow> map_option rt_config (bt_get (in_targets i) n) =
     find (\<lambda>t. tc_name t = n) (dc_targets (in_config i))"
  by (simp add: registry_ok_def consistent_def)

lemma registry_wf: "registry_ok i \<Longrightarrow> bt_wf (in_targets i)"
  by (simp add: registry_ok_def)

section \<open>Commits\<close>

lemma snapshot_replicates: "replicates i [emit_snapshot i'] i'"
  by (simp add: replicates_def emit_snapshot_def apply_event_def snapshot_from_def Let_def)

lemma add_commit_ok:
  assumes "registry_ok i" and "bt_get (in_targets i) (tc_name target) = None"
    and "candidate = push_target (in_config i) target" and "validate_config candidate = Inr ()"
    and "add_commit candidate target i = (a, i', es)"
  shows "registry_ok i' \<and> replicates i es i'"
proof -
  have "map_option rt_config (bt_get (in_targets i') n) =
      find (\<lambda>t. tc_name t = n) (dc_targets (in_config i'))" for n
    using assms consistentD [OF assms(1), of n]
    by (auto simp: add_commit_def push_target_def find_snoc fresh_runtime_def Let_def
        split: option.splits)
  then show ?thesis
    using assms snapshot_replicates [of i i'] registry_wf [OF assms(1)]
    by (auto simp: registry_ok_def consistent_def add_commit_def Let_def bt_wf_insert)
qed

lemma remove_commit_ok:
  assumes "registry_ok i" and "candidate = retain_other (in_config i) name"
    and "validate_config candidate = Inr ()" and "remove_commit candidate name i = (a, i', es)"
  shows "registry_ok i' \<and> replicates i es i'"
proof -
  have "map_option rt_config (bt_get (in_targets i') n) =
      find (\<lambda>t. tc_name t = n) (dc_targets (in_config i'))" for n
    using assms consistentD [OF assms(1), of n]
    by (auto simp: remove_commit_def retain_other_def find_filter_name Let_def)
  then show ?thesis
    using assms snapshot_replicates [of i i'] registry_wf [OF assms(1)]
    by (auto simp: registry_ok_def consistent_def remove_commit_def Let_def bt_wf_remove)
qed

lemma rename_first_find:
  assumes "rename_first c name replacement = Some c'" and "distinct (map tc_name (dc_targets c))"
    and "find (\<lambda>t. tc_name t = replacement) (dc_targets c) = None"
    and "find (\<lambda>t. tc_name t = name) (dc_targets c) = Some u"
  shows "find (\<lambda>t. tc_name t = n) (dc_targets c') =
    (if n = replacement then Some (u\<lparr>tc_name := replacement\<rparr>)
     else if n = name then None else find (\<lambda>t. tc_name t = n) (dc_targets c))"
proof -
  obtain k where k: "position_of name (dc_targets c) = Some k"
    and c': "c' = c\<lparr>dc_targets := (dc_targets c)[k := (dc_targets c ! k)\<lparr>tc_name := replacement\<rparr>]\<rparr>"
    using assms(1) by (auto simp: rename_first_def split: option.splits)
  have u: "dc_targets c ! k = u" using position_of_Some [OF k] assms(4) by simp
  have "name \<noteq> replacement" using assms(3,4) by auto
  then show ?thesis
    using find_update [OF k assms(2), of n "u\<lparr>tc_name := replacement\<rparr>"]
      find_update_same [OF k assms(2), of "u\<lparr>tc_name := replacement\<rparr>"] assms(3) c' u
    by (cases "n = name") auto
qed

lemma rename_commit_ok:
  assumes "registry_ok i" and "bt_get (in_targets i) name \<noteq> None"
    and "bt_get (in_targets i) replacement = None"
    and "rename_first (in_config i) name replacement = Some candidate"
    and "validate_config candidate = Inr ()" and "rename_commit candidate name replacement i = (a, i', es)"
  shows "a \<noteq> None \<and> registry_ok i' \<and> replicates i es i'"
proof -
  obtain t where t: "bt_get (in_targets i) name = Some t" using assms(2) by blast
  have found: "find (\<lambda>t. tc_name t = name) (dc_targets (in_config i)) = Some (rt_config t)"
    using consistentD [OF assms(1), of name] t by simp
  have absent: "find (\<lambda>t. tc_name t = replacement) (dc_targets (in_config i)) = None"
    using consistentD [OF assms(1), of replacement] assms(3) by simp
  have "map_option rt_config (bt_get (in_targets i') n) =
      find (\<lambda>t. tc_name t = n) (dc_targets (in_config i'))" for n
    using assms(6) t consistentD [OF assms(1), of n]
      rename_first_find [OF assms(4) registry_distinct [OF assms(1)] absent found, of n]
    by (auto simp: rename_commit_def Let_def bump_def)
  then show ?thesis
    using assms t snapshot_replicates [of i i'] registry_wf [OF assms(1)]
    by (auto simp: registry_ok_def consistent_def rename_commit_def Let_def bt_wf_insert bt_wf_remove)
qed

section \<open>Tasks under the mutation lock\<close>

definition steady :: "'r task \<Rightarrow> bool" where
  "steady p \<longleftrightarrow> (\<forall>c. wp p (\<lambda>_ m h. is_guarded m \<and> h = Free) (Guarded c) Free)"

definition settles :: "'r task \<Rightarrow> bool" where
  "settles p \<longleftrightarrow> wp p (\<lambda>_ m h. m = Shared \<and> h = Free) Shared Free"

lemma calm_wp:
  assumes "calm p" and "\<And>r. Q r m Free"
  shows "wp p Q m Free"
  using assms(1) [unfolded calm_def, rule_format, of m] by (rule wp_mono) (use assms(2) in auto)

lemma calm_steady: "calm p \<Longrightarrow> steady p"
  by (auto simp: steady_def intro: calm_wp)

lemma calm_settles: "calm p \<Longrightarrow> settles p"
  by (auto simp: settles_def intro: calm_wp)

lemma wp_then:
  "wp (then_task p k) Q m h \<longleftrightarrow>
   wp p (\<lambda>r m h. case r of Inl e \<Rightarrow> Q (Inl e) m h | Inr x \<Rightarrow> wp (k x) Q m h) m h"
  unfolding then_task_def wp_bind
  by (rule arg_cong [where f = "\<lambda>R. wp p R m h"]) (auto simp: fun_eq_iff split: sum.splits)

lemma steadyI: "(\<And>c. wp p (\<lambda>_ m h. is_guarded m \<and> h = Free) (Guarded c) Free) \<Longrightarrow> steady p"
  unfolding steady_def by (rule allI)

lemma steadyD: "steady p \<Longrightarrow> wp p (\<lambda>_ m h. is_guarded m \<and> h = Free) (Guarded c) Free"
  unfolding steady_def by (rule spec)

lemma steady_then_calm:
  assumes "calm p" and "\<And>x. steady (k x)"
  shows "steady (then_task p k)"
  by (rule steadyI, unfold wp_then, rule calm_wp [OF assms(1)])
    (use assms(2) in \<open>auto simp: steady_def split: sum.splits\<close>)

lemma steady_path: "(\<And>x. steady (k x)) \<Longrightarrow> steady (PathExists q k)"
  by (simp add: steady_def)

lemma settles_bind:
  assumes "settles p" and "\<And>r. settles (g r)"
  shows "settles (bind_task p g)"
  unfolding settles_def wp_bind
  by (rule wp_mono [OF assms(1) [unfolded settles_def]]) (use assms(2) in \<open>simp add: settles_def\<close>)

lemma settles_then:
  assumes "settles p" and "\<And>x. settles (k x)"
  shows "settles (then_task p k)"
  unfolding then_task_def using assms
  by (intro settles_bind) (auto simp: settles_def split: sum.splits)

lemma settles_mutations:
  assumes "steady p"
  shows "settles (with_mutations p)"
proof -
  have "wp p (\<lambda>r m h. is_guarded m \<and> h = Free \<and> wp (Return r) (\<lambda>_ m h. m = Shared \<and> h = Free) Shared h)
      (Guarded c) Free" for c
    by (rule wp_mono [OF steadyD [OF assms]]) simp
  then show ?thesis unfolding settles_def with_mutations_def by simp
qed

text \<open>A task that only uses files passes through every state of the locks that owes
  nothing.\<close>

definition io_only :: "'r task \<Rightarrow> bool" where
  "io_only p \<longleftrightarrow> (\<forall>Q m h. \<not> owes h \<longrightarrow> (\<forall>r. Q r m h) \<longrightarrow> wp p Q m h)"

lemma io_only_intros:
  "io_only (Return r)"
  "io_only p \<Longrightarrow> (\<And>r. io_only (g r)) \<Longrightarrow> io_only (bind_task p g)"
  "(\<And>r. io_only (k r)) \<Longrightarrow> io_only (Io op k)"
  by (auto simp: io_only_def)

lemma io_only_then: "io_only p \<Longrightarrow> (\<And>x. io_only (k x)) \<Longrightarrow> io_only (then_task p k)"
  unfolding then_task_def by (intro io_only_intros) (auto intro: io_only_intros split: sum.splits)

lemma io_only_try_all: "io_only (try_all err ops)"
  by (induction err ops rule: try_all.induct)
    (auto simp: try_io_def intro!: io_only_intros io_only_then)

lemma io_only_try: "io_only (try_io err op)"
  by (auto simp: try_io_def intro!: io_only_intros)

lemma io_only_replace: "io_only (replace_file tmp contents dest)"
  unfolding replace_file_def ignore_io_def
  by (intro io_only_then io_only_intros io_only_try io_only_try_all)
    (auto intro!: io_only_intros split: sum.splits)

lemma io_only_persist: "io_only (persist_config pt c)"
  unfolding persist_config_def by (intro io_only_then io_only_try io_only_replace)

lemma wp_validate_persist:
  assumes "\<not> owes h" and "\<And>e. Q (Inl e) m h" and "validate_config c = Inr () \<Longrightarrow> Q (Inr ()) m h"
  shows "wp (validate_and_persist pt c) Q m h"
proof (cases "validate_config c")
  case (Inl e)
  then show ?thesis using assms by (simp add: validate_and_persist_def)
next
  case (Inr u)
  then have "Q r m h" for r using assms(2,3) by (cases r) auto
  then have "wp (persist_config pt c) Q m h"
    using io_only_persist [of pt c] assms(1) unfolding io_only_def by blast
  with Inr show ?thesis by (simp add: validate_and_persist_def)
qed

lemma wp_locked_readI:
  "(\<And>i. registry_ok i \<Longrightarrow> knows m i \<Longrightarrow> wp (k (f i)) Q m Free) \<Longrightarrow>
   wp (locked (read_inner f) k) Q m Free"
  by (auto simp: locked_def read_inner_def learn_same)

lemma wp_locked_commit:
  assumes "\<And>i a i' es. registry_ok i \<Longrightarrow> core i = c \<Longrightarrow> b i = (a, i', es) \<Longrightarrow>
     registry_ok i' \<and> replicates i es i' \<and> wp (k a) Q (Guarded (core i')) Free"
  shows "wp (locked b k) Q (Guarded c) Free"
  using assms by (auto simp: locked_def split: prod.splits)

section \<open>Adding, removing, renaming\<close>

text \<open>The post-condition of a task under the mutation lock.\<close>

abbreviation kept :: "'r \<Rightarrow> mode \<Rightarrow> hold \<Rightarrow> bool" where
  "kept r m h \<equiv> is_guarded m \<and> h = Free"

lemma calm_kept: "calm p \<Longrightarrow> is_guarded m \<Longrightarrow> wp p kept m Free"
  by (auto intro: calm_wp)

lemma add_finish_kept:
  assumes "registry_ok i" and "core i = c" and "bt_get (in_targets i) (tc_name target) = None"
  shows "wp (add_finish pt target) kept (Guarded c) Free"
  unfolding add_finish_def
proof (rule wp_locked_readI, unfold wp_bind, rule wp_validate_persist)
  fix j assume j: "registry_ok j" "knows (Guarded c) j"
    and valid: "validate_config (push_target (in_config j) target) = Inr ()"
  let ?c = "push_target (in_config j) target"
  have "registry_ok k' \<and> replicates k es k' \<and>
      wp (get_target_record (tc_name target)) kept (Guarded (core k')) Free"
    if k: "registry_ok k" "core k = c" "add_commit ?c target k = (a, k', es)" for k a k' es
  proof -
    have same: "core k = core i" "core k = core j" using k(2) j(2) assms(2) by simp_all
    have "bt_get (in_targets k) (tc_name target) = None"
      using core_known [OF same(1)] assms(3) by simp
    moreover have "?c = push_target (in_config k) target"
      using core_targets(1) [OF same(2)] by simp
    ultimately show ?thesis
      using add_commit_ok [OF k(1) _ _ valid k(3)] calm_kept [OF calm_queries(1)] by simp
  qed
  then show "wp (case Inr () of
      Inl e \<Rightarrow> ignore_io (RemoveDirAll (target_directory pt (tc_name target))) (Return (Inl e))
    | Inr _ \<Rightarrow> locked (add_commit ?c target) (\<lambda>_. get_target_record (tc_name target)))
    kept (Guarded c) Free"
    by (simp add: wp_locked_commit)
qed (simp_all add: ignore_io_def)

lemma add_steady: "steady (add_section pt name from enabled start_paused start_muted)"
  unfolding add_section_def
proof (rule steadyI, rule wp_locked_readI)
  fix c i
  assume i: "registry_ok i" "knows (Guarded c) i"
  show "wp (case add_lookup name from i of Inl e \<Rightarrow> Return (Inl e)
     | Inr source_channel \<Rightarrow>
         PathExists (target_directory pt name) (\<lambda>exists.
           if exists then Return (Inl (TargetExists name))
           else
             bind_task (try_all ConfigError (preparation pt name from start_paused start_muted))
               (\<lambda>prepared. case prepared of
                  Inl e \<Rightarrow> ignore_io (RemoveDirAll (target_directory pt name)) (Return (Inl e))
                | Inr _ \<Rightarrow> add_finish pt
                    \<lparr>tc_name = name, tc_disabled = \<not> enabled, tc_channel = source_channel\<rparr>)))
    kept (Guarded c) Free"
  proof (cases "add_lookup name from i")
    case (Inr ch)
    then have "bt_get (in_targets i) name = None"
      by (auto simp: add_lookup_def split: if_splits)
    with i have "wp (add_finish pt \<lparr>tc_name = name, tc_disabled = \<not> enabled, tc_channel = ch\<rparr>)
      kept (Guarded c) Free"
      by (intro add_finish_kept) auto
    with Inr show ?thesis
      by (auto simp: ignore_io_def split: sum.splits intro!: calm_wp [OF calm_try_all])
  qed simp
qed

lemma remove_finish_steady: "steady (remove_finish pt name)"
  unfolding remove_finish_def
proof (rule steadyI, rule wp_locked_readI, unfold wp_bind, rule wp_validate_persist)
  fix c j
  assume j: "registry_ok j" "knows (Guarded c) j"
    and valid: "validate_config (retain_other (in_config j) name) = Inr ()"
  let ?c = "retain_other (in_config j) name"
  have "registry_ok k' \<and> replicates k es k'"
    if k: "registry_ok k" "core k = c" "remove_commit ?c name k = (a, k', es)" for k a k' es
    using remove_commit_ok [OF k(1) _ valid k(3)] core_targets(1) [of k j] k(2) j(2) by simp
  then show "wp (case Inr () of
      Inl e \<Rightarrow> PathExists (remove_directory pt name) (\<lambda>moved.
          if moved then ignore_io (RenamePath (remove_directory pt name) (target_directory pt name))
              (Return (Inl e))
          else Return (Inl e))
    | Inr _ \<Rightarrow> locked (remove_commit ?c name) (\<lambda>_.
        PathExists (remove_directory pt name) (\<lambda>moved.
          if moved then try_io ConfigError (RemoveDirAll (remove_directory pt name))
          else Return (Inr ())))) kept (Guarded c) Free"
    by (simp add: wp_locked_commit try_io_def)
qed (simp_all add: ignore_io_def)

lemma remove_steady: "steady (remove_section pt name)"
  unfolding remove_section_def
  by (intro steady_then_calm steady_path calm_queries calm_if calm_then calm_stop calm_Return
      calm_try_io remove_finish_steady)

lemma rename_finish_kept:
  assumes "registry_ok i" and "core i = c" and "rename_lookup name replacement i = Inr u"
  shows "wp (rename_finish pt name replacement) kept (Guarded c) Free"
  unfolding rename_finish_def
proof (rule wp_locked_readI)
  have known: "bt_get (in_targets i) name \<noteq> None" "bt_get (in_targets i) replacement = None"
    using assms(3) by (auto simp: rename_lookup_def split: option.splits if_splits)
  fix j assume j: "registry_ok j" "knows (Guarded c) j"
  let ?commit = "\<lambda>candidate. locked (rename_commit candidate name replacement) (\<lambda>done. case done of
      None \<Rightarrow> Panic ''checked target exists'' | Some _ \<Rightarrow> get_target_record replacement)"
  have commit: "wp (?commit candidate) kept (Guarded c) Free"
    if "rename_first (in_config j) name replacement = Some candidate"
      "validate_config candidate = Inr ()" for candidate
  proof (rule wp_locked_commit)
    fix k a k' es
    assume k: "registry_ok k" "core k = c" "rename_commit candidate name replacement k = (a, k', es)"
    have same: "core k = core i" "core k = core j" using k(2) j(2) assms(2) by simp_all
    show "registry_ok k' \<and> replicates k es k' \<and> wp (case a of
        None \<Rightarrow> Panic ''checked target exists'' | Some _ \<Rightarrow> get_target_record replacement)
        kept (Guarded (core k')) Free"
      using rename_commit_ok [OF k(1) _ _ _ that(2) k(3)] that(1) known
        core_known [OF same(1)] core_targets(1) [OF same(2)] calm_kept [OF calm_queries(1)]
      by auto
  qed
  show "wp (case rename_first (in_config j) name replacement of
       None \<Rightarrow> Return (Inl (UnknownTarget name))
     | Some candidate \<Rightarrow> bind_task (validate_and_persist pt candidate) (\<lambda>persisted. case persisted of
         Inl e \<Rightarrow> ignore_io (RenamePath (target_directory pt replacement) (target_directory pt name))
               (Return (Inl e))
       | Inr _ \<Rightarrow> ?commit candidate)) kept (Guarded c) Free"
    using commit by (auto simp: ignore_io_def intro!: wp_validate_persist split: option.splits)
qed

lemma rename_steady: "steady (rename_section pt name replacement)"
  unfolding rename_section_def
proof (rule steadyI, rule wp_locked_readI)
  fix c i assume i: "registry_ok i" "knows (Guarded c) i"
  have "rename_lookup name replacement i = Inr u \<Longrightarrow>
      wp (rename_finish pt name replacement) kept (Guarded c) Free" for u
    using rename_finish_kept [OF i(1)] i(2) by simp
  then show "wp (case rename_lookup name replacement i of Inl e \<Rightarrow> Return (Inl e)
     | Inr _ \<Rightarrow>
         PathExists (target_directory pt replacement) (\<lambda>exists.
           if exists then Return (Inl (TargetExists replacement))
           else then_task (try_io ConfigError
                 (RenamePath (target_directory pt name) (target_directory pt replacement)))
               (\<lambda>_. rename_finish pt name replacement))) kept (Guarded c) Free"
    by (auto simp: wp_then try_io_def split: sum.splits)
qed

section \<open>Changing the configuration of a target\<close>

text \<open>A mutation keeps the name of the target, and says what it changes as the client will
  apply it.\<close>

definition mutation_reports :: "mutation \<Rightarrow> bool" where
  "mutation_reports mutate \<longleftrightarrow> (\<forall>name u t' changed.
     mutate (rt_config u) = (t', Some changed) \<longrightarrow>
     tc_name t' = tc_name (rt_config u) \<and>
     change_matches name u (publish name changed (bump (u\<lparr>rt_config := t'\<rparr>)))
       (bump (u\<lparr>rt_config := t'\<rparr>)))"

lemma mutations_report:
  "mutation_reports enable_mutation" "mutation_reports disable_mutation"
  "mutation_reports (channel_mutation channel)"
  unfolding mutation_reports_def enable_mutation_def disable_mutation_def channel_mutation_def
  by (auto simp: record_of_def bump_def intro!: change_matchesI split: if_splits)

lemma persist_release:
  assumes i: "registry_ok i" and k: "position_of name (dc_targets (in_config i)) = Some k"
    and m: "mutation_reports mutate" "mutate (dc_targets (in_config i) ! k) = (u, Some changed)"
    and valid: "validate_config candidate = Inr ()"
    and cand: "candidate = (in_config i)\<lparr>dc_targets := (dc_targets (in_config i))[k := u]\<rparr>"
    and t: "bt_get (in_targets i) name = Some t"
  defines "t1 \<equiv> bump (t\<lparr>rt_config := u\<rparr>)"
  defines "i' \<equiv> i\<lparr>in_config := candidate, in_targets := bt_modify name (\<lambda>_. t1) (in_targets i)\<rparr>"
  shows "registry_ok i' \<and> replicates i [publish name changed t1] i'"
proof -
  let ?ts = "dc_targets (in_config i)"
  note wf = registry_wf [OF i] and distinct = registry_distinct [OF i]
  have old: "rt_config t = ?ts ! k" and name: "tc_name (?ts ! k) = name"
    using consistentD [OF i, of name] t position_of_Some [OF k] by auto
  have "mutate (rt_config t) = (u, Some changed)" using m(2) old by simp
  from m(1) [unfolded mutation_reports_def, rule_format, OF this, of name]
  have keep: "tc_name u = name" and match: "change_matches name t (publish name changed t1) t1"
    by (simp_all add: t1_def old name)
  have "map_option rt_config (bt_get (in_targets i') n) =
      find (\<lambda>t. tc_name t = n) (dc_targets (in_config i'))" for n
    using consistentD [OF i, of n] t keep find_update [OF k distinct, of n u]
      find_update_same [OF k distinct, of u]
    by (auto simp: i'_def cand t1_def bump_def)
  then have "registry_ok i'"
    using valid wf by (simp add: registry_ok_def consistent_def i'_def bt_wf_modify)
  moreover have "snapshot_from i' =
      snapshot_from (i\<lparr>in_targets := bt_modify name (\<lambda>_. t1) (in_targets i)\<rparr>)"
    by (simp add: i'_def cand snapshot_from_def)
  ultimately show ?thesis
    using change_replicates [OF wf t match] by (simp add: replicates_def)
qed

lemma persist_steady:
  assumes "mutation_reports mutate"
  shows "steady (persist_section pt name mutate)"
proof (rule steadyI)
  fix c
  have "wp (bind_task (validate_and_persist pt candidate) (\<lambda>r. case r of
        Inl e \<Rightarrow> Release i [] (Return (Inl e))
      | Inr _ \<Rightarrow> (case bt_get (in_targets i) name of
            None \<Rightarrow> Panic ''configured target must have runtime state''
          | Some t \<Rightarrow> (let t1 = bump (t\<lparr>rt_config := dc_targets candidate ! k\<rparr>) in
              Release (i\<lparr>in_config := candidate,
                   in_targets := bt_modify name (\<lambda>_. t1) (in_targets i)\<rparr>)
                [publish name changed t1] (Return (Inr ())))))) kept (Guarded c) (Held i)"
    if i: "registry_ok i" and k: "position_of name (dc_targets (in_config i)) = Some k"
      and u: "mutate (dc_targets (in_config i) ! k) = (u, Some changed)"
      and cand: "candidate = (in_config i)\<lparr>dc_targets := (dc_targets (in_config i))[k := u]\<rparr>"
    for i k u changed candidate
  proof -
    obtain t where t: "bt_get (in_targets i) name = Some t"
      using consistentD [OF i, of name] position_of_Some [OF k] by auto
    have "dc_targets candidate ! k = u" using cand position_of_Some [OF k] by simp
    with i t show ?thesis unfolding wp_bind
      using persist_release [OF i k assms u _ cand t]
      by (intro wp_validate_persist) (auto simp: Let_def)
  qed
  then show "wp (persist_section pt name mutate) kept (Guarded c) Free"
    unfolding persist_section_def
    by (auto simp: Let_def split: option.splits prod.splits simp del: wp_bind)
qed

lemma settles_persist: "mutation_reports mutate \<Longrightarrow> settles (persist_target_change pt name mutate)"
  unfolding persist_target_change_def by (intro settles_mutations persist_steady)

section \<open>Requests\<close>

lemma settles_operations:
  "settles (add pt name from enabled start_paused start_muted)"
  "settles (remove pt name)" "settles (rename pt name replacement)"
  "settles (save_channel pt name ch overwrite)"
  unfolding add_def remove_def rename_def save_channel_def
  by (intro settles_mutations add_steady remove_steady rename_steady calm_steady
      calm_save_channel_section)+

lemma settles_config_operations:
  "settles (enable pt name)" "settles (disable pt name)" "settles (set_channel pt name channel)"
  unfolding enable_def disable_def set_channel_def
  by (intro settles_then settles_persist mutations_report calm_settles calm_queries calm_if
      calm_then calm_stop calm_Return)+

lemma settles_answer: "settles p \<Longrightarrow> settles (answer p f)"
  unfolding answer_def by (rule settles_then) (auto intro: calm_settles calm_Return)

lemma settles_target: "(\<And>name. settles (p name)) \<Longrightarrow> target \<noteq> None \<Longrightarrow> settles (on_target target p)"
  by (auto simp: on_target_def)

lemma settles_dispatch:
  assumes "target = None \<Longrightarrow> op = NodeListChannels"
  shows "settles (dispatch_operation pt target op)"
proof (cases "op = NodeListChannels")
  case True
  then show ?thesis by (simp add: settles_answer calm_settles calm_list_channels)
next
  case False
  then have "target \<noteq> None" using assms by blast
  with False show ?thesis
    by (cases op; simp only: dispatch_operation.simps)
      (intro settles_target settles_answer settles_operations settles_config_operations settles_then
        calm_settles [OF calm_start] calm_settles [OF calm_stop] calm_settles [OF calm_restart]
        calm_settles [OF calm_mpv_command] calm_settles [OF calm_if] calm_settles [OF calm_Return]
        calm_Return calm_restart; simp)+
qed

lemma settles_handle: "settles (handle_request pt r)"
proof (cases "validate_request r")
  case (Inl e)
  then show ?thesis by (simp add: handle_request_def calm_settles calm_Return)
next
  case (Inr u)
  then have "rq_target r = None \<Longrightarrow> rq_operation r = NodeListChannels"
    unfolding validate_request_def by (cases "rq_operation r") (simp_all split: if_splits)
  then have "settles (dispatch_operation pt (rq_target r) (rq_operation r))"
    by (rule settles_dispatch)
  with Inr show ?thesis
    by (simp add: handle_request_def settles_bind calm_settles calm_Return)
qed

end
