(* ===== verification/Sequential.thy ===== *)
theory Sequential
  imports Guarded
begin

text \<open>
  One task run alone against an environment: its files, the events it sends, the jobs it
  starts, and the answers to everything else it asks. \<open>run\<close> is total; a panic has no result.
  \<open>swp\<close> is the weakest precondition of \<open>run\<close> over all answers.
\<close>

section \<open>Files\<close>

type_synonym files = "path \<Rightarrow> content option"

definition below :: "path \<Rightarrow> path \<Rightarrow> bool" where
  "below p q \<longleftrightarrow> take (length p) q = p"

fun io_done :: "io_op \<Rightarrow> files \<Rightarrow> files" where
  "io_done (CopyFile a b) fs = fs(b := fs a)"
| "io_done (CopyDirectory a b) fs =
     (\<lambda>q. if below b q then
            (case fs (a @ drop (length b) q) of None \<Rightarrow> fs q | Some c \<Rightarrow> Some c)
          else fs q)"
| "io_done (WriteFile p c) fs = fs(p \<mapsto> c)"
| "io_done (CreateNew p) fs = fs(p \<mapsto> Bytes [])"
| "io_done (WriteOpen p c) fs = fs(p \<mapsto> c)"
| "io_done (RenamePath a b) fs =
     (\<lambda>q. if below b q then fs (a @ drop (length b) q) else if below a q then None else fs q)"
| "io_done (RemoveFile p) fs = fs(p := None)"
| "io_done (RemoveDirAll p) fs = (\<lambda>q. if below p q then None else fs q)"
| "io_done (OpenAppend p) fs = (if fs p = None then fs(p \<mapsto> Bytes []) else fs)"
| "io_done _ fs = fs"

text \<open>A failed operation may have written part of what it writes.\<close>

fun io_failed :: "io_op \<Rightarrow> files \<Rightarrow> files \<Rightarrow> files" where
  "io_failed (CopyFile a b) g fs = fs(b := g b)"
| "io_failed (CopyDirectory a b) g fs = (\<lambda>q. if below b q then g q else fs q)"
| "io_failed (WriteFile p c) g fs = fs(p := g p)"
| "io_failed (WriteOpen p c) g fs = fs(p := g p)"
| "io_failed (RemoveDirAll p) g fs = (\<lambda>q. if below p q then g q else fs q)"
| "io_failed _ g fs = fs"

definition io_after :: "io_op \<Rightarrow> (io_error, unit) result \<Rightarrow> files \<Rightarrow> files \<Rightarrow> files" where
  "io_after op r g fs = (case r of Inr _ \<Rightarrow> io_done op fs | Inl _ \<Rightarrow> io_failed op g fs)"

fun touches :: "io_op \<Rightarrow> path \<Rightarrow> bool" where
  "touches (CopyFile a b) q = (q = b)"
| "touches (CopyDirectory a b) q = below b q"
| "touches (WriteFile p c) q = (q = p)"
| "touches (CreateNew p) q = (q = p)"
| "touches (WriteOpen p c) q = (q = p)"
| "touches (RenamePath a b) q = (below a q \<or> below b q)"
| "touches (RemoveFile p) q = (q = p)"
| "touches (RemoveDirAll p) q = below p q"
| "touches (OpenAppend p) q = (q = p)"
| "touches _ q = False"

lemma io_after_other: "\<not> touches op q \<Longrightarrow> io_after op r g fs q = fs q"
  by (cases op) (auto simp: io_after_def split: sum.splits)

section \<open>Running a task\<close>

record world =
  wd_inner :: inner
  wd_files :: files
  wd_log :: "event list"
  wd_jobs :: "job list"

text \<open>The answers of the environment, by the number of the question.\<close>

record answers =
  or_says :: "nat \<Rightarrow> bool"
  or_reply :: "nat \<Rightarrow> json option"
  or_line :: "nat \<Rightarrow> json option option"
  or_did :: "nat \<Rightarrow> (io_error, unit) result"
  or_listing :: "nat \<Rightarrow> (io_error, dir_entry list) result"
  or_garbage :: "nat \<Rightarrow> files"

primrec run :: "'r task \<Rightarrow> answers \<Rightarrow> nat \<Rightarrow> world \<Rightarrow> 'r option \<times> nat \<times> world" where
  "run (Return r) env n w = (Some r, n, w)"
| "run (Panic m) env n w = (None, n, w)"
| "run (Acquire k) env n w = run (k (wd_inner w)) env n w"
| "run (Release i es p) env n w = run p env n (w\<lparr>wd_inner := i, wd_log := wd_log w @ es\<rparr>)"
| "run (Send e p) env n w = run p env n (w\<lparr>wd_log := wd_log w @ [e]\<rparr>)"
| "run (LockMutations p) env n w = run p env n w"
| "run (UnlockMutations p) env n w = run p env n w"
| "run (Connect s k) env n w = run (k (or_says env n)) env (Suc n) w"
| "run (Exchange s c k) env n w = run (k (or_reply env n)) env (Suc n) w"
| "run (WriteLines s cs k) env n w = run (k (or_says env n)) env (Suc n) w"
| "run (ReadLine s k) env n w = run (k (or_line env n)) env (Suc n) w"
| "run (Poll s b k) env n w = run (k (or_says env n)) env (Suc n) w"
| "run (PathExists q k) env n w = run (k (or_says env n)) env (Suc n) w"
| "run (Io op k) env n w =
     run (k (or_did env n)) env (Suc n)
       (w\<lparr>wd_files := io_after op (or_did env n) (or_garbage env n) (wd_files w)\<rparr>)"
| "run (ReadDir q k) env n w = run (k (or_listing env n)) env (Suc n) w"
| "run (Sleep d p) env n w = run p env n w"
| "run (Spawn j p) env n w = run p env n (w\<lparr>wd_jobs := wd_jobs w @ [j]\<rparr>)"

primrec swp :: "'r task \<Rightarrow> ('r \<Rightarrow> world \<Rightarrow> bool) \<Rightarrow> world \<Rightarrow> bool" where
  "swp (Return r) Q w = Q r w"
| "swp (Panic m) Q w = False"
| "swp (Acquire k) Q w = swp (k (wd_inner w)) Q w"
| "swp (Release i es p) Q w = swp p Q (w\<lparr>wd_inner := i, wd_log := wd_log w @ es\<rparr>)"
| "swp (Send e p) Q w = swp p Q (w\<lparr>wd_log := wd_log w @ [e]\<rparr>)"
| "swp (LockMutations p) Q w = swp p Q w"
| "swp (UnlockMutations p) Q w = swp p Q w"
| "swp (Connect s k) Q w = (\<forall>x. swp (k x) Q w)"
| "swp (Exchange s c k) Q w = (\<forall>x. swp (k x) Q w)"
| "swp (WriteLines s cs k) Q w = (\<forall>x. swp (k x) Q w)"
| "swp (ReadLine s k) Q w = (\<forall>x. swp (k x) Q w)"
| "swp (Poll s b k) Q w = (\<forall>x. swp (k x) Q w)"
| "swp (PathExists q k) Q w = (\<forall>x. swp (k x) Q w)"
| "swp (Io op k) Q w = (\<forall>r g. swp (k r) Q (w\<lparr>wd_files := io_after op r g (wd_files w)\<rparr>))"
| "swp (ReadDir q k) Q w = (\<forall>x. swp (k x) Q w)"
| "swp (Sleep d p) Q w = swp p Q w"
| "swp (Spawn j p) Q w = swp p Q (w\<lparr>wd_jobs := wd_jobs w @ [j]\<rparr>)"

lemma swp_run: "swp p Q w \<Longrightarrow> \<exists>r m w'. run p env n w = (Some r, m, w') \<and> Q r w'"
  by (induction p arbitrary: n w) auto

lemma swp_runD: "swp p Q w \<Longrightarrow> run p env n w = (r, m, w') \<Longrightarrow> \<exists>x. r = Some x \<and> Q x w'"
  using swp_run [of p Q w env n] by auto

lemma swp_bind [simp]: "swp (bind_task p g) Q w \<longleftrightarrow> swp p (\<lambda>r. swp (g r) Q) w"
  by (induction p arbitrary: w) simp_all

lemma swp_mono: "swp p Q w \<Longrightarrow> (\<And>r w. Q r w \<Longrightarrow> R r w) \<Longrightarrow> swp p R w"
  by (induction p arbitrary: w) auto

lemma swp_then [simp]:
  "swp (then_task p k) Q w \<longleftrightarrow>
   swp p (\<lambda>r w. case r of Inl e \<Rightarrow> Q (Inl e) w | Inr x \<Rightarrow> swp (k x) Q w) w"
  unfolding then_task_def swp_bind
  by (rule arg_cong [where f = "\<lambda>R. swp p R w"]) (auto simp: fun_eq_iff split: sum.splits)

lemma swp_locked [simp]:
  "swp (locked b k) Q w \<longleftrightarrow>
   (case b (wd_inner w) of (a, i, es) \<Rightarrow>
      swp (k a) Q (w\<lparr>wd_inner := i, wd_log := wd_log w @ es\<rparr>))"
  by (simp add: locked_def split: prod.splits)

lemma swp_mutations [simp]: "swp (with_mutations p) Q w \<longleftrightarrow> swp p Q w"
proof -
  have "(\<lambda>r. swp (UnlockMutations (Return r)) Q) = Q" by (intro ext) simp
  then show ?thesis by (simp add: with_mutations_def)
qed

lemma swp_try_io [simp]:
  "swp (try_io err op) Q w \<longleftrightarrow>
   (\<forall>r g. Q (map_err err r) (w\<lparr>wd_files := io_after op r g (wd_files w)\<rparr>))"
  by (simp add: try_io_def)

lemma swp_ignore_io [simp]:
  "swp (ignore_io op p) Q w \<longleftrightarrow>
   (\<forall>r g. swp p Q (w\<lparr>wd_files := io_after op r g (wd_files w)\<rparr>))"
  by (simp add: ignore_io_def)

section \<open>The configuration file\<close>

text \<open>The configuration file is a file of the configuration root; sockets and logs are kept
  elsewhere.\<close>

definition paths_ok :: "paths \<Rightarrow> bool" where
  "paths_ok pt \<longleftrightarrow>
     (\<exists>f. pt_config_path pt = pt_config_root pt @ [f]) \<and>
     pt_runtime pt \<noteq> pt_config_root pt \<and> pt_logs pt \<noteq> pt_config_root pt"

definition disk_ok :: "paths \<Rightarrow> world \<Rightarrow> bool" where
  "disk_ok pt w \<longleftrightarrow>
     registry_ok (wd_inner w) \<and>
     wd_files w (pt_config_path pt) = Some (TomlText (in_config (wd_inner w)))"

definition keeps_disk :: "paths \<Rightarrow> 'r task \<Rightarrow> bool" where
  "keeps_disk pt p \<longleftrightarrow> (\<forall>w. disk_ok pt w \<longrightarrow> swp p (\<lambda>_. disk_ok pt) w)"

lemma below_append [simp]: "below p (p @ q)"
  by (simp add: below_def)

lemma not_below_shorter: "length q < length p \<Longrightarrow> \<not> below p q"
  by (auto simp: below_def dest: arg_cong [where f = length])

lemma below_same_length: "length p = length q \<Longrightarrow> below p q \<longleftrightarrow> p = q"
  by (auto simp: below_def)

lemma config_temporary_other:
  assumes "paths_ok pt"
  shows "config_temporary pt \<noteq> pt_config_path pt"
    and "length (config_temporary pt) = length (pt_config_path pt)"
proof -
  obtain f where f: "pt_config_path pt = pt_config_root pt @ [f]"
    using assms by (auto simp: paths_ok_def)
  let ?e = "''toml.tmp-'' @ show_nat (pt_pid pt)"
  have tmp: "config_temporary pt = pt_config_root pt @ [segment_stem f @ CHR ''.'' # ?e]"
    by (simp add: config_temporary_def with_extension_def f)
  then show "length (config_temporary pt) = length (pt_config_path pt)" by (simp add: f)
  have "segment_stem f @ CHR ''.'' # ?e \<noteq> f"
  proof (cases "name_extension f")
    case None
    then show ?thesis by (simp add: segment_stem_def)
  next
    case (Some e)
    then obtain b where b: "f = b @ CHR ''.'' # e" "CHR ''.'' \<notin> set e"
      using name_extension_split by blast
    then have "segment_stem f = b" using Some by (simp add: segment_stem_def)
    then show ?thesis using b by auto
  qed
  then show "config_temporary pt \<noteq> pt_config_path pt" by (simp add: f tmp)
qed

text \<open>Replacing a file leaves it as it was on an error and replaced on success.\<close>

lemma replace_file_swp:
  assumes "tmp \<noteq> dest" and "length tmp = length dest"
    and "\<And>e w'. w' = w\<lparr>wd_files := wd_files w'\<rparr> \<Longrightarrow> wd_files w' dest = wd_files w dest \<Longrightarrow> Q (Inl e) w'"
    and "\<And>w'. w' = w\<lparr>wd_files := wd_files w'\<rparr> \<Longrightarrow> wd_files w' dest = Some contents \<Longrightarrow> Q (Inr ()) w'"
  shows "swp (replace_file tmp contents dest) Q w"
proof -
  have "\<not> below tmp dest" "\<not> below dest tmp"
    using below_same_length assms(1,2) by metis+
  then show ?thesis
    unfolding replace_file_def
    using assms(1) assms(3) assms(4)
    by (auto simp: io_after_def below_def split: sum.splits)
qed

lemma disk_cong:
  "registry_ok (wd_inner w') \<Longrightarrow> in_config (wd_inner w') = in_config (wd_inner w) \<Longrightarrow>
   wd_files w' (pt_config_path pt) = wd_files w (pt_config_path pt) \<Longrightarrow> disk_ok pt w \<Longrightarrow> disk_ok pt w'"
  by (simp add: disk_ok_def)

lemma disk_jobs [simp]: "disk_ok pt (w\<lparr>wd_jobs := js\<rparr>) = disk_ok pt w"
  by (simp add: disk_ok_def)

lemma disk_io:
  "\<not> touches op (pt_config_path pt) \<Longrightarrow>
   disk_ok pt (w\<lparr>wd_files := io_after op r g (wd_files w)\<rparr>) = disk_ok pt w"
  by (simp add: disk_ok_def io_after_other)

lemma keeps_Return: "keeps_disk pt (Return r)"
  by (simp add: keeps_disk_def)

lemma keepsI: "(\<And>w. disk_ok pt w \<Longrightarrow> swp p (\<lambda>_. disk_ok pt) w) \<Longrightarrow> keeps_disk pt p"
  unfolding keeps_disk_def by blast

lemma keepsD: "keeps_disk pt p \<Longrightarrow> disk_ok pt w \<Longrightarrow> swp p (\<lambda>_. disk_ok pt) w"
  unfolding keeps_disk_def by blast

lemma keeps_bind:
  assumes "keeps_disk pt p" and "\<And>r. keeps_disk pt (g r)"
  shows "keeps_disk pt (bind_task p g)"
proof (rule keepsI, unfold swp_bind)
  fix w assume w: "disk_ok pt w"
  show "swp p (\<lambda>r. swp (g r) (\<lambda>_. disk_ok pt)) w"
    by (rule swp_mono [OF keepsD [OF assms(1) w]]) (rule keepsD [OF assms(2)])
qed

lemma keeps_then:
  "keeps_disk pt p \<Longrightarrow> (\<And>x. keeps_disk pt (k x)) \<Longrightarrow> keeps_disk pt (then_task p k)"
  unfolding then_task_def by (intro keeps_bind) (auto simp: keeps_Return split: sum.splits)

lemma keeps_locked:
  assumes "body_keeps b" and "\<And>a. keeps_disk pt (k a)"
  shows "keeps_disk pt (locked b k)"
proof (rule keepsI)
  fix w assume w: "disk_ok pt w"
  obtain a i es where b: "b (wd_inner w) = (a, i, es)" by (cases "b (wd_inner w)")
  have "registry_ok (wd_inner w)" using w by (simp add: disk_ok_def)
  with b assms(1) have "registry_ok i" "core i = core (wd_inner w)"
    unfolding body_keeps_def by fastforce+
  then have "disk_ok pt (w\<lparr>wd_inner := i, wd_log := wd_log w @ es\<rparr>)"
    using disk_cong [OF _ _ _ w] core_targets(1) [of i "wd_inner w"] by simp
  from keepsD [OF assms(2) this, of a] b show "swp (locked b k) (\<lambda>_. disk_ok pt) w" by simp
qed

lemma keeps_locked_deferred:
  assumes "body_defers b"
  shows "keeps_disk pt (locked b deferred)"
proof (rule keepsI)
  fix w assume w: "disk_ok pt w"
  obtain a i es where b: "b (wd_inner w) = (a, i, es)" by (cases "b (wd_inner w)")
  have "registry_ok (wd_inner w)" using w by (simp add: disk_ok_def)
  with b assms have "registry_ok i" "core i = core (wd_inner w)"
    unfolding body_defers_def by fastforce+
  then have "disk_ok pt (w\<lparr>wd_inner := i, wd_log := log\<rparr>)" for log
    using disk_cong [OF _ _ _ w] core_targets(1) [of i "wd_inner w"] by simp
  then show "swp (locked b deferred) (\<lambda>_. disk_ok pt) w"
    using b by (cases a) (simp_all add: deferred_def)
qed

lemma keeps_Io:
  "\<not> touches op (pt_config_path pt) \<Longrightarrow> (\<And>r. keeps_disk pt (k r)) \<Longrightarrow> keeps_disk pt (Io op k)"
  by (simp add: keeps_disk_def disk_io)

lemma keeps_steps:
  "(\<And>x. keeps_disk pt (k1 x)) \<Longrightarrow> keeps_disk pt (Connect n k1)"
  "(\<And>x. keeps_disk pt (k2 x)) \<Longrightarrow> keeps_disk pt (Exchange n c k2)"
  "(\<And>x. keeps_disk pt (k1 x)) \<Longrightarrow> keeps_disk pt (Poll n b k1)"
  "(\<And>x. keeps_disk pt (k1 x)) \<Longrightarrow> keeps_disk pt (PathExists q k1)"
  "(\<And>x. keeps_disk pt (k5 x)) \<Longrightarrow> keeps_disk pt (ReadDir q k5)"
  "keeps_disk pt p \<Longrightarrow> keeps_disk pt (Spawn j p)"
  by (auto simp: keeps_disk_def)

lemma keeps_cases:
  "(b \<Longrightarrow> keeps_disk pt p) \<Longrightarrow> (\<not> b \<Longrightarrow> keeps_disk pt q) \<Longrightarrow> keeps_disk pt (if b then p else q)"
  "(\<And>e. keeps_disk pt (f e)) \<Longrightarrow> (\<And>x. keeps_disk pt (g x)) \<Longrightarrow>
   keeps_disk pt (case r of Inl e \<Rightarrow> f e | Inr x \<Rightarrow> g x)"
  "keeps_disk pt p \<Longrightarrow> (\<And>y. keeps_disk pt (h y)) \<Longrightarrow>
   keeps_disk pt (case opt of None \<Rightarrow> p | Some y \<Rightarrow> h y)"
  "(\<And>x y. keeps_disk pt (c x y)) \<Longrightarrow> keeps_disk pt (case pr of (x, y) \<Rightarrow> c x y)"
  by (auto split: sum.splits option.splits prod.splits)

lemma keeps_try_io: "\<not> touches op (pt_config_path pt) \<Longrightarrow> keeps_disk pt (try_io err op)"
  unfolding try_io_def by (intro keeps_Io keeps_Return)

lemma keeps_try_all:
  "\<forall>op \<in> set ops. \<not> touches op (pt_config_path pt) \<Longrightarrow> keeps_disk pt (try_all err ops)"
  by (induction err ops rule: try_all.induct) (auto intro: keeps_Return keeps_then keeps_try_io)

lemma keeps_ignore_io:
  "\<not> touches op (pt_config_path pt) \<Longrightarrow> keeps_disk pt p \<Longrightarrow> keeps_disk pt (ignore_io op p)"
  unfolding ignore_io_def by (intro keeps_Io)

lemma keeps_mutations: "keeps_disk pt p \<Longrightarrow> keeps_disk pt (with_mutations p)"
  by (simp add: keeps_disk_def)

lemmas keeps_intros =
  keeps_Return keeps_bind keeps_then keeps_locked keeps_locked_deferred keeps_steps keeps_cases
  read_inner_keeps

section \<open>Paths that are not the configuration file\<close>

text \<open>The files of a target and the channels lie at least two levels below the
  configuration root.\<close>

lemma config_length: "paths_ok pt \<Longrightarrow> length (pt_config_path pt) = Suc (length (pt_config_root pt))"
  by (auto simp: paths_ok_def)

lemma plain_literals:
  "plain_segment ''targets''" "plain_segment ''channels''" "plain_segment ''scripts''"
  "plain_segment ''mpv.conf''"
  by (simp_all add: plain_segment_def)

lemma target_directory_plain:
  "validate_target_name name = Inr () \<Longrightarrow>
   target_directory pt name = pt_config_root pt @ [''targets'', name]"
  by (simp add: target_directory_def plain_join plain_literals valid_name_plain)

lemma join_length:
  "plain_segment s \<Longrightarrow> length (path_join p s) = Suc (length p)"
  by (simp add: plain_join)

lemma remove_directory_length:
  assumes "validate_target_name name = Inr ()"
  shows "length (remove_directory pt name) = length (pt_config_root pt) + 2"
proof -
  have "CHR ''/'' \<notin> set (show_nat n)" for n using show_nat_chars by blast
  then have "plain_segment (''.remove-'' @ name @ ''-'' @ show_nat (pt_pid pt))"
    using valid_name_plain [OF assms] by (simp add: plain_segment_def)
  then show ?thesis by (simp add: remove_directory_def plain_join plain_literals)
qed

lemma deep_safe:
  assumes "paths_ok pt" and "length (pt_config_root pt) + 2 \<le> length q"
  shows "pt_config_path pt \<noteq> q" and "\<not> below q (pt_config_path pt)"
  using assms config_length [OF assms(1)] not_below_shorter [of "pt_config_path pt" q] by auto

lemma runtime_safe:
  assumes "paths_ok pt" and "plain_segment s"
  shows "pt_config_path pt \<noteq> path_join (pt_runtime pt) s"
    and "pt_config_path pt \<noteq> path_join (pt_logs pt) s"
  using assms by (auto simp: paths_ok_def plain_join)

lemma channels_length [simp]: "length (channels_directory pt) = Suc (length (pt_config_root pt))"
  by (simp add: channels_directory_def plain_join plain_literals)

section \<open>Every operation keeps the configuration file\<close>

lemma keeps_query [intro]: "keeps_disk pt (query_target f name)"
  unfolding query_target_def by (intro keeps_intros)

lemma keeps_queries [intro]:
  "keeps_disk pt (get_target_record name)" "keeps_disk pt (get_target_config name)"
  "keeps_disk pt (target_disabled name)" "keeps_disk pt (target_stopped name)"
  "keeps_disk pt (target_online name)"
  by (auto simp: get_target_record_def get_target_config_def target_disabled_def
      target_stopped_def target_online_def)

lemma keeps_sockets [intro]:
  "keeps_disk pt (socket_is_live name)" "keeps_disk pt (wait_for_socket name)"
  "keeps_disk pt (wait_for_socket_gone name)" "keeps_disk pt (ipc_command name c)"
  "keeps_disk pt (schedule_recovery name)"
  unfolding socket_is_live_def wait_for_socket_def wait_for_socket_gone_def ipc_command_def
    schedule_recovery_def by (intro keeps_intros)+

lemma keeps_marks [intro]:
  "keeps_disk pt (clear_observed name)" "keeps_disk pt (mark_online name)"
  "keeps_disk pt (mark_offline name)" "keeps_disk pt (clear_launching name)"
  unfolding clear_observed_def mark_online_def mark_offline_def clear_launching_def
  by (intro keeps_intros body_keeps_intros body_defers_intros)+

lemma keeps_launch:
  assumes ok: "paths_ok pt" and name: "validate_target_name name = Inr ()"
  shows "keeps_disk pt (launch pt name)"
proof -
  have socket: "\<not> touches (RemoveFile (socket_path pt name)) (pt_config_path pt)"
    using runtime_safe(1) [OF ok valid_name_suffix_plain [OF name, of "''.sock''"]]
    by (simp add: socket_path_def)
  have "plain_segment (name @ ''.log'')" by (rule valid_name_suffix_plain [OF name]) simp
  then have "\<forall>op \<in> set [CreateDirAll (pt_runtime pt), CreateDirAll (pt_logs pt),
      OpenAppend (path_join (pt_logs pt) (name @ ''.log'')),
      CloneHandle (path_join (pt_logs pt) (name @ ''.log'')),
      SpawnMpv (mpv_arguments pt name config)]. \<not> touches op (pt_config_path pt)" for config
    using runtime_safe(2) [OF ok] by simp
  then show ?thesis
    unfolding launch_def using socket
    by (intro keeps_intros keeps_queries keeps_sockets keeps_marks keeps_try_io keeps_try_all
        keeps_ignore_io) auto
qed

lemma keeps_start:
  "paths_ok pt \<Longrightarrow> validate_target_name name = Inr () \<Longrightarrow> keeps_disk pt (start pt name)"
  unfolding start_def
  by (intro keeps_intros body_keeps_intros keeps_launch keeps_queries keeps_sockets keeps_marks)

lemma keeps_quit [intro]: "keeps_disk pt (quit_mpv name)"
  unfolding quit_mpv_def by (intro keeps_intros keeps_sockets)

lemma keeps_stop [intro]: "keeps_disk pt (stop name)"
  unfolding stop_def by (intro keeps_intros body_keeps_intros keeps_quit keeps_queries keeps_marks)

lemma keeps_disabled_off [intro]: "keeps_disk pt (ensure_disabled_off name)"
  unfolding ensure_disabled_off_def
  by (intro keeps_intros body_keeps_intros keeps_quit keeps_sockets keeps_marks)

lemma keeps_restart:
  "paths_ok pt \<Longrightarrow> validate_target_name name = Inr () \<Longrightarrow> keeps_disk pt (restart pt name)"
  unfolding restart_def
  by (intro keeps_intros keeps_disabled_off keeps_stop keeps_start keeps_queries)

lemma keeps_mpv_command [intro]: "keeps_disk pt (mpv_command name c args)"
  unfolding mpv_command_def by (intro keeps_intros keeps_queries keeps_sockets)

lemma keeps_list_channels [intro]: "keeps_disk pt (list_channels pt)"
  unfolding list_channels_def by (intro keeps_intros)

lemma keeps_save_channel:
  assumes ok: "paths_ok pt" and ch: "valid_channel_name channel"
  shows "keeps_disk pt (save_channel pt name channel overwrite)"
proof -
  have plain: "plain_segment channel"
    using ch by (simp add: valid_channel_name_def file_name_self_iff)
  then have tmp: "plain_segment (''.'' @ channel @ ''.tmp-'' @ show_nat (pt_pid pt))"
    using show_nat_chars by (fastforce simp: plain_segment_def)
  have "keeps_disk pt (replace_file (channel_temporary pt channel) contents
      (path_join (channels_directory pt) channel))" for contents
    unfolding replace_file_def
    by (intro keeps_intros keeps_try_io keeps_try_all keeps_ignore_io)
      (use deep_safe [OF ok] join_length [OF plain] join_length [OF tmp] in
        \<open>auto simp: channel_temporary_def\<close>)
  then show ?thesis
    unfolding save_channel_def save_channel_section_def
    by (intro keeps_mutations keeps_intros keeps_mpv_command keeps_try_io) auto
qed

section \<open>Changes of the configuration\<close>

text \<open>Two worlds that differ in files only, and not in the configuration file.\<close>

definition same_but_files :: "world \<Rightarrow> world \<Rightarrow> bool" where
  "same_but_files w w' \<longleftrightarrow> w' = w\<lparr>wd_files := wd_files w'\<rparr>"

lemma same_fields:
  assumes "same_but_files w w'"
  shows "wd_inner w' = wd_inner w" and "wd_log w' = wd_log w" and "wd_jobs w' = wd_jobs w"
  using arg_cong [OF assms [unfolded same_but_files_def], of wd_inner]
    arg_cong [OF assms [unfolded same_but_files_def], of wd_log]
    arg_cong [OF assms [unfolded same_but_files_def], of wd_jobs] by simp_all

lemma validate_persist_swp:
  assumes ok: "paths_ok pt"
    and err: "\<And>e w'. same_but_files w w' \<Longrightarrow>
      wd_files w' (pt_config_path pt) = wd_files w (pt_config_path pt) \<Longrightarrow> Q (Inl e) w'"
    and written: "\<And>w'. validate_config c = Inr () \<Longrightarrow> same_but_files w w' \<Longrightarrow>
      wd_files w' (pt_config_path pt) = Some (TomlText c) \<Longrightarrow> Q (Inr ()) w'"
  shows "swp (validate_and_persist pt c) Q w"
proof (cases "validate_config c")
  case (Inl e)
  then show ?thesis using err [of w] by (simp add: validate_and_persist_def same_but_files_def)
next
  case (Inr u)
  have "swp (replace_file (config_temporary pt) (TomlText c) (pt_config_path pt)) Q w"
    using config_temporary_other [OF ok] err written Inr
    by (intro replace_file_swp) (auto simp: same_but_files_def)
  moreover have "w\<lparr>wd_files := wd_files w\<rparr> = w" by simp
  ultimately show ?thesis
    using Inr err [of w]
    by (auto simp: validate_and_persist_def persist_config_def io_after_def same_but_files_def
        split: sum.splits)
qed

lemma persist_section_disk:
  assumes ok: "paths_ok pt" and m: "mutation_reports mutate"
  shows "keeps_disk pt (persist_section pt name mutate)"
proof (rule keepsI)
  fix w assume w: "disk_ok pt w"
  let ?i = "wd_inner w"
  have reg: "registry_ok ?i" using w by (simp add: disk_ok_def)
  have same [simp]: "w\<lparr>wd_inner := ?i, wd_log := wd_log w\<rparr> = w" by simp
  show "swp (persist_section pt name mutate) (\<lambda>_. disk_ok pt) w"
  proof (cases "position_of name (dc_targets (in_config ?i))")
    case None
    then show ?thesis using w by (simp add: persist_section_def)
  next
    case (Some k)
    obtain u changed where u: "mutate (dc_targets (in_config ?i) ! k) = (u, changed)" by fastforce
    show ?thesis
    proof (cases changed)
      case None
      then show ?thesis using w Some u by (simp add: persist_section_def)
    next
      case change: (Some ch)
      let ?c = "(in_config ?i)\<lparr>dc_targets := (dc_targets (in_config ?i))[k := u]\<rparr>"
      obtain t where t: "bt_get (in_targets ?i) name = Some t"
        using consistentD [OF reg, of name] position_of_Some [OF Some] by auto
      let ?t = "bump (t\<lparr>rt_config := u\<rparr>)"
      have nth: "dc_targets ?c ! k = u" using position_of_Some [OF Some] by simp
      have release: "registry_ok (?i\<lparr>in_config := ?c, in_targets := bt_modify name (\<lambda>_. ?t) (in_targets ?i)\<rparr>)"
        if "validate_config ?c = Inr ()"
        using persist_release [OF reg Some m _ that refl t] u change by simp
      have "swp (bind_task (validate_and_persist pt ?c) (\<lambda>r. case r of
          Inl e \<Rightarrow> Release ?i [] (Return (Inl e))
        | Inr _ \<Rightarrow> Release (?i\<lparr>in_config := ?c, in_targets := bt_modify name (\<lambda>_. ?t) (in_targets ?i)\<rparr>)
            [publish name ch ?t] (Return (Inr ())))) (\<lambda>_. disk_ok pt) w"
        unfolding swp_bind
        using w release
        by (intro validate_persist_swp [OF ok]) (auto simp: disk_ok_def dest: same_fields)
      then show ?thesis
        using Some u change t nth by (simp add: persist_section_def Let_def)
    qed
  qed
qed

lemma add_finish_disk:
  assumes ok: "paths_ok pt" and name: "validate_target_name (tc_name target) = Inr ()"
    and w: "disk_ok pt w" and new: "bt_get (in_targets (wd_inner w)) (tc_name target) = None"
  shows "swp (add_finish pt target) (\<lambda>_. disk_ok pt) w"
proof -
  let ?i = "wd_inner w" and ?c = "push_target (in_config (wd_inner w)) target"
  have dir: "\<not> touches (RemoveDirAll (target_directory pt (tc_name target))) (pt_config_path pt)"
    using deep_safe(2) [OF ok] target_directory_plain [OF name] by simp
  have reg: "registry_ok ?i" using w by (simp add: disk_ok_def)
  have commit: "swp (locked (add_commit ?c target) (\<lambda>_. get_target_record (tc_name target)))
      (\<lambda>_. disk_ok pt) w'"
    if valid: "validate_config ?c = Inr ()" and w': "same_but_files w w'"
      "wd_files w' (pt_config_path pt) = Some (TomlText ?c)" for w'
  proof -
    obtain a i es where b: "add_commit ?c target ?i = (a, i, es)" by (cases "add_commit ?c target ?i")
    have "registry_ok i" "in_config i = ?c"
      using add_commit_ok [OF reg new refl valid b] b by (auto simp: add_commit_def Let_def)
    then have "disk_ok pt (w'\<lparr>wd_inner := i, wd_log := wd_log w' @ es\<rparr>)"
      using w'(2) by (simp add: disk_ok_def)
    from keepsD [OF keeps_queries(1) this] show ?thesis
      using b same_fields [OF w'(1)] by simp
  qed
  have "swp (validate_and_persist pt ?c) (\<lambda>r. swp (case r of
      Inl e \<Rightarrow> ignore_io (RemoveDirAll (target_directory pt (tc_name target))) (Return (Inl e))
    | Inr _ \<Rightarrow> locked (add_commit ?c target) (\<lambda>_. get_target_record (tc_name target)))
    (\<lambda>_. disk_ok pt)) w"
    using commit w dir
    by (intro validate_persist_swp [OF ok])
      (auto simp: disk_io disk_ok_def io_after_other simp del: swp_locked dest: same_fields)
  then show ?thesis by (simp add: add_finish_def read_inner_def)
qed

lemma preparation_safe:
  assumes ok: "paths_ok pt" and name: "validate_target_name name = Inr ()"
  shows "\<forall>op \<in> set (preparation pt name from p m). \<not> touches op (pt_config_path pt)"
proof -
  have len: "length (path_join (target_directory pt name) s) = length (pt_config_root pt) + 3"
    if "plain_segment s" for s
    using that by (simp add: join_length target_directory_plain [OF name])
  show ?thesis
    using deep_safe [OF ok, of "path_join (target_directory pt name) ''mpv.conf''"]
      deep_safe [OF ok, of "path_join (target_directory pt name) ''scripts''"]
      len [OF plain_literals(3)] len [OF plain_literals(4)]
    by (auto simp: preparation_def Let_def split: option.splits)
qed

lemma keeps_add:
  assumes ok: "paths_ok pt" and name: "validate_target_name name = Inr ()"
  shows "keeps_disk pt (add pt name from enabled start_paused start_muted)"
  unfolding add_def
proof (rule keeps_mutations, rule keepsI)
  fix w assume w: "disk_ok pt w"
  have dir: "\<not> touches (RemoveDirAll (target_directory pt name)) (pt_config_path pt)"
    using deep_safe(2) [OF ok] target_directory_plain [OF name] by simp
  show "swp (add_section pt name from enabled start_paused start_muted) (\<lambda>_. disk_ok pt) w"
  proof (cases "add_lookup name from (wd_inner w)")
    case (Inl e)
    then show ?thesis using w by (simp add: add_section_def read_inner_def)
  next
    case (Inr ch)
    let ?t = "\<lparr>tc_name = name, tc_disabled = \<not> enabled, tc_channel = ch\<rparr>"
    let ?K = "\<lambda>w'. disk_ok pt w' \<and> wd_inner w' = wd_inner w"
    have new: "bt_get (in_targets (wd_inner w)) name = None"
      using Inr by (auto simp: add_lookup_def split: if_splits)
    have prep: "swp (try_all ConfigError ops) (\<lambda>_. ?K) v"
      if "\<forall>op \<in> set ops. \<not> touches op (pt_config_path pt)" "?K v" for ops v
      using that
    proof (induction ops arbitrary: v)
      case (Cons op ops)
      then show ?case by (auto simp: disk_io split: sum.splits)
    qed simp
    have "swp (try_all ConfigError (preparation pt name from start_paused start_muted)) (\<lambda>r. swp
      (case r of Inl e \<Rightarrow> ignore_io (RemoveDirAll (target_directory pt name)) (Return (Inl e))
       | Inr _ \<Rightarrow> add_finish pt ?t) (\<lambda>_. disk_ok pt)) w"
      by (rule swp_mono [OF prep [OF preparation_safe [OF ok name]]])
        (use w new name dir add_finish_disk [OF ok] in \<open>auto simp: disk_io split: sum.splits\<close>)
    then show ?thesis using Inr w by (simp add: add_section_def read_inner_def)
  qed
qed

lemma remove_finish_disk:
  assumes ok: "paths_ok pt" and name: "validate_target_name name = Inr ()"
  shows "keeps_disk pt (remove_finish pt name)"
proof (rule keepsI)
  fix w assume w: "disk_ok pt w"
  let ?i = "wd_inner w" and ?c = "retain_other (in_config (wd_inner w)) name"
  let ?after = "PathExists (remove_directory pt name) (\<lambda>moved.
      if moved then try_io ConfigError (RemoveDirAll (remove_directory pt name)) else Return (Inr ()))"
  let ?undo = "\<lambda>e. PathExists (remove_directory pt name) (\<lambda>moved.
      if moved then ignore_io (RenamePath (remove_directory pt name) (target_directory pt name))
        (Return (Inl e)) else Return (Inl e))"
  have reg: "registry_ok ?i" using w by (simp add: disk_ok_def)
  have safe: "\<not> touches (RemoveDirAll (remove_directory pt name)) (pt_config_path pt)"
    "\<not> touches (RenamePath (remove_directory pt name) (target_directory pt name)) (pt_config_path pt)"
    using deep_safe(2) [OF ok] remove_directory_length [OF name] target_directory_plain [OF name]
    by simp_all
  then have after: "keeps_disk pt ?after" and undo: "keeps_disk pt (?undo e)" for e
    by (intro keeps_intros keeps_try_io keeps_ignore_io; simp)+
  have commit: "swp (locked (remove_commit ?c name) (\<lambda>_. ?after)) (\<lambda>_. disk_ok pt) w'"
    if valid: "validate_config ?c = Inr ()" and w': "same_but_files w w'"
      "wd_files w' (pt_config_path pt) = Some (TomlText ?c)" for w'
  proof -
    obtain a i es where b: "remove_commit ?c name ?i = (a, i, es)" by (cases "remove_commit ?c name ?i")
    have "registry_ok i" "in_config i = ?c"
      using remove_commit_ok [OF reg refl valid b] b by (auto simp: remove_commit_def Let_def)
    then have "disk_ok pt (w'\<lparr>wd_inner := i, wd_log := wd_log w' @ es\<rparr>)"
      using w'(2) by (simp add: disk_ok_def)
    from keepsD [OF after this] show ?thesis using b same_fields [OF w'(1)] by simp
  qed
  have "swp (?undo e) (\<lambda>_. disk_ok pt) w'"
    if "same_but_files w w'" "wd_files w' (pt_config_path pt) = wd_files w (pt_config_path pt)" for e w'
  proof (rule keepsD [OF undo])
    show "disk_ok pt w'" using that w same_fields [OF that(1)] by (simp add: disk_ok_def)
  qed
  then have "swp (validate_and_persist pt ?c) (\<lambda>r. swp (case r of Inl e \<Rightarrow> ?undo e
      | Inr _ \<Rightarrow> locked (remove_commit ?c name) (\<lambda>_. ?after)) (\<lambda>_. disk_ok pt)) w"
    using commit by (intro validate_persist_swp [OF ok]) (simp_all only: sum.case)
  then show "swp (remove_finish pt name) (\<lambda>_. disk_ok pt) w"
    by (simp add: remove_finish_def read_inner_def)
qed

lemma keeps_remove:
  assumes ok: "paths_ok pt" and name: "validate_target_name name = Inr ()"
  shows "keeps_disk pt (remove pt name)"
proof -
  have "\<not> touches (RenamePath (target_directory pt name) (remove_directory pt name)) (pt_config_path pt)"
    using deep_safe(2) [OF ok] remove_directory_length [OF name] target_directory_plain [OF name]
    by simp
  then show ?thesis
    unfolding remove_def remove_section_def
    by (intro keeps_mutations keeps_intros keeps_queries keeps_stop keeps_try_io
        remove_finish_disk [OF ok name])
qed

lemma rename_finish_disk:
  assumes ok: "paths_ok pt" and names: "validate_target_name name = Inr ()"
      "validate_target_name replacement = Inr ()"
    and w: "disk_ok pt w" and lookup: "rename_lookup name replacement (wd_inner w) = Inr ()"
  shows "swp (rename_finish pt name replacement) (\<lambda>_. disk_ok pt) w"
proof -
  let ?i = "wd_inner w"
  have reg: "registry_ok ?i" using w by (simp add: disk_ok_def)
  have known: "bt_get (in_targets ?i) name \<noteq> None" "bt_get (in_targets ?i) replacement = None"
    using lookup by (auto simp: rename_lookup_def split: option.splits if_splits)
  have safe: "\<not> touches (RenamePath (target_directory pt replacement) (target_directory pt name))
      (pt_config_path pt)"
    using deep_safe(2) [OF ok] target_directory_plain names by simp
  let ?commit = "\<lambda>candidate. locked (rename_commit candidate name replacement) (\<lambda>r. case r of
      None \<Rightarrow> Panic ''checked target exists'' | Some _ \<Rightarrow> get_target_record replacement)"
  have commit: "swp (?commit c) (\<lambda>_. disk_ok pt) w'"
    if c: "rename_first (in_config ?i) name replacement = Some c" and valid: "validate_config c = Inr ()"
      and w': "same_but_files w w'" "wd_files w' (pt_config_path pt) = Some (TomlText c)" for c w'
  proof -
    obtain a i es where b: "rename_commit c name replacement ?i = (a, i, es)"
      by (cases "rename_commit c name replacement ?i")
    have r: "a \<noteq> None" "registry_ok i" using rename_commit_ok [OF reg known c valid b] by auto
    have "in_config i = c" using b by (auto simp: rename_commit_def Let_def split: option.splits)
    with r w'(2) have "disk_ok pt (w'\<lparr>wd_inner := i, wd_log := wd_log w' @ es\<rparr>)"
      by (simp add: disk_ok_def)
    from keepsD [OF keeps_queries(1) this] show ?thesis
      using b r(1) same_fields [OF w'(1)] by auto
  qed
  have "swp (validate_and_persist pt c) (\<lambda>r. swp (case r of
      Inl e \<Rightarrow> ignore_io (RenamePath (target_directory pt replacement) (target_directory pt name))
        (Return (Inl e))
    | Inr _ \<Rightarrow> ?commit c) (\<lambda>_. disk_ok pt)) w"
    if "rename_first (in_config ?i) name replacement = Some c" for c
    using commit [OF that] w safe
    by (intro validate_persist_swp [OF ok])
      (auto simp: disk_io disk_ok_def io_after_other simp del: swp_locked dest: same_fields)
  then show ?thesis
    using w by (simp add: rename_finish_def read_inner_def split: option.splits)
qed

lemma keeps_rename:
  assumes ok: "paths_ok pt" and names: "validate_target_name name = Inr ()"
      "validate_target_name replacement = Inr ()"
  shows "keeps_disk pt (rename pt name replacement)"
  unfolding rename_def
proof (rule keeps_mutations, rule keepsI)
  fix w assume w: "disk_ok pt w"
  have "\<not> touches (RenamePath (target_directory pt name) (target_directory pt replacement))
      (pt_config_path pt)"
    using deep_safe(2) [OF ok] target_directory_plain names by simp
  then show "swp (rename_section pt name replacement) (\<lambda>_. disk_ok pt) w"
    using w rename_finish_disk [OF ok names]
    by (cases "rename_lookup name replacement (wd_inner w)")
      (auto simp: rename_section_def read_inner_def disk_io split: sum.splits)
qed

lemma keeps_config_operations:
  assumes ok: "paths_ok pt"
  shows "keeps_disk pt (enable pt name)" "keeps_disk pt (disable pt name)"
    "keeps_disk pt (set_channel pt name channel)"
  unfolding enable_def disable_def set_channel_def persist_target_change_def
  by (intro keeps_intros keeps_mutations persist_section_disk [OF ok] mutations_report keeps_queries
      keeps_stop)+

lemma keeps_answer: "keeps_disk pt p \<Longrightarrow> keeps_disk pt (answer p f)"
  unfolding answer_def by (rule keeps_then) (auto intro: keeps_Return)

lemma validate_request_parts:
  assumes "validate_request r = Inr ()"
  shows "validate_operation (rq_operation r) = Inr () \<and>
    (rq_target r = None \<and> rq_operation r = NodeListChannels \<or>
     (\<exists>t. rq_target r = Some t \<and> validate_target_name t = Inr ()))"
  using assms unfolding validate_request_def
  by (cases "rq_target r"; cases "rq_operation r") (simp_all split: if_splits)

lemma keeps_handle:
  assumes ok: "paths_ok pt"
  shows "keeps_disk pt (handle_request pt r)"
proof (cases "validate_request r")
  case (Inl e)
  then show ?thesis by (simp add: handle_request_def keeps_Return)
next
  case (Inr u)
  have op: "keeps_disk pt (dispatch_operation pt (Some name) op)"
    if "validate_target_name name = Inr ()" "validate_operation op = Inr ()" for name op
    using that
    by (cases op rule: validate_operation.cases; simp only: dispatch_operation.simps on_target_def option.case)
      (intro keeps_answer keeps_then keeps_cases keeps_Return keeps_add keeps_remove keeps_rename ok
        keeps_start keeps_restart keeps_stop keeps_save_channel keeps_config_operations
        keeps_mpv_command keeps_list_channels; simp split: if_splits)+
  have "keeps_disk pt (dispatch_operation pt (rq_target r) (rq_operation r))"
    using validate_request_parts [of r] Inr op
    by (auto simp: keeps_answer keeps_list_channels simp del: dispatch_operation.simps)
      (simp add: keeps_answer keeps_list_channels)
  then show ?thesis
    using Inr by (auto simp: handle_request_def intro: keeps_bind keeps_Return)
qed

end
