(* ===== verification/Deploy.thy ===== *)
theory Deploy
  imports Answer Sequential
begin

text \<open>
  \<^verbatim>\<open>crates/deploy-targets/src/main.rs\<close> as the list of operations it performs on the file
  system: \<^verbatim>\<open>run\<close>, \<^verbatim>\<open>Plan::apply\<close> and \<^verbatim>\<open>atomic_write\<close>. The environment's directories
  are absolute paths. What a deployment prints is in Receipts.
\<close>

section \<open>Steps\<close>

datatype deploy_op =
    File io_op
  | SetMode path nat
  | Systemctl "string list"

text \<open>A step performs an operation; if it fails, it performs the clean-up without looking at
  its outcome and ends with the error. \<open>Check\<close> is an error that needs no operation.\<close>

datatype deploy_step =
    Perform deploy_op "io_error \<Rightarrow> deploy_error" "io_op list"
  | Check "(deploy_error, unit) result"

text \<open>The file system: contents, and the permissions that were set explicitly.\<close>

record disk =
  dk_files :: files
  dk_modes :: "path \<Rightarrow> nat option"

fun modes_after :: "io_op \<Rightarrow> (path \<Rightarrow> nat option) \<Rightarrow> path \<Rightarrow> nat option" where
  "modes_after (CreateNew p) m = m(p := None)"
| "modes_after (RenamePath a b) m =
     (\<lambda>q. if below b q then m (a @ drop (length b) q) else if below a q then None else m q)"
| "modes_after (RemoveFile p) m = m(p := None)"
| "modes_after (RemoveDirAll p) m = (\<lambda>q. if below p q then None else m q)"
| "modes_after _ m = m"

fun disk_done :: "deploy_op \<Rightarrow> disk \<Rightarrow> disk" where
  "disk_done (File op) d = d\<lparr>dk_files := io_done op (dk_files d), dk_modes := modes_after op (dk_modes d)\<rparr>"
| "disk_done (SetMode p mode) d = d\<lparr>dk_modes := (dk_modes d)(p \<mapsto> mode)\<rparr>"
| "disk_done (Systemctl args) d = d"

text \<open>A failed operation may have written part of what it writes.\<close>

fun disk_failed :: "deploy_op \<Rightarrow> files \<Rightarrow> disk \<Rightarrow> disk" where
  "disk_failed (File op) g d = d\<lparr>dk_files := io_failed op g (dk_files d)\<rparr>"
| "disk_failed _ g d = d"

text \<open>What the environment answers to the question with this number, and what a failed
  operation leaves behind.\<close>

record deploy_answers =
  da_did :: "nat \<Rightarrow> (io_error, unit) result"
  da_cleaned :: "nat \<Rightarrow> (io_error, unit) result"
  da_garbage :: "nat \<Rightarrow> files"

fun clean_up :: "(io_error, unit) result \<Rightarrow> files \<Rightarrow> io_op list \<Rightarrow> disk \<Rightarrow> disk list" where
  "clean_up r g [] d = []"
| "clean_up r g (op # ops) d =
     (let d' = (case r of Inr _ \<Rightarrow> disk_done (File op) d | Inl _ \<Rightarrow> disk_failed (File op) g d)
      in d' # clean_up r g ops d')"

text \<open>The result of a deployment, and every state of the disk that it goes through.\<close>

fun perform ::
    "deploy_answers \<Rightarrow> nat \<Rightarrow> deploy_step list \<Rightarrow> disk \<Rightarrow> (deploy_error, unit) result \<times> disk list" where
  "perform env n [] d = (Inr (), [d])"
| "perform env n (Check r # steps) d =
     (case r of Inl e \<Rightarrow> (Inl e, [d]) | Inr _ \<Rightarrow> perform env n steps d)"
| "perform env n (Perform op err cleaning # steps) d =
     (case da_did env n of
        Inl x \<Rightarrow>
          (let d' = disk_failed op (da_garbage env n) d in
           (Inl (err x), d # d' # clean_up (da_cleaned env n) (da_garbage env n) cleaning d'))
      | Inr _ \<Rightarrow>
          (let (r, ds) = perform env (Suc n) steps (disk_done op d) in (r, d # ds)))"

section \<open>Where things go\<close>

record deploy_vars =
  dv_home :: "string option"
  dv_config_home :: "string option"
  dv_state_home :: "string option"

definition config_root :: "deploy_vars \<Rightarrow> (deploy_error, path) result" where
  "config_root v =
     (case dv_config_home v of
        Some p \<Rightarrow> Inr (path_join (normal_segments p) ''mpv-targets'')
      | None \<Rightarrow> try_result (ok_or MissingHome (dv_home v))
          (\<lambda>home. Inr (path_join (normal_segments home) ''.config/mpv-targets'')))"

definition user_unit_path :: "deploy_vars \<Rightarrow> (deploy_error, path) result" where
  "user_unit_path v =
     try_result (ok_or MissingHome
         (case dv_config_home v of
            Some p \<Rightarrow> Some (normal_segments p)
          | None \<Rightarrow> map_option (\<lambda>home. path_join (normal_segments home) ''.config'') (dv_home v)))
       (\<lambda>base. Inr (path_join (path_join base ''systemd/user'') ''mpv-targets.service''))"

definition user_daemon_path :: "deploy_vars \<Rightarrow> (deploy_error, path) result" where
  "user_daemon_path v =
     try_result (ok_or MissingHome (dv_home v))
       (\<lambda>home. Inr (path_join (normal_segments home) ''.local/bin/mpv-targetsd''))"

definition state_logs_directory :: "deploy_vars \<Rightarrow> (deploy_error, path) result" where
  "state_logs_directory v =
     (case dv_state_home v of
        Some p \<Rightarrow> Inr (path_join (normal_segments p) ''mpv-targets/logs'')
      | None \<Rightarrow> try_result (ok_or MissingHome (dv_home v))
          (\<lambda>home. Inr (path_join (normal_segments home) ''.local/state/mpv-targets/logs'')))"

definition parent :: "path \<Rightarrow> path option" where
  "parent p = (if p = [] then None else Some (butlast p))"

section \<open>Writing the deployment\<close>

definition make_dirs :: "path \<Rightarrow> path \<Rightarrow> deploy_step" where
  "make_dirs p shown = Perform (File (CreateDirAll p)) (OutputFile shown) []"

definition make_parent :: "path \<Rightarrow> deploy_step list" where
  "make_parent p = (case parent p of None \<Rightarrow> [] | Some q \<Rightarrow> [make_dirs q q])"

definition write_temporary :: "nat \<Rightarrow> path \<Rightarrow> path" where
  "write_temporary pid p = with_extension p (''tmp-'' @ show_nat pid)"

definition atomic_write :: "nat \<Rightarrow> path \<Rightarrow> content \<Rightarrow> nat option \<Rightarrow> deploy_step list" where
  "atomic_write pid p contents mode =
     (let temporary = write_temporary pid p in
      [Perform (File (CreateNew temporary)) (OutputFile temporary) [],
       Perform (File (WriteOpen temporary contents)) (OutputFile temporary) [],
       Perform (File (SyncFile temporary)) (OutputFile temporary) []]
      @ (case mode of None \<Rightarrow> [] | Some m \<Rightarrow> [Perform (SetMode temporary m) (OutputFile temporary) []])
      @ [Perform (File (RenamePath temporary p)) (OutputFile p) [RemoveFile temporary]])"

definition target_dir :: "plan \<Rightarrow> string \<Rightarrow> path" where
  "target_dir p name = path_join (path_join (pl_config_root p) ''targets'') name"

definition write_target :: "nat \<Rightarrow> plan \<Rightarrow> string \<times> string \<Rightarrow> deploy_step list" where
  "write_target pid p nc =
     (let directory = target_dir p (fst nc) in
      make_dirs (path_join directory ''scripts'') directory
      # atomic_write pid (path_join directory ''mpv.conf'') (Bytes (snd nc)) None)"

definition install_service :: "deploy_step list" where
  "install_service =
     [Perform (Systemctl [''--user'', ''daemon-reload'']) SystemctlFailed [],
      Perform (Systemctl [''--user'', ''enable'', ''--now'', ''mpv-targets.service'']) SystemctlFailed []]"

definition show_status :: "deploy_step list" where
  "show_status =
     [Perform (Systemctl [''--user'', ''status'', ''--no-pager'', ''mpv-targets.service'']) SystemctlFailed []]"

definition hyprland_wait_script :: string where
  "hyprland_wait_script =
     (let quote = CHR 0x27; environment = ''! systemctl --user show-environment 2>/dev/null | grep -q '' in
      ''#!/bin/sh'' @ [newline]
      @ ''while '' @ environment @ [quote] @ ''^HYPRLAND_INSTANCE_SIGNATURE=.'' @ [quote, CHR '' '', CHR 0x5C, newline]
      @ ''   || '' @ environment @ [quote] @ ''^WAYLAND_DISPLAY=.'' @ [quote] @ ''; do'' @ [newline]
      @ ''    sleep 1'' @ [newline] @ ''done'' @ [newline] @ ''sleep 3'' @ [newline])"

text \<open>The directories that come first, and the files and the service that come last.\<close>

definition make_tree :: "plan \<Rightarrow> path \<Rightarrow> path \<Rightarrow> deploy_step list" where
  "make_tree p unit_path logs =
     (let base = pl_config_root p in
      make_parent unit_path
      @ [make_dirs (path_join base ''targets'') base,
         make_dirs (path_join base ''tls'') (path_join base ''tls''),
         make_dirs logs logs,
         make_dirs (path_join base ''channels'') (path_join base ''channels'')])"

definition install_unit :: "nat \<Rightarrow> plan \<Rightarrow> path \<Rightarrow> path \<Rightarrow> deploy_step list" where
  "install_unit pid p unit_path helper_path =
     (if pl_host_profile p = Hyprland
      then atomic_write pid helper_path (Bytes hyprland_wait_script) (Some 493) else [])
     @ atomic_write pid unit_path
         (Bytes (service_unit (pl_host_profile p) (path_join (pl_config_root p) ''mpv-targets.toml''))) None
     @ (if pl_install_service p then install_service @ show_status else [])"

definition apply_at ::
    "nat \<Rightarrow> (daemon_config \<Rightarrow> (string, unit) result) \<Rightarrow> plan \<Rightarrow>
     path \<Rightarrow> path \<Rightarrow> path \<Rightarrow> path \<Rightarrow> deploy_step list" where
  "apply_at pid to_toml p unit_path daemon_path logs helper_path =
     (let base = pl_config_root p in
      make_tree p unit_path logs
      @ concat (map (write_target pid p) (pl_target_configs p))
      @ atomic_write pid (path_join base ''tls/server.crt'') (Bytes (pl_certificate p)) None
      @ atomic_write pid (path_join base ''tls/server.key'') (Bytes (pl_private_key p)) (Some 384)
      @ [Check (map_err Serialize (to_toml (pl_config p)))]
      @ atomic_write pid (path_join base ''mpv-targets.toml'') (TomlText (pl_config p)) None
      @ make_parent daemon_path
      @ atomic_write pid daemon_path (Bytes (pl_daemon_binary p)) (Some 493)
      @ install_unit pid p unit_path helper_path)"

definition apply_plan ::
    "nat \<Rightarrow> (daemon_config \<Rightarrow> (string, unit) result) \<Rightarrow> deploy_vars \<Rightarrow> plan \<Rightarrow>
     (deploy_error, deploy_step list) result" where
  "apply_plan pid to_toml v p =
     try_result (user_daemon_path v) (\<lambda>daemon_path.
     try_result (ok_or (InvalidDaemonPath daemon_path)
         (map_option (\<lambda>d. path_join d hyprland_wait_helper) (parent daemon_path))) (\<lambda>helper_path.
     try_result (user_unit_path v) (\<lambda>unit_path.
     try_result (state_logs_directory v) (\<lambda>logs.
       Inr (apply_at pid to_toml p unit_path daemon_path logs helper_path)))))"

section \<open>The run\<close>

datatype root_kind = Symlink | Directory | OtherFile | Missing | Unknown io_error

text \<open>What a run is given and what it finds out.\<close>

record 'cfg deploy_input =
  di_arguments :: "string list"
  di_canonical :: "string \<Rightarrow> (io_error, path) result"
  di_from_toml :: "string \<Rightarrow> (string, answer_file) result"
  di_to_toml :: "daemon_config \<Rightarrow> (string, unit) result"
  di_vars :: deploy_vars
  di_exists :: "path \<Rightarrow> bool"
  di_kind :: "path \<Rightarrow> root_kind"
  di_executable :: "(io_error, path) result"
  di_is_file :: "path \<Rightarrow> bool"
  di_build :: "'cfg build_env"
  di_terminal :: bool
  di_response :: "(io_error, string) result"
  di_pid :: nat

datatype deploy_arguments = DeployHelp | DeployAnswer string bool

definition parse_arguments :: "string list \<Rightarrow> (deploy_error, deploy_arguments) result" where
  "parse_arguments args =
     (case args of
        [a] \<Rightarrow> if a = ''--help'' \<or> a = ''-h'' then Inr DeployHelp else Inr (DeployAnswer a False)
      | [flag, p] \<Rightarrow> if flag = ''--overwrite'' then Inr (DeployAnswer p True) else Inl Usage
      | _ \<Rightarrow> Inl Usage)"

definition load_daemon_binary :: "'cfg deploy_input \<Rightarrow> (deploy_error, string) result" where
  "load_daemon_binary x =
     try_result (map_err CurrentExecutable (di_executable x)) (\<lambda>deployer.
     try_result (ok_or (MissingDaemonBinary deployer) (parent deployer)) (\<lambda>directory.
       let daemon = path_join directory ''mpv-targetsd'' in
       if \<not> di_is_file x daemon then Inl (MissingDaemonBinary daemon)
       else read_input (di_build x) daemon))"

definition confirm_overwrite :: "'cfg deploy_input \<Rightarrow> (deploy_error, unit) result" where
  "confirm_overwrite x =
     (if \<not> di_terminal x then Inl OverwriteRequiresTerminal
      else try_result (map_err PromptIo (di_response x)) (\<lambda>response.
        if trim_spaces response = ''y'' \<or> trim_spaces response = ''Y'' then Inr ()
        else Inl OverwriteCancelled))"

definition remove_existing_root :: "root_kind \<Rightarrow> path \<Rightarrow> deploy_step list" where
  "remove_existing_root kind base =
     (case kind of
        Symlink \<Rightarrow> [Check (Inl (SymlinkRoot base))]
      | Directory \<Rightarrow> [Perform (File (RemoveDirAll base)) (OutputFile base) []]
      | OtherFile \<Rightarrow> [Check (Inl (ExistingConfig base))]
      | Missing \<Rightarrow> []
      | Unknown e \<Rightarrow> [Check (Inl (OutputFile base e))])"

definition apply_steps :: "'cfg deploy_input \<Rightarrow> plan \<Rightarrow> deploy_step list" where
  "apply_steps x p =
     (case apply_plan (di_pid x) (di_to_toml x) (di_vars x) p of
        Inl e \<Rightarrow> [Check (Inl e)]
      | Inr steps \<Rightarrow> steps)"

text \<open>Everything that \<^verbatim>\<open>run\<close> checks before it changes the disk, and then the changes.\<close>

definition run_deploy :: "'cfg deploy_input \<Rightarrow> (deploy_error, deploy_step list) result" where
  "run_deploy x =
     try_result (parse_arguments (di_arguments x)) (\<lambda>args.
       case args of
         DeployHelp \<Rightarrow> Inr []
       | DeployAnswer given overwrite \<Rightarrow>
           try_result (map_err (InputFile (normal_segments given)) (di_canonical x given)) (\<lambda>answer_path.
           try_result (read_input (di_build x) answer_path) (\<lambda>source.
           try_result (map_err AnswerRejected (parse_answer (di_from_toml x) source)) (\<lambda>answer.
           try_result (config_root (di_vars x)) (\<lambda>base.
             let root_exists = di_exists x base in
             if root_exists \<and> \<not> overwrite then Inl (ExistingConfig base)
             else
               try_result (load_daemon_binary x) (\<lambda>daemon_binary.
               try_result (build_plan (di_build x) answer answer_path base daemon_binary) (\<lambda>p.
                 if root_exists then
                   try_result (confirm_overwrite x) (\<lambda>_.
                     Inr (remove_existing_root (di_kind x base) base @ apply_steps x p))
                 else Inr (apply_steps x p))))))))"

end
