(* ===== verification/DeployTree.thy ===== *)
theory DeployTree
  imports Deploy
begin

text \<open>
  What a deployment does to the disk, whatever fails: a file is replaced as a whole, the
  private key is never readable under its own name, and a deployment that ends well leaves
  the tree that the daemon starts from.
\<close>

section \<open>Running steps\<close>

fun step_touches :: "deploy_step \<Rightarrow> path \<Rightarrow> bool" where
  "step_touches (Perform (File op) err cs) q \<longleftrightarrow> touches op q \<or> list_ex (\<lambda>c. touches c q) cs"
| "step_touches (Perform (SetMode p m) err cs) q \<longleftrightarrow> p = q \<or> list_ex (\<lambda>c. touches c q) cs"
| "step_touches (Perform (Systemctl a) err cs) q \<longleftrightarrow> list_ex (\<lambda>c. touches c q) cs"
| "step_touches (Check r) q \<longleftrightarrow> False"

text \<open>What the disk holds under a name: contents and explicit permissions.\<close>

definition held :: "disk \<Rightarrow> path \<Rightarrow> content option \<times> nat option" where
  "held d q = (dk_files d q, dk_modes d q)"

lemma modes_after_other: "\<not> touches op q \<Longrightarrow> modes_after op m q = m q"
  by (cases op) (auto simp: below_def)

lemma file_other:
  assumes "\<not> touches op q"
  shows "held (disk_done (File op) d) q = held d q" and "held (disk_failed (File op) g d) q = held d q"
  using assms io_after_other [of op q "Inr ()"] io_after_other [of op q "Inl e" for e]
  by (simp_all add: held_def modes_after_other io_after_def)

lemma clean_up_other:
  assumes "\<not> list_ex (\<lambda>c. touches c q) cs" and "d' \<in> set (clean_up r g cs d)"
  shows "held d' q = held d q"
  using assms by (induction r g cs d rule: clean_up.induct) (auto simp: Let_def file_other
      simp del: disk_done.simps disk_failed.simps split: sum.splits)

lemma perform_nonempty: "perform env n steps d = (r, ds) \<Longrightarrow> ds \<noteq> []"
  by (induction env n steps d arbitrary: r ds rule: perform.induct)
    (auto simp: Let_def split: sum.splits prod.splits)

lemma perform_other:
  assumes "perform env n steps d = (r, ds)" and "\<not> list_ex (\<lambda>s. step_touches s q) steps"
    and "d' \<in> set ds"
  shows "held d' q = held d q"
  using assms
proof (induction env n steps d arbitrary: r ds rule: perform.induct)
  case (2 env n c steps d)
  then show ?case by (auto split: sum.splits)
next
  case (3 env n op err cs steps d)
  have cs: "\<not> list_ex (\<lambda>c. touches c q) cs" and op: "\<And>i. op = File i \<Longrightarrow> \<not> touches i q"
      "\<And>p m. op = SetMode p m \<Longrightarrow> p \<noteq> q"
    using "3.prems"(2) by (cases op; auto)+
  have failed: "held (disk_failed op (da_garbage env n) d) q = held d q"
    using op(1) file_other by (cases op) auto
  have did: "held (disk_done op d) q = held d q"
    using op file_other by (cases op) (auto simp: held_def)
  show ?case
  proof (cases "da_did env n")
    case (Inl x)
    with "3.prems" have "d' = d \<or> d' = disk_failed op (da_garbage env n) d \<or>
        d' \<in> set (clean_up (da_cleaned env n) (da_garbage env n) cs (disk_failed op (da_garbage env n) d))"
      by (auto simp: Let_def)
    with failed clean_up_other [OF cs] show ?thesis by auto
  next
    case (Inr u)
    obtain r' ds' where rest: "perform env (Suc n) steps (disk_done op d) = (r', ds')" by fastforce
    with "3.prems" Inr have "d' = d \<or> d' \<in> set ds'" by auto
    with "3.IH" [OF Inr rest] "3.prems"(2) did show ?thesis by auto
  qed
qed auto

text \<open>A sequence of steps either fails in its first part or goes on with the second.\<close>

lemma perform_appendE:
  assumes "perform env n (xs @ ys) d = (r, ds)"
  obtains (failed) e where "perform env n xs d = (Inl e, ds)" "r = Inl e"
  | (goes_on) n' ds1 ds2 where "perform env n xs d = (Inr (), ds1)"
      "perform env n' ys (last ds1) = (r, ds2)" "set ds = set ds1 \<union> set ds2" "last ds = last ds2"
proof -
  have "(\<exists>e. perform env n xs d = (Inl e, ds) \<and> r = Inl e) \<or>
    (\<exists>n' ds1 ds2. perform env n xs d = (Inr (), ds1) \<and> perform env n' ys (last ds1) = (r, ds2) \<and>
       hd ds2 = last ds1 \<and> set ds = set ds1 \<union> set ds2 \<and> last ds = last ds2)"
    using assms
  proof (induction xs arbitrary: n d r ds)
    case Nil
    moreover have "hd ds = d"
      using Nil by (induction env n ys d arbitrary: r ds rule: perform.induct)
        (auto simp: Let_def split: sum.splits prod.splits)
    ultimately show ?case
      using perform_nonempty [of env n ys d r ds] by (auto intro!: exI [of _ n] exI [of _ "[d]"] exI [of _ ds])
  next
    case (Cons s xs)
    show ?case
    proof (cases s)
      case (Check c)
      then show ?thesis using Cons by (auto split: sum.splits)
    next
      case (Perform op err cs)
      show ?thesis
      proof (cases "da_did env n")
        case (Inl e)
        then show ?thesis using Cons.prems Perform by (auto simp: Let_def)
      next
        case (Inr u)
        then obtain ds' where ds': "perform env (Suc n) (xs @ ys) (disk_done op d) = (r, ds')" "ds = d # ds'"
          using Cons.prems Perform by (auto split: prod.splits)
        show ?thesis
          using Cons.IH [OF ds'(1)]
        proof (elim disjE exE conjE)
          fix e
          assume "perform env (Suc n) xs (disk_done op d) = (Inl e, ds')" "r = Inl e"
          then show ?thesis using Perform Inr ds' by simp
        next
          fix n' ds1 ds2
          assume a: "perform env (Suc n) xs (disk_done op d) = (Inr (), ds1)"
            "perform env n' ys (last ds1) = (r, ds2)" "hd ds2 = last ds1"
            "set ds' = set ds1 \<union> set ds2" "last ds' = last ds2"
          have ne: "ds1 \<noteq> []" "ds' \<noteq> []" using perform_nonempty a(1) ds'(1) by blast+
          have "perform env n (s # xs) d = (Inr (), d # ds1)" using a(1) Perform Inr by simp
          then show ?thesis
            using a(2-5) ds'(2) ne by (intro disjI2 exI [of _ n'] exI [of _ "d # ds1"] exI [of _ ds2]) auto
        qed
      qed
    qed
  qed
  then show thesis using that by blast
qed


section \<open>One file\<close>

definition clear_of :: "nat \<Rightarrow> path \<Rightarrow> path \<Rightarrow> bool" where
  "clear_of pid p q \<longleftrightarrow> \<not> below p q \<and> \<not> below (write_temporary pid p) q"

lemma atomic_write_other:
  "clear_of pid p q \<Longrightarrow> \<not> list_ex (\<lambda>s. step_touches s q) (atomic_write pid p c m)"
  by (auto simp: atomic_write_def clear_of_def Let_def below_def split: option.splits)

lemma temporary_length: "p \<noteq> [] \<Longrightarrow> length (write_temporary pid p) = length p"
  by (simp add: write_temporary_def with_extension_def)

text \<open>Replacing a file: whoever looks finds either what was there or the whole new file with
  its permissions; and the new file if nothing failed.\<close>

lemma atomic_write_held:
  assumes "perform env n (atomic_write pid p c m) d = (r, ds)"
    and "p \<noteq> []" and "write_temporary pid p \<noteq> p"
  shows "\<forall>d' \<in> set ds. held d' p = held d p \<or> held d' p = (Some c, m)"
    and "r = Inr () \<Longrightarrow> held (last ds) p = (Some c, m)"
proof -
  let ?t = "write_temporary pid p"
  let ?rename = "Perform (File (RenamePath ?t p)) (OutputFile p) [RemoveFile ?t]"
  let ?pre = "butlast (atomic_write pid p c m)"
  have split: "atomic_write pid p c m = ?pre @ [?rename]"
    by (simp add: atomic_write_def Let_def butlast_append)
  have run: "perform env n (?pre @ [?rename]) d = (r, ds)"
    using assms(1) by (subst split [symmetric])
  have apart: "\<not> below ?t p" "\<not> below p ?t"
    using temporary_length [OF assms(2)] assms(3) by (auto simp: below_same_length)
  have quiet: "\<not> list_ex (\<lambda>s. step_touches s p) ?pre"
    using assms(3) by (auto simp: atomic_write_def Let_def butlast_append split: option.splits)
  have filled: "held (last ds1) ?t = (Some c, m)" if "perform env n ?pre d = (Inr (), ds1)" for ds1
    using that
    by (cases m) (auto simp: atomic_write_def Let_def butlast_append held_def
        split: sum.splits prod.splits)
  show "\<forall>d' \<in> set ds. held d' p = held d p \<or> held d' p = (Some c, m)"
    using run
  proof (cases rule: perform_appendE)
    case (failed e)
    then show ?thesis using perform_other [OF failed(1) quiet] by blast
  next
    case (goes_on n' ds1 ds2)
    have old: "held (last ds1) p = held d p"
      using perform_other [OF goes_on(1) quiet] perform_nonempty [OF goes_on(1)] by simp
    have "d' \<in> set ds2 \<Longrightarrow> held d' p = held d p \<or> held d' p = (Some c, m)" for d'
      using goes_on(2) filled [OF goes_on(1)] old apart
      by (auto simp: held_def below_def Let_def split: sum.splits)
    then show ?thesis
      using goes_on(3) perform_other [OF goes_on(1) quiet] by blast
  qed
  show "held (last ds) p = (Some c, m)" if "r = Inr ()"
    using run
  proof (cases rule: perform_appendE)
    case (goes_on n' ds1 ds2)
    then show ?thesis
      using filled [OF goes_on(1)] that by (auto simp: held_def below_def Let_def split: sum.splits)
  qed (use that in simp)
qed

lemma write_in_context:
  assumes "perform env n (pre @ atomic_write pid p c m @ post) d = (r, ds)"
    and "p \<noteq> []" and "write_temporary pid p \<noteq> p"
    and "\<not> list_ex (\<lambda>s. step_touches s p) pre" and "\<not> list_ex (\<lambda>s. step_touches s p) post"
  shows "(\<forall>d' \<in> set ds. held d' p = held d p \<or> held d' p = (Some c, m)) \<and>
    (r = Inr () \<longrightarrow> held (last ds) p = (Some c, m))"
  using assms(1)
proof (cases rule: perform_appendE)
  case (failed e)
  then show ?thesis using perform_other [OF failed(1) assms(4)] by auto
next
  case (goes_on n1 ds1 ds2)
  have before: "d' \<in> set ds1 \<Longrightarrow> held d' p = held d p" for d'
    using perform_other [OF goes_on(1) assms(4)] by blast
  then have old: "held (last ds1) p = held d p" using perform_nonempty [OF goes_on(1)] by simp
  have "(\<forall>d' \<in> set ds2. held d' p = held d p \<or> held d' p = (Some c, m)) \<and>
    (r = Inr () \<longrightarrow> held (last ds2) p = (Some c, m))"
    using goes_on(2)
  proof (cases rule: perform_appendE)
    case (failed e)
    then show ?thesis using atomic_write_held [OF failed(1) assms(2,3)] old by simp
  next
    case (goes_on n2 ds3 ds4)
    note w = atomic_write_held [OF goes_on(1) assms(2,3)]
    have "held d' p = held (last ds3) p" if "d' \<in> set ds4" for d'
      using perform_other [OF goes_on(2) assms(5) that] .
    moreover have "held (last ds3) p = (Some c, m)" using w(2) by simp
    ultimately show ?thesis
      using w(1) old goes_on(3,4) perform_nonempty [OF goes_on(2)] by auto
  qed
  then show ?thesis using before goes_on(3,4) by auto
qed


section \<open>The deployed tree\<close>

text \<open>The places outside the configuration directory that a deployment writes to: none of
  them, and none of their temporary files, lies above or below a place of another.\<close>

definition outside :: "nat \<Rightarrow> path \<Rightarrow> path \<Rightarrow> bool" where
  "outside pid base p \<longleftrightarrow>
     p \<noteq> [] \<and> \<not> below base p \<and> \<not> below p base \<and> \<not> below (write_temporary pid p) base \<and>
     \<not> below base (write_temporary pid p)"

lemma not_below_append:
  assumes "\<not> below base p" and "\<not> below p base"
  shows "\<not> below p (base @ s)"
proof
  assume "below p (base @ s)"
  then have p: "p = take (length p) base @ take (length p - length base) s"
    by (simp add: below_def)
  show False
  proof (cases "length p \<le> length base")
    case True
    then show ?thesis using p assms(2) by (simp add: below_def)
  next
    case False
    then have "take (length base) p = base" by (subst p) simp
    then show ?thesis using assms(1) by (simp add: below_def)
  qed
qed

lemma outside_clear: "outside pid base p \<Longrightarrow> clear_of pid p (base @ s)"
  by (simp add: outside_def clear_of_def not_below_append)

lemma below_prefix:
  assumes "\<not> below base q"
  shows "\<not> below (base @ s) q"
proof
  assume "below (base @ s) q"
  then have "take (length base) (take (length (base @ s)) q) = base" by (simp add: below_def)
  then show False using assms by (simp add: below_def min_def)
qed

lemma deploy_paths:
  "path_join base ''targets'' = base @ [''targets'']"
  "path_join base ''tls/server.crt'' = base @ [''tls'', ''server.crt'']"
  "path_join base ''tls/server.key'' = base @ [''tls'', ''server.key'']"
  "path_join base ''mpv-targets.toml'' = base @ [''mpv-targets.toml'']"
  "path_join base ''mpv.conf'' = base @ [''mpv.conf'']"
  by (simp_all add: path_join_def) code_simp+

lemma deploy_temporaries:
  "write_temporary pid (base @ [''tls'', ''server.crt'']) = base @ [''tls'', ''server.tmp-'' @ show_nat pid]"
  "write_temporary pid (base @ [''tls'', ''server.key'']) = base @ [''tls'', ''server.tmp-'' @ show_nat pid]"
  "write_temporary pid (base @ [''mpv-targets.toml'']) = base @ [''mpv-targets.tmp-'' @ show_nat pid]"
  "write_temporary pid (base @ [''targets'', name, ''mpv.conf'']) =
     base @ [''targets'', name, ''mpv.tmp-'' @ show_nat pid]"
proof -
  have "segment_stem ''server.crt'' = ''server''" "segment_stem ''server.key'' = ''server''"
    "segment_stem ''mpv-targets.toml'' = ''mpv-targets''" "segment_stem ''mpv.conf'' = ''mpv''"
    by code_simp+
  then show
    "write_temporary pid (base @ [''tls'', ''server.crt'']) = base @ [''tls'', ''server.tmp-'' @ show_nat pid]"
    "write_temporary pid (base @ [''tls'', ''server.key'']) = base @ [''tls'', ''server.tmp-'' @ show_nat pid]"
    "write_temporary pid (base @ [''mpv-targets.toml'']) = base @ [''mpv-targets.tmp-'' @ show_nat pid]"
    "write_temporary pid (base @ [''targets'', name, ''mpv.conf'']) =
       base @ [''targets'', name, ''mpv.tmp-'' @ show_nat pid]"
    by (simp_all add: write_temporary_def with_extension_def butlast_append)
qed


definition layout_ok :: "nat \<Rightarrow> path \<Rightarrow> path \<Rightarrow> path \<Rightarrow> path \<Rightarrow> bool" where
  "layout_ok pid base unit_path daemon_path helper_path \<longleftrightarrow>
     outside pid base unit_path \<and> outside pid base daemon_path \<and> outside pid base helper_path \<and>
     clear_of pid unit_path daemon_path \<and> clear_of pid helper_path daemon_path \<and>
     write_temporary pid daemon_path \<noteq> daemon_path"

lemma make_dirs_quiet [simp]: "\<not> step_touches (make_dirs p e) q"
  by (simp add: make_dirs_def)

lemma make_parent_quiet [simp]: "\<not> list_ex (\<lambda>s. step_touches s q) (make_parent p)"
  by (simp add: make_parent_def split: option.splits)

lemma service_quiet [simp]:
  "\<not> list_ex (\<lambda>s. step_touches s q) install_service" "\<not> list_ex (\<lambda>s. step_touches s q) show_status"
  by (simp_all add: install_service_def show_status_def)

lemma base_clear:
  "clear_of pid (base @ [''tls'', ''server.crt'']) (base @ s) \<longleftrightarrow>
     take 2 s \<noteq> [''tls'', ''server.crt''] \<and> take 2 s \<noteq> [''tls'', ''server.tmp-'' @ show_nat pid]"
  "clear_of pid (base @ [''tls'', ''server.key'']) (base @ s) \<longleftrightarrow>
     take 2 s \<noteq> [''tls'', ''server.key''] \<and> take 2 s \<noteq> [''tls'', ''server.tmp-'' @ show_nat pid]"
  "clear_of pid (base @ [''mpv-targets.toml'']) (base @ s) \<longleftrightarrow>
     take 1 s \<noteq> [''mpv-targets.toml''] \<and> take 1 s \<noteq> [''mpv-targets.tmp-'' @ show_nat pid]"
  "clear_of pid (base @ [''targets'', name, ''mpv.conf'']) (base @ s) \<longleftrightarrow>
     take 3 s \<noteq> [''targets'', name, ''mpv.conf''] \<and>
     take 3 s \<noteq> [''targets'', name, ''mpv.tmp-'' @ show_nat pid]"
  by (simp_all add: clear_of_def deploy_temporaries below_def)

lemma target_steps_quiet:
  assumes "plain_segment name" and "clear_of pid (pl_config_root p @ [''targets'', name, ''mpv.conf'']) q"
  shows "\<not> list_ex (\<lambda>s. step_touches s q) (write_target pid p (name, conf))"
  using assms atomic_write_other
  by (simp add: write_target_def Let_def target_dir_def deploy_paths plain_join)

lemma targets_quiet:
  assumes "\<forall>(name, conf) \<in> set cfgs. plain_segment name \<and>
      clear_of pid (pl_config_root p @ [''targets'', name, ''mpv.conf'']) q"
  shows "\<not> list_ex (\<lambda>s. step_touches s q) (concat (map (write_target pid p) cfgs))"
  using assms target_steps_quiet by (induction cfgs) (auto split: prod.splits)


lemma make_tree_quiet [simp]: "\<not> list_ex (\<lambda>s. step_touches s q) (make_tree p unit_path logs)"
  by (simp add: make_tree_def Let_def)

lemma install_unit_quiet:
  "clear_of pid unit_path q \<Longrightarrow> clear_of pid helper_path q \<Longrightarrow>
   \<not> list_ex (\<lambda>s. step_touches s q) (install_unit pid p unit_path helper_path)"
  by (simp add: install_unit_def atomic_write_other)

text \<open>Every file that a deployment writes, with its contents and permissions.\<close>

definition deployed_files :: "plan \<Rightarrow> path \<Rightarrow> (path \<times> content \<times> nat option) set" where
  "deployed_files p daemon_path =
     {(pl_config_root p @ [''tls'', ''server.crt''], Bytes (pl_certificate p), None),
      (pl_config_root p @ [''tls'', ''server.key''], Bytes (pl_private_key p), Some 384),
      (pl_config_root p @ [''mpv-targets.toml''], TomlText (pl_config p), None),
      (daemon_path, Bytes (pl_daemon_binary p), Some 493)}
     \<union> (\<lambda>(name, conf). (pl_config_root p @ [''targets'', name, ''mpv.conf''], Bytes conf, None))
         ` set (pl_target_configs p)"

lemma apply_at_deployed:
  assumes names: "\<forall>(name, conf) \<in> set (pl_target_configs p). plain_segment name"
    and different: "distinct (map fst (pl_target_configs p))"
    and layout: "layout_ok pid (pl_config_root p) unit_path daemon_path helper_path"
    and run: "perform env n (apply_at pid to_toml p unit_path daemon_path logs helper_path) d = (r, ds)"
    and written: "(q, c, m) \<in> deployed_files p daemon_path"
  shows "(\<forall>d' \<in> set ds. held d' q = held d q \<or> held d' q = (Some c, m)) \<and>
    (r = Inr () \<longrightarrow> held (last ds) q = (Some c, m))"
proof -
  let ?base = "pl_config_root p"
  let ?targets = "\<lambda>cfgs. concat (map (write_target pid p) cfgs)"
  let ?crt = "atomic_write pid (?base @ [''tls'', ''server.crt'']) (Bytes (pl_certificate p)) None"
  let ?key = "atomic_write pid (?base @ [''tls'', ''server.key'']) (Bytes (pl_private_key p)) (Some 384)"
  let ?ser = "[Check (map_err Serialize (to_toml (pl_config p)))]"
  let ?toml = "atomic_write pid (?base @ [''mpv-targets.toml'']) (TomlText (pl_config p)) None"
  let ?bin = "atomic_write pid daemon_path (Bytes (pl_daemon_binary p)) (Some 493)"
  let ?tree = "make_tree p unit_path logs"
  let ?up = "make_parent daemon_path"
  let ?rest = "install_unit pid p unit_path helper_path"
  let ?quiet = "\<lambda>q steps. \<not> list_ex (\<lambda>s. step_touches s q) steps"
  have steps: "perform env n (?tree @ ?targets (pl_target_configs p) @ ?crt @ ?key @ ?ser @ ?toml
      @ ?up @ ?bin @ ?rest) d = (r, ds)"
    using run by (simp only: apply_at_def Let_def deploy_paths)
  have out: "clear_of pid unit_path (?base @ s)" "clear_of pid daemon_path (?base @ s)"
    "clear_of pid helper_path (?base @ s)" for s
    using layout by (simp_all add: layout_ok_def outside_clear)
  have rest: "?quiet (?base @ s) ?rest" for s
    by (rule install_unit_quiet) (rule out)+
  have bin: "?quiet (?base @ s) ?bin" for s
    by (rule atomic_write_other) (rule out)
  have targets: "?quiet (?base @ s) (?targets cfgs)"
    if "s \<noteq> []" "hd s \<noteq> ''targets''" "set cfgs \<subseteq> set (pl_target_configs p)" for s cfgs
    using names that by (intro targets_quiet) (cases s; auto simp: base_clear)
  have crt: "?quiet (?base @ s) ?crt" if "s \<noteq> []" "hd s \<noteq> ''tls'' \<or> s = [''tls'', ''server.key'']" for s
    using that by (intro atomic_write_other) (cases s; auto simp: base_clear)
  have key: "?quiet (?base @ s) ?key" if "s \<noteq> []" "hd s \<noteq> ''tls'' \<or> s = [''tls'', ''server.crt'']" for s
    using that by (intro atomic_write_other) (cases s; auto simp: base_clear)
  have toml: "?quiet (?base @ s) ?toml" if "hd s = ''tls'' \<or> hd s = ''targets''" "s \<noteq> []" for s
    using that by (intro atomic_write_other) (cases s; auto simp: base_clear)
  consider (certificate) "q = ?base @ [''tls'', ''server.crt'']" "c = Bytes (pl_certificate p)" "m = None" |
    (private_key) "q = ?base @ [''tls'', ''server.key'']" "c = Bytes (pl_private_key p)" "m = Some 384" |
    (config) "q = ?base @ [''mpv-targets.toml'']" "c = TomlText (pl_config p)" "m = None" |
    (binary) "q = daemon_path" "c = Bytes (pl_daemon_binary p)" "m = Some 493" |
    (target) name conf where "(name, conf) \<in> set (pl_target_configs p)" "m = None"
      "q = ?base @ [''targets'', name, ''mpv.conf'']" "c = Bytes conf"
    using written by (auto simp: deployed_files_def)
  then show ?thesis
  proof cases
    case certificate
    show ?thesis
      unfolding certificate
      by (rule write_in_context [of env n "?tree @ ?targets (pl_target_configs p)" _ _ _ _
            "?key @ ?ser @ ?toml @ ?up @ ?bin @ ?rest"])
        (use steps targets key toml rest bin in \<open>simp_all add: deploy_temporaries\<close>)
  next
    case private_key
    show ?thesis
      unfolding private_key
      by (rule write_in_context [of env n "?tree @ ?targets (pl_target_configs p) @ ?crt" _ _ _ _
            "?ser @ ?toml @ ?up @ ?bin @ ?rest"])
        (use steps targets crt toml rest bin in \<open>simp_all add: deploy_temporaries\<close>)
  next
    case config
    show ?thesis
      unfolding config
      by (rule write_in_context [of env n "?tree @ ?targets (pl_target_configs p) @ ?crt @ ?key @ ?ser"
            _ _ _ _ "?up @ ?bin @ ?rest"])
        (use steps targets crt key rest bin in \<open>simp_all add: deploy_temporaries\<close>)
  next
    case binary
    have far: "\<not> below ?base daemon_path" and own: "daemon_path \<noteq> []"
        "write_temporary pid daemon_path \<noteq> daemon_path"
      and last: "clear_of pid unit_path daemon_path" "clear_of pid helper_path daemon_path"
      using layout by (auto simp: layout_ok_def outside_def)
    have inner: "clear_of pid (?base @ s) daemon_path"
      if "s \<in> {[''tls'', ''server.crt''], [''tls'', ''server.key''], [''mpv-targets.toml'']} \<union>
        range (\<lambda>name. [''targets'', name, ''mpv.conf''])" for s
      using that below_prefix [OF far] by (auto simp: clear_of_def deploy_temporaries)
    have "?quiet daemon_path (?targets (pl_target_configs p))"
      using names inner by (intro targets_quiet) auto
    then show ?thesis
      unfolding binary
      by (intro write_in_context [of env n "?tree @ ?targets (pl_target_configs p) @ ?crt @ ?key @ ?ser
            @ ?toml @ ?up" _ _ _ _ ?rest])
        (use steps inner own install_unit_quiet [OF last] in \<open>simp_all add: atomic_write_other\<close>)
  next
    case target
    obtain xs ys where cfgs: "pl_target_configs p = xs @ (name, conf) # ys"
      using split_list [OF target(1)] by blast
    have plain: "plain_segment name" using names target(1) by auto
    have others: "?quiet (?base @ [''targets'', name, ''mpv.conf'']) (?targets zs)"
      if "zs = xs \<or> zs = ys" for zs
      using names different cfgs that by (intro targets_quiet) (auto simp: base_clear image_iff)
    have "write_target pid p (name, conf) =
        make_dirs (path_join (?base @ [''targets'', name]) ''scripts'') (?base @ [''targets'', name])
        # atomic_write pid (?base @ [''targets'', name, ''mpv.conf'']) (Bytes conf) None"
      using plain by (simp add: write_target_def Let_def target_dir_def deploy_paths plain_join)
    then show ?thesis
      unfolding target
      by (intro write_in_context [of env n "?tree @ ?targets xs @
            [make_dirs (path_join (?base @ [''targets'', name]) ''scripts'') (?base @ [''targets'', name])]"
            _ _ _ _ "?targets ys @ ?crt @ ?key @ ?ser @ ?toml @ ?up @ ?bin @ ?rest"])
        (use steps cfgs others crt key toml rest bin in \<open>simp_all add: deploy_temporaries\<close>)
  qed
qed


lemma plan_targets:
  assumes "validate_answer given = Inr ()"
    and "build_plan env given answer_path base daemon_binary = Inr p"
  shows "\<forall>(name, conf) \<in> set (pl_target_configs p). plain_segment name"
    and "distinct (map fst (pl_target_configs p))"
    and "pl_config p = planned_config given"
proof -
  have p: "pl_target_configs p = map (\<lambda>t. (at_name t, generated_mpv_conf env t)) (af_targets given)"
    "pl_config p = planned_config given"
    using assms(2) by (auto simp: build_plan_def try_result_def split: sum.splits prod.splits)
  then show "\<forall>(name, conf) \<in> set (pl_target_configs p). plain_segment name"
    "distinct (map fst (pl_target_configs p))" "pl_config p = planned_config given"
    using assms(1) valid_name_plain
    by (auto simp: validate_answer_iff good_answer_target_def list_all_iff comp_def)
qed


text \<open>
  C35. The private key can be read by others for a moment: every deployment that ends well goes
  through a state in which the temporary file holds the whole key and no permissions have
  been set on it.
\<close>

theorem key_exposed_in_temporary:
  assumes "perform answers n (apply_at pid to_toml p unit_path daemon_path logs helper_path) d = (Inr (), ds)"
  shows "\<exists>d' \<in> set ds. held d' (write_temporary pid (path_join (pl_config_root p) ''tls/server.key'')) =
    (Some (Bytes (pl_private_key p)), None)"
proof -
  let ?q = "path_join (pl_config_root p) ''tls/server.key''"
  obtain pre post where "apply_at pid to_toml p unit_path daemon_path logs helper_path =
      pre @ atomic_write pid ?q (Bytes (pl_private_key p)) (Some 384) @ post"
    by (simp only: apply_at_def Let_def) (metis append_assoc)
  with assms have run: "perform answers n (pre @ atomic_write pid ?q (Bytes (pl_private_key p)) (Some 384) @ post) d
      = (Inr (), ds)" by simp
  then show ?thesis
  proof (cases rule: perform_appendE)
    case (goes_on n1 ds1 ds2)
    from goes_on(2) show ?thesis
    proof (cases rule: perform_appendE)
      case w: (goes_on n2 ds3 ds4)
      have "\<exists>d' \<in> set ds3. held d' (write_temporary pid ?q) = (Some (Bytes (pl_private_key p)), None)"
        using w(1) by (auto simp: atomic_write_def Let_def held_def split: sum.splits prod.splits)
      then show ?thesis using goes_on(3) w(3) by auto
    qed simp
  qed simp
qed

end
