(* ===== verification/Lifecycle.thy ===== *)
theory Lifecycle
  imports Sequential
begin

text \<open>
  What each operation of the supervisor does when it runs to its end, on every branch: the
  target, the registry, the configuration file, the jobs it starts, and what an error leaves
  behind.
\<close>

section \<open>Runs of composed tasks\<close>

lemma run_bind:
  "run (bind_task p g) env n w =
   (case run p env n w of
      (None, m, w') \<Rightarrow> (None, m, w') | (Some x, m, w') \<Rightarrow> run (g x) env m w')"
  by (induction p arbitrary: n w) auto

lemma swp_unapplied [simp]:
  "swp (Return r) Q = Q r"
  "swp (Spawn j p) Q = (\<lambda>w. swp p Q (w\<lparr>wd_jobs := wd_jobs w @ [j]\<rparr>))"
  by (rule ext, simp)+

text \<open>The target of a name, in a world.\<close>

definition target_of :: "world \<Rightarrow> string \<Rightarrow> runtime_target option" where
  "target_of w name = bt_get (in_targets (wd_inner w)) name"

definition others_same :: "world \<Rightarrow> world \<Rightarrow> string \<Rightarrow> bool" where
  "others_same w w' name \<longleftrightarrow>
     in_config (wd_inner w') = in_config (wd_inner w) \<and>
     (\<forall>n. n \<noteq> name \<longrightarrow> target_of w' n = target_of w n)"

lemma others_same_refl: "others_same w w name"
  by (simp add: others_same_def)

lemma others_same_trans: "others_same u v name \<Longrightarrow> others_same v w name \<Longrightarrow> others_same u w name"
  by (simp add: others_same_def)

text \<open>A critical section of one target changes that target as its body says.\<close>

lemma swp_at_target:
  assumes "target_of w name = Some t" and "f t = (a, t', es)"
    and "\<And>w'. target_of w' name = Some t' \<Longrightarrow> others_same w w' name \<Longrightarrow>
      wd_files w' = wd_files w \<Longrightarrow> wd_jobs w' = wd_jobs w \<Longrightarrow> wd_log w' = wd_log w @ es \<Longrightarrow>
      swp (k a) Q w'"
  shows "swp (locked (at_target name x f) k) Q w"
  using assms by (auto simp: at_target_def target_of_def others_same_def)

lemma swp_query:
  "swp (query_target f name) Q w \<longleftrightarrow> Q (ok_or (UnknownTarget name) (map_option (f name) (target_of w name))) w"
  by (simp add: query_target_def read_inner_def target_of_def)

lemmas swp_queries =
  swp_query [where f = record_of, folded get_target_record_def]
  swp_query [where f = "\<lambda>_ t. rt_config t", folded get_target_config_def]
  swp_query [where f = "\<lambda>_ t. tc_disabled (rt_config t)", folded target_disabled_def]
  swp_query [where f = "\<lambda>_ t. rt_stopped t", folded target_stopped_def]
  swp_query [where f = "\<lambda>_ t. rt_online t", folded target_online_def]

section \<open>Stop\<close>

definition cleared :: "runtime_target \<Rightarrow> runtime_target" where
  "cleared t = (if rt_observed t = default_target_state then t
                else bump (t\<lparr>rt_observed := default_target_state\<rparr>))"

definition offline :: "runtime_target \<Rightarrow> runtime_target" where
  "offline t = (if rt_online t then bump (t\<lparr>rt_online := False, rt_launching := False\<rparr>) else t)"

lemma clear_observed_swp:
  assumes "target_of w name = Some t"
    and "\<And>w'. target_of w' name = Some (cleared t) \<Longrightarrow> others_same w w' name \<Longrightarrow>
      wd_files w' = wd_files w \<Longrightarrow> wd_jobs w' = wd_jobs w \<Longrightarrow> Q () w'"
  shows "swp (clear_observed name) Q w"
proof -
  obtain a where b: "clear_observed_body name t = (a, cleared t, [])"
    by (cases "rt_observed t = default_target_state")
      (simp_all add: clear_observed_body_def cleared_def Let_def)
  show ?thesis
    unfolding clear_observed_def
    by (rule swp_at_target [where f = "clear_observed_body name", OF assms(1) b])
      (auto simp: deferred_def target_of_def others_same_def intro!: assms(2) split: option.splits)
qed

lemma mark_offline_swp:
  assumes "target_of w name = Some t"
    and "\<And>w'. target_of w' name = Some (offline t) \<Longrightarrow> others_same w w' name \<Longrightarrow>
      wd_files w' = wd_files w \<Longrightarrow> wd_jobs w' = wd_jobs w \<Longrightarrow> Q () w'"
  shows "swp (mark_offline name) Q w"
proof -
  obtain es where b: "mark_offline_body name t = ((), offline t, es)"
    by (cases "rt_online t") (simp_all add: mark_offline_body_def offline_def Let_def)
  show ?thesis
    unfolding mark_offline_def
    by (rule swp_at_target [where f = "mark_offline_body name", OF assms(1) b]) (auto intro: assms(2))
qed

lemma stop_swp:
  assumes "target_of w name = Some t"
    and "\<And>w'. rt_stopped t \<Longrightarrow> target_of w' name = Some t \<Longrightarrow> others_same w w' name \<Longrightarrow>
      wd_files w' = wd_files w \<Longrightarrow> wd_jobs w' = wd_jobs w \<Longrightarrow> Q (Inl TargetAlreadyStopped) w'"
    and "\<And>e w'. \<not> rt_stopped t \<Longrightarrow> rt_online t \<Longrightarrow>
      target_of w' name = Some (bump (t\<lparr>rt_stopped := True\<rparr>)) \<Longrightarrow> others_same w w' name \<Longrightarrow>
      wd_files w' = wd_files w \<Longrightarrow> wd_jobs w' = wd_jobs w \<Longrightarrow> Q (Inl e) w'"
    and "\<And>w' u. \<not> rt_stopped t \<Longrightarrow> u = offline (cleared (bump (t\<lparr>rt_stopped := True\<rparr>))) \<Longrightarrow>
      target_of w' name = Some u \<Longrightarrow> others_same w w' name \<Longrightarrow>
      wd_files w' = wd_files w \<Longrightarrow> wd_jobs w' = wd_jobs w \<Longrightarrow> Q (Inr (record_of name u)) w'"
  shows "swp (stop name) Q w"
proof (cases "rt_stopped t")
  case True
  then have b: "stop_body name t = (Inl TargetAlreadyStopped, t, [])" by (simp add: stop_body_def)
  show ?thesis
    unfolding stop_def swp_then
    by (rule swp_at_target [where f = "stop_body name", OF assms(1) b]) (auto intro: assms(2) [OF True])
next
  case False
  let ?t = "bump (t\<lparr>rt_stopped := True\<rparr>)"
  have b: "stop_body name t = (Inr (rt_online t), ?t, [publish name [(''stopped'', JBool True)] ?t])"
    using False by (simp add: stop_body_def Let_def bump_def)
  have rest: "swp (bind_task (clear_observed name) (\<lambda>_. bind_task (mark_offline name)
      (\<lambda>_. get_target_record name))) Q w1"
    if "target_of w1 name = Some ?t" "others_same w w1 name" "wd_files w1 = wd_files w"
      "wd_jobs w1 = wd_jobs w" for w1
    unfolding swp_bind
    by (rule clear_observed_swp [OF that(1)], rule mark_offline_swp, assumption)
      (use that assms(4) [OF False refl] in \<open>auto simp: swp_queries dest: others_same_trans\<close>)
  show ?thesis
    unfolding stop_def swp_then
    by (rule swp_at_target [where f = "stop_body name", OF assms(1) b])
      (use rest assms(3) [OF False] in \<open>auto simp: quit_mpv_def ipc_command_def
        wait_for_socket_gone_def simp del: swp_bind split: sum.splits\<close>)
qed

lemma stopped_facts [simp]:
  "rt_stopped (cleared t) = rt_stopped t" "rt_config (cleared t) = rt_config t"
  "rt_observed (cleared t) = default_target_state"
  "rt_stopped (offline t) = rt_stopped t" "rt_config (offline t) = rt_config t"
  "rt_observed (offline t) = rt_observed t" "\<not> rt_online (offline t)"
  "rt_stopped (bump t) = rt_stopped t" "rt_config (bump t) = rt_config t"
  "rt_online (bump t) = rt_online t" "rt_launching (bump t) = rt_launching t"
  by (simp_all add: cleared_def offline_def bump_def)

section \<open>Start\<close>

definition woken :: "runtime_target \<Rightarrow> runtime_target" where
  "woken t = (if rt_stopped t then bump (t\<lparr>rt_stopped := False\<rparr>) else t)"

definition launched :: "runtime_target \<Rightarrow> runtime_target" where
  "launched t = bump (t\<lparr>rt_online := True, rt_launching := False, rt_recovering := False\<rparr>)"

lemma started_facts [simp]:
  "\<not> rt_stopped (woken t)" "rt_config (woken t) = rt_config t"
  "rt_online (woken t) = rt_online t" "rt_launching (woken t) = rt_launching t"
  "rt_online (launched t)" "\<not> rt_launching (launched t)" "rt_config (launched t) = rt_config t"
  "rt_stopped (launched t) = rt_stopped t"
  by (simp_all add: woken_def launched_def bump_def)

definition same_target :: "world \<Rightarrow> world \<Rightarrow> bool" where
  "same_target w w' \<longleftrightarrow> wd_inner w' = wd_inner w \<and> wd_jobs w' = wd_jobs w \<and> wd_log w' = wd_log w"

lemma same_target_refl: "same_target w w"
  by (simp add: same_target_def)

lemma same_target_io:
  "same_target w v \<Longrightarrow> same_target w (v\<lparr>wd_files := fs\<rparr>)"
  by (simp add: same_target_def)

lemma try_all_same:
  "(\<And>e w'. same_target w w' \<Longrightarrow> Q (Inl e) w') \<Longrightarrow> (\<And>w'. same_target w w' \<Longrightarrow> Q (Inr ()) w') \<Longrightarrow>
   same_target w v \<Longrightarrow> swp (try_all err ops) Q v"
  by (induction ops arbitrary: v) (auto simp: map_err_def same_target_io split: sum.splits)

lemma mark_online_swp:
  assumes "target_of w name = Some t" and "\<not> rt_online t"
    and "\<And>w'. target_of w' name = Some (launched t) \<Longrightarrow> others_same w w' name \<Longrightarrow>
      wd_jobs w' = wd_jobs w @ [ObserveJob name] \<Longrightarrow> Q () w'"
  shows "swp (mark_online name) Q w"
proof -
  obtain es where b: "mark_online_body name t = (True, launched t, es)"
    using assms(2) by (simp add: mark_online_body_def launched_def Let_def)
  show ?thesis
    unfolding mark_online_def
    by (rule swp_at_target [where f = "mark_online_body name", OF assms(1) b])
      (auto intro!: assms(3) simp: target_of_def others_same_def)
qed

lemma launch_swp:
  assumes t: "target_of w name = Some t" "\<not> rt_online t"
    and fails: "\<And>e w'. same_target w w' \<Longrightarrow> Q (Inl e) w'"
    and works: "\<And>w' js. target_of w' name = Some (launched t) \<Longrightarrow> others_same w w' name \<Longrightarrow>
      wd_jobs w' = wd_jobs w @ ObserveJob name # js \<Longrightarrow> Q (Inr ()) w'"
  shows "swp (launch pt name) Q w"
proof -
  have same: "target_of v name = Some t" if "same_target w v" for v
    using that t by (simp add: same_target_def target_of_def)
  have on: "swp (mark_online name) (\<lambda>_ u. Q (Inr ()) (u\<lparr>wd_jobs := wd_jobs u @ js\<rparr>)) v"
    if v: "same_target w v" for v js
    by (rule mark_online_swp [OF same [OF v] t(2)], rule works)
      (use v in \<open>auto simp: same_target_def others_same_def target_of_def\<close>)
  have on_live: "swp (mark_online name) (\<lambda>_. Q (Inr ())) w"
    using on [OF same_target_refl, of "[]"] by simp
  have spawn: "swp (try_all LaunchError ops) (\<lambda>r u. case r of Inl e \<Rightarrow> Q (Inl e) u
      | Inr _ \<Rightarrow> swp (bind_task (wait_for_socket name) (\<lambda>r. case r of
          Inl e \<Rightarrow> ignore_io (KillMpv name) (Return (Inl e))
        | Inr _ \<Rightarrow> bind_task (mark_online name) (\<lambda>_. Spawn (ReapJob name) (Return (Inr ()))))) Q u) v"
    if "same_target w v" for ops v
    by (rule try_all_same [OF _ _ that])
      (auto simp: wait_for_socket_def same_target_io intro!: fails on)
  show ?thesis
    unfolding launch_def
    using spawn on_live fails t(1)
    by (auto simp: swp_queries socket_is_live_def same_target_io same_target_refl split_sum_all
        simp del: try_all.simps)
qed

lemma start_body_woken:
  assumes "\<not> tc_disabled (rt_config t)"
  shows "\<exists>es. start_body name t =
    (if rt_online t \<or> rt_launching t then (Inr False, woken t, es)
     else (Inr True, (woken t)\<lparr>rt_launching := True\<rparr>, es))"
  using assms by (cases "rt_stopped t") (simp_all add: start_body_def woken_def Let_def bump_def)

lemma start_swp:
  assumes t: "target_of w name = Some t"
    and refused: "\<And>w'. tc_disabled (rt_config t) \<Longrightarrow> target_of w' name = Some t \<Longrightarrow>
      others_same w w' name \<Longrightarrow> wd_jobs w' = wd_jobs w \<Longrightarrow> Q (Inl TargetDisabled) w'"
    and already: "\<And>w'. \<not> tc_disabled (rt_config t) \<Longrightarrow> rt_online t \<or> rt_launching t \<Longrightarrow>
      target_of w' name = Some (woken t) \<Longrightarrow> others_same w w' name \<Longrightarrow> wd_jobs w' = wd_jobs w \<Longrightarrow>
      Q (Inr (record_of name (woken t))) w'"
    and failed: "\<And>e w' u. \<not> tc_disabled (rt_config t) \<Longrightarrow> u = (woken t)\<lparr>rt_launching := False\<rparr> \<Longrightarrow>
      \<not> rt_online t \<Longrightarrow> target_of w' name = Some u \<Longrightarrow>
      others_same w w' name \<Longrightarrow> wd_jobs w' = wd_jobs w @ [RecoveryJob name] \<Longrightarrow> Q (Inl e) w'"
    and started: "\<And>w' js u. \<not> tc_disabled (rt_config t) \<Longrightarrow> u = launched (woken t) \<Longrightarrow>
      target_of w' name = Some u \<Longrightarrow> others_same w w' name \<Longrightarrow>
      wd_jobs w' = wd_jobs w @ ObserveJob name # js \<Longrightarrow> Q (Inr (record_of name u)) w'"
  shows "swp (start pt name) Q w"
proof (cases "tc_disabled (rt_config t)")
  case True
  then have b: "start_body name t = (Inl TargetDisabled, t, [])" by (simp add: start_body_def)
  show ?thesis
    unfolding start_def swp_then
    by (rule swp_at_target [where f = "start_body name", OF t b]) (auto intro: refused [OF True])
next
  case on: False
  show ?thesis
  proof (cases "rt_online t \<or> rt_launching t")
    case True
    obtain es where b: "start_body name t = (Inr False, woken t, es)"
      using start_body_woken [OF on, of name] True by auto
    show ?thesis
      unfolding start_def swp_then
      by (rule swp_at_target [where f = "start_body name", OF t b])
        (auto simp: swp_queries intro: already [OF on True])
  next
    case False
    let ?t = "(woken t)\<lparr>rt_launching := True\<rparr>"
    obtain es where b: "start_body name t = (Inr True, ?t, es)"
      using start_body_woken [OF on, of name] False by auto
    have rest: "swp (launch pt name) (\<lambda>r. swp (case r of
        Inl e \<Rightarrow> bind_task (clear_launching name) (\<lambda>_. bind_task (schedule_recovery name) (\<lambda>_. Return (Inl e)))
      | Inr _ \<Rightarrow> get_target_record name) Q) w1"
      if w1: "target_of w1 name = Some ?t" "others_same w w1 name" "wd_jobs w1 = wd_jobs w" for w1
    proof (rule launch_swp [OF w1(1)])
      show "\<not> rt_online ?t" using False by simp
    next
      fix e v assume v: "same_target w1 v"
      then have tv: "target_of v name = Some ?t" using w1(1) by (simp add: same_target_def target_of_def)
      have clear: "clear_launching_body ?t = ((), (woken t)\<lparr>rt_launching := False\<rparr>, [])"
        by (simp add: clear_launching_body_def)
      have "swp (clear_launching name)
        (\<lambda>_ u. Q (Inl e) (u\<lparr>wd_jobs := wd_jobs u @ [RecoveryJob name]\<rparr>)) v"
        unfolding clear_launching_def
        by (rule swp_at_target [where f = clear_launching_body, OF tv clear])
          (use v w1 False in \<open>auto intro!: failed [OF on refl]
            simp: same_target_def others_same_def target_of_def\<close>)
      then show "swp (case Inl e of
          Inl e \<Rightarrow> bind_task (clear_launching name) (\<lambda>_. bind_task (schedule_recovery name) (\<lambda>_. Return (Inl e)))
        | Inr _ \<Rightarrow> get_target_record name) Q v"
        by (simp add: schedule_recovery_def)
    next
      fix v js
      assume v: "target_of v name = Some (launched ?t)" "others_same w1 v name"
        "wd_jobs v = wd_jobs w1 @ ObserveJob name # js"
      have "launched ?t = launched (woken t)" by (simp add: launched_def bump_def)
      then show "swp (case Inr () of
          Inl e \<Rightarrow> bind_task (clear_launching name) (\<lambda>_. bind_task (schedule_recovery name) (\<lambda>_. Return (Inl e)))
        | Inr _ \<Rightarrow> get_target_record name) Q v"
        using v w1 started [OF on refl] others_same_trans by (simp add: swp_queries)
    qed
    show ?thesis
      unfolding start_def swp_then
      by (rule swp_at_target [where f = "start_body name", OF t b]) (use rest in simp)
  qed
qed

end
