(* ===== verification/Machine.thy ===== *)
theory Machine
  imports Tasks
begin

text \<open>
  Tasks that take turns over one state: what a step of a task does to the two mutexes, the
  shared state and the log of the events that were sent. The type of the results of the
  tasks is a parameter, and so is what a spawned job becomes: theory Interleaving runs the
  tasks of the daemon alone, theory Serving adds the connections of its clients.
\<close>

section \<open>Machines\<close>

record 'r machine =
  sy_inner :: inner
  sy_inner_owner :: "nat option"
  sy_mutation_owner :: "nat option"
  sy_tasks :: "'r task list"
  sy_log :: "event list"

definition resume :: "nat \<Rightarrow> 'r task \<Rightarrow> ('r, 'z) machine_scheme \<Rightarrow> ('r, 'z) machine_scheme" where
  "resume j p s = s\<lparr>sy_tasks := (sy_tasks s)[j := p]\<rparr>"

text \<open>What the environment may answer; a line of mpv that parses is a value of the parser.\<close>

inductive env_next :: "'r task \<Rightarrow> 'r task \<Rightarrow> bool" where
  env_connect: "env_next (Connect n k) (k x)"
| env_exchange: "env_next (Exchange n c k) (k r)"
| env_write: "env_next (WriteLines n cs k) (k x)"
| env_read: "reply_wf l \<Longrightarrow> env_next (ReadLine n k) (k l)"
| env_poll: "env_next (Poll n b k) (k x)"
| env_exists: "env_next (PathExists q k) (k x)"
| env_io: "env_next (Io op k) (k r')"
| env_dir: "env_next (ReadDir q k) (k d)"
| env_sleep: "env_next (Sleep t p) p"

inductive task_step ::
    "(job \<Rightarrow> 'r task) \<Rightarrow> ('r, 'z) machine_scheme \<Rightarrow> nat \<Rightarrow> ('r, 'z) machine_scheme \<Rightarrow> bool"
  for spawned where
  task_env:
    "j < length (sy_tasks s) \<Longrightarrow> env_next (sy_tasks s ! j) p \<Longrightarrow>
     task_step spawned s j (resume j p s)"
| task_spawn:
    "j < length (sy_tasks s) \<Longrightarrow> sy_tasks s ! j = Spawn job p \<Longrightarrow>
     task_step spawned s j (s\<lparr>sy_tasks := (sy_tasks s)[j := p] @ [spawned job]\<rparr>)"
| task_acquire:
    "j < length (sy_tasks s) \<Longrightarrow> sy_tasks s ! j = Acquire k \<Longrightarrow> sy_inner_owner s = None \<Longrightarrow>
     task_step spawned s j (resume j (k (sy_inner s)) s\<lparr>sy_inner_owner := Some j\<rparr>)"
| task_release:
    "j < length (sy_tasks s) \<Longrightarrow> sy_tasks s ! j = Release i es p \<Longrightarrow> sy_inner_owner s = Some j \<Longrightarrow>
     task_step spawned s j
       (resume j p s\<lparr>sy_inner := i, sy_inner_owner := None, sy_log := sy_log s @ es\<rparr>)"
| task_send:
    "j < length (sy_tasks s) \<Longrightarrow> sy_tasks s ! j = Send e p \<Longrightarrow>
     task_step spawned s j (resume j p s\<lparr>sy_log := sy_log s @ [e]\<rparr>)"
| task_lock:
    "j < length (sy_tasks s) \<Longrightarrow> sy_tasks s ! j = LockMutations p \<Longrightarrow>
     sy_mutation_owner s = None \<Longrightarrow>
     task_step spawned s j (resume j p s\<lparr>sy_mutation_owner := Some j\<rparr>)"
| task_unlock:
    "j < length (sy_tasks s) \<Longrightarrow> sy_tasks s ! j = UnlockMutations p \<Longrightarrow>
     sy_mutation_owner s = Some j \<Longrightarrow>
     task_step spawned s j (resume j p s\<lparr>sy_mutation_owner := None\<rparr>)"

inductive_cases env_nextE [elim!]:
  "env_next (Return r) p" "env_next (Panic m) p" "env_next (Acquire k) p"
  "env_next (Release i es q) p" "env_next (Send e q) p" "env_next (LockMutations q) p"
  "env_next (UnlockMutations q) p" "env_next (Spawn job q) p"

inductive_simps env_next_simps [simp]:
  "env_next (Connect n k1) p" "env_next (Exchange n c k2) p" "env_next (WriteLines n cs k1) p"
  "env_next (ReadLine n k3) p" "env_next (Poll n b k1) p" "env_next (PathExists q k1) p"
  "env_next (Io op k4) p" "env_next (ReadDir q k5) p" "env_next (Sleep d q) p"

section \<open>Progress of a task\<close>

text \<open>What a task needs before it can step.\<close>

fun enabled :: "('r, 'z) machine_scheme \<Rightarrow> nat \<Rightarrow> 'r task \<Rightarrow> bool" where
  "enabled s j (Return _) = False"
| "enabled s j (Panic _) = False"
| "enabled s j (Acquire _) = (sy_inner_owner s = None)"
| "enabled s j (Release _ _ _) = (sy_inner_owner s = Some j)"
| "enabled s j (LockMutations _) = (sy_mutation_owner s = None)"
| "enabled s j (UnlockMutations _) = (sy_mutation_owner s = Some j)"
| "enabled s j _ = True"

lemma enabled_task_step:
  assumes "j < length (sy_tasks s)" and "enabled s j (sy_tasks s ! j)"
  shows "\<exists>s'. task_step spawned s j s'"
proof (cases "\<exists>p. env_next (sy_tasks s ! j) p")
  case True
  then show ?thesis using assms(1) task_env by blast
next
  case False
  then show ?thesis
    using assms by (cases "sy_tasks s ! j")
      (auto intro: task_acquire task_release task_send task_lock task_unlock task_spawn
        simp: reply_wf_def split: option.splits)
qed

lemma task_step_enabled:
  "task_step spawned s j s' \<Longrightarrow> j < length (sy_tasks s) \<and> enabled s j (sy_tasks s ! j)"
proof (induction rule: task_step.induct)
  case (task_env j s p)
  then show ?case by (cases "sy_tasks s ! j") auto
qed auto

fun sends :: "'r task \<Rightarrow> bool" where
  "sends (Send _ _) = True"
| "sends _ = False"

section \<open>The results of a task\<close>

text \<open>The values a task may return, whatever it meets on its way.\<close>

lemma results_bind [simp]: "set_task (bind_task p g) = (\<Union>x \<in> set_task p. set_task (g x))"
  by (induction p) auto

lemma results_env: "env_next p q \<Longrightarrow> set_task q \<subseteq> set_task p"
  by (induction rule: env_next.induct) auto

text \<open>A step leaves the results of the other tasks as they were, narrows those of its own,
  and appends at most the job it spawns.\<close>

lemma task_step_results:
  assumes "task_step spawned s j t"
  shows "\<exists>p new. sy_tasks t = (sy_tasks s)[j := p] @ new \<and> j < length (sy_tasks s) \<and>
    set_task p \<subseteq> set_task (sy_tasks s ! j) \<and> (\<forall>q \<in> set new. \<exists>job. q = spawned job) \<and>
    (\<forall>x. sy_tasks s ! j \<noteq> Return x)"
  using assms
proof cases
  case (task_env p)
  then show ?thesis
    using results_env [of "sy_tasks s ! j" p]
    by (intro exI [of _ p] exI [of _ "[]"]) (auto simp: resume_def)
next
  case (task_spawn job p)
  then show ?thesis by (intro exI [of _ p] exI [of _ "[spawned job]"]) auto
qed (fastforce simp: resume_def)+

lemma task_step_log: "task_step spawned s j t \<Longrightarrow> \<exists>es. sy_log t = sy_log s @ es"
  by (cases rule: task_step.cases) (auto simp: resume_def)

lemma task_step_more: "task_step spawned s j t \<Longrightarrow> machine.more t = machine.more s"
  by (cases rule: task_step.cases) (auto simp: resume_def)

section \<open>Forgetting the results\<close>

text \<open>The same machine whose tasks do not tell what they return.\<close>

definition erase :: "('r, 'z) machine_scheme \<Rightarrow> unit machine" where
  "erase s = \<lparr>sy_inner = sy_inner s, sy_inner_owner = sy_inner_owner s,
     sy_mutation_owner = sy_mutation_owner s, sy_tasks = map (map_task (\<lambda>_. ())) (sy_tasks s),
     sy_log = sy_log s\<rparr>"

lemma erase_simps [simp]:
  "sy_inner (erase s) = sy_inner s" "sy_inner_owner (erase s) = sy_inner_owner s"
  "sy_mutation_owner (erase s) = sy_mutation_owner s" "sy_log (erase s) = sy_log s"
  "sy_tasks (erase s) = map (map_task (\<lambda>_. ())) (sy_tasks s)"
  by (simp_all add: erase_def)

lemma erase_env: "env_next p q \<Longrightarrow> env_next (map_task f p) (map_task f q)"
  by (induction rule: env_next.induct) auto

lemma erase_bind: "map_task f (bind_task p g) = bind_task p (\<lambda>x. map_task f (g x))"
  by (induction p) (auto simp: fun_eq_iff)

lemma erase_unit [simp]: "map_task (\<lambda>_. ()) p = p"
proof -
  have "(\<lambda>_ :: unit. ()) = id" by auto
  then show ?thesis by (simp add: task.map_id)
qed

lemma erase_sends [simp]: "sends (map_task f p) = sends p"
  by (cases p) auto

lemma erase_return [simp]: "map_task (\<lambda>_. ()) p = Return () \<longleftrightarrow> (\<exists>x. p = Return x)"
  by (cases p) auto

lemma erase_step:
  assumes "task_step spawned s j t" and "\<And>job. map_task (\<lambda>_. ()) (spawned job) = spawned' job"
  shows "task_step spawned' (erase s) j (erase t)"
  using assms(1)
proof cases
  case (task_env p)
  then have "task_step spawned' (erase s) j (resume j (map_task (\<lambda>_. ()) p) (erase s))"
    by (intro task_step.task_env) (auto intro: erase_env)
  then show ?thesis using task_env by (simp add: erase_def resume_def map_update)
next
  case (task_spawn job p)
  then have "task_step spawned' (erase s) j (erase s\<lparr>sy_tasks :=
      (sy_tasks (erase s))[j := map_task (\<lambda>_. ()) p] @ [spawned' job]\<rparr>)"
    by (intro task_step.task_spawn) auto
  then show ?thesis using task_spawn assms(2) by (simp add: erase_def map_update)
next
  case (task_acquire k)
  then have "task_step spawned' (erase s) j (resume j (map_task (\<lambda>_. ()) (k (sy_inner s))) (erase s)
      \<lparr>sy_inner_owner := Some j\<rparr>)"
    using task_step.task_acquire [of j "erase s" "map_task (\<lambda>_. ()) \<circ> k" spawned'] by auto
  then show ?thesis using task_acquire by (simp add: erase_def resume_def map_update)
next
  case (task_release i es p)
  then have "task_step spawned' (erase s) j (resume j (map_task (\<lambda>_. ()) p) (erase s)
      \<lparr>sy_inner := i, sy_inner_owner := None, sy_log := sy_log (erase s) @ es\<rparr>)"
    by (intro task_step.task_release) auto
  then show ?thesis using task_release by (simp add: erase_def resume_def map_update)
next
  case (task_send e p)
  then have "task_step spawned' (erase s) j (resume j (map_task (\<lambda>_. ()) p) (erase s)
      \<lparr>sy_log := sy_log (erase s) @ [e]\<rparr>)"
    by (intro task_step.task_send) auto
  then show ?thesis using task_send by (simp add: erase_def resume_def map_update)
next
  case (task_lock p)
  then have "task_step spawned' (erase s) j (resume j (map_task (\<lambda>_. ()) p) (erase s)
      \<lparr>sy_mutation_owner := Some j\<rparr>)"
    by (intro task_step.task_lock) auto
  then show ?thesis using task_lock by (simp add: erase_def resume_def map_update)
next
  case (task_unlock p)
  then have "task_step spawned' (erase s) j (resume j (map_task (\<lambda>_. ()) p) (erase s)
      \<lparr>sy_mutation_owner := None\<rparr>)"
    by (intro task_step.task_unlock) auto
  then show ?thesis using task_unlock by (simp add: erase_def resume_def map_update)
qed

lemma erase_enabled [simp]: "enabled (erase s) j (map_task f p) = enabled s j p"
  by (cases p) auto

end
