(* ===== verification/Interleaving.thy ===== *)
theory Interleaving
  imports Guarded Machine
begin

text \<open>
  The daemon as a system of tasks over one supervisor. A step lets one task take a lock,
  release it, send an event, or hear from its environment; a new request may arrive once
  the configured targets have been started. The order of steps is not restricted.
\<close>

section \<open>The system\<close>

type_synonym system = "unit machine"

definition boot_task :: "paths \<Rightarrow> unit task" where
  "boot_task pt = bind_task (start_configured_targets pt) (\<lambda>_. Return ())"

definition request_task :: "paths \<Rightarrow> request \<Rightarrow> unit task" where
  "request_task pt r = bind_task (handle_request pt r) (\<lambda>_. Return ())"

definition sys_init :: "paths \<Rightarrow> daemon_config \<Rightarrow> system" where
  "sys_init pt config =
     \<lparr>sy_inner = new_inner config, sy_inner_owner = None, sy_mutation_owner = None,
      sy_tasks = [boot_task pt], sy_log = []\<rparr>"

definition booting :: "system \<Rightarrow> bool" where
  "booting s \<longleftrightarrow> sy_tasks s ! 0 \<noteq> Return ()"

inductive sys_step :: "paths \<Rightarrow> system \<Rightarrow> nat option \<Rightarrow> system \<Rightarrow> bool" for pt where
  step_task: "task_step (job_task pt) s j t \<Longrightarrow> sys_step pt s (Some j) t"
| step_request:
    "\<not> booting s \<Longrightarrow>
     sys_step pt s None (s\<lparr>sy_tasks := sy_tasks s @ [request_task pt r]\<rparr>)"

inductive_simps sys_step_task [simp]: "sys_step pt s (Some j) t"

inductive sys_reaches :: "paths \<Rightarrow> system \<Rightarrow> system \<Rightarrow> bool" for pt where
  reach_refl: "sys_reaches pt s s"
| reach_step: "sys_reaches pt s t \<Longrightarrow> sys_step pt t l u \<Longrightarrow> sys_reaches pt s u"

section \<open>The start\<close>

lemma new_inner_ok:
  assumes "validate_config config = Inr ()"
  shows "registry_ok (new_inner config)"
proof -
  let ?f = "\<lambda>t. (tc_name t, fresh_runtime t (tc_disabled t))"
  have d: "distinct (map tc_name (dc_targets config))" using assms by (simp add: validate_config_iff)
  have "map_option rt_config (map_of (map ?f ts) n) = find (\<lambda>t. tc_name t = n) ts" for n ts
    by (induction ts) (auto simp: fresh_runtime_def)
  moreover have "map_of (rev (map ?f (dc_targets config))) = map_of (map ?f (dc_targets config))"
    using d by (intro map_of_rev_distinct) (simp add: comp_def)
  ultimately show ?thesis
    using assms by (simp add: registry_ok_def consistent_def new_inner_def bt_wf_of_list bt_get_of_list)
qed

section \<open>The invariant\<close>

definition settled :: "unit \<Rightarrow> mode \<Rightarrow> hold \<Rightarrow> bool" where
  "settled u m h \<longleftrightarrow> \<not> is_guarded m \<and> h = Free"

text \<open>While the daemon boots nobody changes the configured targets; afterwards only the
  holder of the mutation lock does.\<close>

definition modes :: "system \<Rightarrow> nat \<Rightarrow> mode set" where
  "modes s j =
     (if booting s then (if j = 0 then {Frozen (core (sy_inner s))}
                         else {Frozen (core (sy_inner s)), Shared})
      else if sy_mutation_owner s = Some j then {Guarded (core (sy_inner s))}
      else {Shared})"

definition hold_ok :: "system \<Rightarrow> nat \<Rightarrow> hold \<Rightarrow> bool" where
  "hold_ok s j h \<longleftrightarrow>
     (if sy_inner_owner s = Some j then h = Held (sy_inner s) else \<forall>i. h \<noteq> Held i)"

definition task_ok :: "system \<Rightarrow> nat \<Rightarrow> hold \<Rightarrow> unit task \<Rightarrow> bool" where
  "task_ok s j h p \<longleftrightarrow> hold_ok s j h \<and> (\<forall>m \<in> modes s j. wp p settled m h)"

definition sys_ok :: "(nat \<Rightarrow> hold) \<Rightarrow> system \<Rightarrow> bool" where
  "sys_ok hf s \<longleftrightarrow>
     registry_ok (sy_inner s) \<and> sy_tasks s \<noteq> [] \<and>
     (booting s \<longrightarrow> sy_mutation_owner s = None) \<and>
     (\<forall>j. sy_mutation_owner s = Some j \<longrightarrow> j < length (sy_tasks s)) \<and>
     (\<forall>j < length (sy_tasks s). task_ok s j (hf j) (sy_tasks s ! j)) \<and>
     (\<forall>j \<ge> length (sy_tasks s). hf j = Free \<and> sy_inner_owner s \<noteq> Some j)"

text \<open>What a step of one task does to the log, to the state, and to what the task owes.\<close>

definition step_effect :: "(nat \<Rightarrow> hold) \<Rightarrow> system \<Rightarrow> nat \<Rightarrow> (nat \<Rightarrow> hold) \<Rightarrow> system \<Rightarrow> bool" where
  "step_effect hf s j hf' s' \<longleftrightarrow>
     (\<forall>k. k \<noteq> j \<longrightarrow> hf' k = hf k) \<and>
     (\<not> owes (hf j) \<and> \<not> owes (hf' j) \<and>
        (\<exists>es. sy_log s' = sy_log s @ es \<and> replicates (sy_inner s) es (sy_inner s')) \<or>
      \<not> owes (hf j) \<and> hf' j = Owes (sy_inner s) (sy_inner s') \<and> sy_log s' = sy_log s \<or>
      (\<exists>a b e. hf j = Owes a b \<and> hf' j = Free \<and> sy_inner s' = sy_inner s \<and>
         sy_log s' = sy_log s @ [e] \<and> replicates a [e] b))"

lemma modes_nonempty: "modes s j \<noteq> {}"
  by (simp add: modes_def)

lemma booting_step:
  assumes "sy_tasks s' = (sy_tasks s)[j := p] @ new" and "j < length (sy_tasks s)"
    and "sy_tasks s ! j \<noteq> Return ()"
  shows "booting s' \<Longrightarrow> booting s" and "j \<noteq> 0 \<Longrightarrow> booting s' \<longleftrightarrow> booting s"
proof -
  have tasks: "sy_tasks s' ! 0 = (if j = 0 then p else sy_tasks s ! 0)"
    using assms(1,2) by (auto simp: nth_append)
  then show "booting s' \<Longrightarrow> booting s"
    using assms(3) by (auto simp: booting_def split: if_splits)
  show "j \<noteq> 0 \<Longrightarrow> booting s' \<longleftrightarrow> booting s"
    using tasks by (simp add: booting_def)
qed

text \<open>A step of one task leaves the obligations of every other task as they were.\<close>

lemma other_task_ok:
  assumes ok: "sys_ok hf s" and tasks: "sy_tasks s' = (sy_tasks s)[j := p] @ new"
    and j: "j < length (sy_tasks s)" "sy_tasks s ! j \<noteq> Return ()"
    and k: "k < length (sy_tasks s)" "k \<noteq> j"
    and owner: "sy_inner_owner s' = Some k \<longleftrightarrow> sy_inner_owner s = Some k"
    and inner: "sy_inner_owner s = Some k \<Longrightarrow> sy_inner s' = sy_inner s"
    and core: "core (sy_inner s') = core (sy_inner s) \<or> sy_mutation_owner s = Some j"
    and mutations: "sy_mutation_owner s' = Some k \<longleftrightarrow> sy_mutation_owner s = Some k"
  shows "task_ok s' k (hf k) (sy_tasks s' ! k)"
proof -
  have t: "sy_tasks s' ! k = sy_tasks s ! k"
    using tasks j k by (simp add: nth_append)
  have old: "task_ok s k (hf k) (sy_tasks s ! k)" using ok k by (simp add: sys_ok_def)
  note boot = booting_step [OF tasks j]
  have "booting s \<Longrightarrow> core (sy_inner s') = core (sy_inner s)" and "booting s \<Longrightarrow> sy_mutation_owner s = None"
    using ok core by (auto simp: sys_ok_def)
  then have "modes s' k \<subseteq> modes s k"
    using boot k(2) core mutations
    by (cases "booting s"; cases "booting s'"; cases "j = 0") (auto simp: modes_def)
  moreover have "hold_ok s' k (hf k)"
    using old owner inner by (auto simp: task_ok_def hold_ok_def)
  ultimately show ?thesis
    using old t by (auto simp: task_ok_def)
qed

lemma own_modes:
  assumes ok: "sys_ok hf s" and tasks: "sy_tasks s' = (sy_tasks s)[j := p] @ new"
    and j: "j < length (sy_tasks s)" "sy_tasks s ! j \<noteq> Return ()"
    and core: "core (sy_inner s') = core (sy_inner s)"
    and mutations: "sy_mutation_owner s' = sy_mutation_owner s"
    and wp: "\<forall>m \<in> modes s j. wp p settled m h"
  shows "\<forall>m \<in> modes s' j. wp p settled m h"
proof (cases "j = 0 \<and> booting s \<and> \<not> booting s'")
  case True
  then have "p = Return ()" using tasks j by (auto simp: booting_def nth_append)
  moreover have "sy_mutation_owner s' = None" using ok True mutations by (simp add: sys_ok_def)
  ultimately show ?thesis
    using True wp by (simp add: modes_def settled_def)
next
  case False
  have "modes s' j \<subseteq> modes s j"
    using False core mutations booting_step [OF tasks j] by (auto simp: modes_def)
  then show ?thesis using wp by blast
qed

text \<open>Every task satisfies its obligations after a step of task \<open>j\<close> if task \<open>j\<close> does.\<close>

lemma sys_ok_step:
  assumes ok: "sys_ok hf s" and tasks: "sy_tasks s' = (sy_tasks s)[j := p] @ new"
    and j: "j < length (sy_tasks s)" "sy_tasks s ! j \<noteq> Return ()"
    and new: "\<forall>q \<in> set new. calm q"
    and owner: "\<And>k. k \<noteq> j \<Longrightarrow> sy_inner_owner s' = Some k \<longleftrightarrow> sy_inner_owner s = Some k"
    and inner: "sy_inner s' = sy_inner s \<or> sy_inner_owner s = Some j"
    and core: "core (sy_inner s') = core (sy_inner s) \<or> sy_mutation_owner s = Some j"
    and mutations: "\<And>k. k \<noteq> j \<Longrightarrow> sy_mutation_owner s' = Some k \<longleftrightarrow> sy_mutation_owner s = Some k"
    and boot: "booting s' \<Longrightarrow> sy_mutation_owner s' = None"
    and reg: "registry_ok (sy_inner s')"
    and own: "task_ok s' j h p"
  shows "sys_ok (hf(j := h)) s'"
proof -
  let ?n = "length (sy_tasks s)"
  have bound: "sy_inner_owner s' \<noteq> Some k" "sy_mutation_owner s' \<noteq> Some k" if "k \<ge> ?n" for k
    using ok owner [of k] mutations [of k] that j(1) by (auto simp: sys_ok_def)
  have "task_ok s' k ((hf(j := h)) k) (sy_tasks s' ! k)" if k: "k < length (sy_tasks s')" for k
  proof -
    consider "k = j" | "k < ?n" "k \<noteq> j" | "k \<ge> ?n" by linarith
    then show ?thesis
    proof cases
      case 1
      then show ?thesis using own tasks j(1) by (simp add: nth_append)
    next
      case 2
      then show ?thesis
        using other_task_ok [OF ok tasks j] owner inner core mutations by auto
    next
      case 3
      then have "sy_tasks s' ! k \<in> set new" using tasks k by (auto simp: nth_append)
      with new have "calm (sy_tasks s' ! k)" by blast
      then have "wp (sy_tasks s' ! k) settled m Free" if "\<not> is_guarded m" for m
        using that by (intro calm_wp) (simp_all add: settled_def)
      moreover have "hf k = Free" using ok 3 by (simp add: sys_ok_def)
      ultimately show ?thesis
        using bound [OF 3] 3 j(1) by (auto simp: task_ok_def hold_ok_def modes_def)
    qed
  qed
  moreover have "hf k = Free" if "k \<ge> length (sy_tasks s')" for k
    using ok that tasks by (simp add: sys_ok_def)
  moreover have "k < length (sy_tasks s')" if "sy_mutation_owner s' = Some k" for k
    using bound(2) [of k] that tasks by (cases "k < ?n") auto
  ultimately show ?thesis
    using reg boot bound(1) tasks j(1) by (auto simp: sys_ok_def)
qed

lemma task_at:
  assumes "sys_ok hf s" and "j < length (sy_tasks s)"
  shows "hold_ok s j (hf j)" and "m \<in> modes s j \<Longrightarrow> wp (sy_tasks s ! j) settled m (hf j)"
  using assms by (auto simp: sys_ok_def task_ok_def)

lemma quiet_step:
  assumes ok: "sys_ok hf s" and j: "j < length (sy_tasks s)" "sy_tasks s ! j \<noteq> Return ()"
    and new: "\<forall>q \<in> set new. calm q"
    and wp: "\<And>m. wp (sy_tasks s ! j) settled m (hf j) \<Longrightarrow> \<not> owes (hf j) \<and> wp p settled m (hf j)"
  shows "sys_ok (hf(j := hf j)) (s\<lparr>sy_tasks := (sy_tasks s)[j := p] @ new\<rparr>) \<and>
    step_effect hf s j (hf(j := hf j)) (s\<lparr>sy_tasks := (sy_tasks s)[j := p] @ new\<rparr>)"
proof
  let ?s = "s\<lparr>sy_tasks := (sy_tasks s)[j := p] @ new\<rparr>"
  have tasks: "sy_tasks ?s = (sy_tasks s)[j := p] @ new" by simp
  have "\<forall>m \<in> modes s j. wp p settled m (hf j)" using wp task_at(2) [OF ok j(1)] by blast
  then have "\<forall>m \<in> modes ?s j. wp p settled m (hf j)"
    using own_modes [OF ok tasks j] by simp
  moreover have "hold_ok ?s j (hf j)" using task_at(1) [OF ok j(1)] by (simp add: hold_ok_def)
  ultimately have own: "task_ok ?s j (hf j) p" by (simp add: task_ok_def)
  show "sys_ok (hf(j := hf j)) ?s"
    by (rule sys_ok_step [OF ok tasks j new _ _ _ _ _ _ own])
      (use ok booting_step [OF tasks j] in \<open>auto simp: sys_ok_def\<close>)
  have "\<not> owes (hf j)"
    using wp task_at(2) [OF ok j(1)] modes_nonempty [of s j] by blast
  then show "step_effect hf s j (hf(j := hf j)) ?s"
    by (simp add: step_effect_def)
qed

lemma wp_env: "env_next p p' \<Longrightarrow> wp p Q m h \<Longrightarrow> \<not> owes h \<and> wp p' Q m h \<and> p \<noteq> Return ()"
  by (cases rule: env_next.cases) auto

lemma calm_job_settled: "\<forall>q \<in> set [job_task pt job]. calm q"
  by (simp add: calm_job)

section \<open>Each step keeps the invariant\<close>

lemma acquire_ok:
  assumes ok: "sys_ok hf s" and j: "j < length (sy_tasks s)" and t: "sy_tasks s ! j = Acquire k"
    and free: "sy_inner_owner s = None"
  defines "s' \<equiv> resume j (k (sy_inner s)) s\<lparr>sy_inner_owner := Some j\<rparr>"
  shows "sys_ok (hf(j := Held (sy_inner s))) s' \<and> step_effect hf s j (hf(j := Held (sy_inner s))) s'"
proof
  have tasks: "sy_tasks s' = (sy_tasks s)[j := k (sy_inner s)] @ []" by (simp add: s'_def resume_def)
  have busy: "sy_tasks s ! j \<noteq> Return ()" using t by simp
  have reg: "registry_ok (sy_inner s)" using ok by (simp add: sys_ok_def)
  have "knows m (sy_inner s)" if "m \<in> modes s j" for m
    using that by (auto simp: modes_def split: if_splits)
  then have wp: "\<forall>m \<in> modes s j. wp (k (sy_inner s)) settled m (Held (sy_inner s))"
    using task_at(2) [OF ok j] t reg by auto
  have idle: "hf j = Free"
    using task_at(2) [OF ok j] t modes_nonempty [of s j] by auto
  have "\<forall>m \<in> modes s' j. wp (k (sy_inner s)) settled m (Held (sy_inner s))"
    by (rule own_modes [OF ok tasks j busy _ _ wp]) (simp_all add: s'_def resume_def)
  then have own: "task_ok s' j (Held (sy_inner s)) (k (sy_inner s))"
    by (simp add: task_ok_def hold_ok_def s'_def resume_def)
  show "sys_ok (hf(j := Held (sy_inner s))) s'"
    by (rule sys_ok_step [OF ok tasks j busy _ _ _ _ _ _ _ own])
      (use ok free booting_step [OF tasks j busy] in \<open>auto simp: sys_ok_def s'_def resume_def\<close>)
  show "step_effect hf s j (hf(j := Held (sy_inner s))) s'"
    using idle by (auto simp: step_effect_def s'_def resume_def)
qed

lemma release_wp:
  assumes "wp (Release i es p) settled m h" and "h = Held i0"
  shows "registry_ok i \<and> (is_guarded m \<or> core i = core i0) \<and>
     (replicates i0 es i \<and> wp p settled (learn i m) Free \<or>
      \<not> replicates i0 es i \<and> es = [] \<and> wp p settled (learn i m) (Owes i0 i))"
  using assms by (auto split: if_splits)

lemma release_ok:
  assumes ok: "sys_ok hf s" and j: "j < length (sy_tasks s)" and t: "sy_tasks s ! j = Release i es p"
    and owner: "sy_inner_owner s = Some j"
  defines "s' \<equiv> resume j p s\<lparr>sy_inner := i, sy_inner_owner := None, sy_log := sy_log s @ es\<rparr>"
  defines "h \<equiv> if replicates (sy_inner s) es i then Free else Owes (sy_inner s) i"
  shows "sys_ok (hf(j := h)) s' \<and> step_effect hf s j (hf(j := h)) s'"
proof
  have tasks: "sy_tasks s' = (sy_tasks s)[j := p] @ []" by (simp add: s'_def resume_def)
  have busy: "sy_tasks s ! j \<noteq> Return ()" using t by simp
  have held: "hf j = Held (sy_inner s)" using task_at(1) [OF ok j] owner by (simp add: hold_ok_def)
  have wp: "registry_ok i \<and> (is_guarded m \<or> core i = core (sy_inner s)) \<and>
      wp p settled (learn i m) h \<and> (replicates (sy_inner s) es i \<or> es = [])"
    if "m \<in> modes s j" for m
    using release_wp [of i es p m "hf j" "sy_inner s"] task_at(2) [OF ok j that] t held
    by (auto simp: h_def)
  obtain m0 where m0: "m0 \<in> modes s j" using modes_nonempty [of s j] by blast
  have guard: "is_guarded m \<longleftrightarrow> sy_mutation_owner s = Some j" if "m \<in> modes s j" for m
    using that ok by (auto simp: modes_def sys_ok_def split: if_splits)
  have core: "core i = core (sy_inner s) \<or> sy_mutation_owner s = Some j"
    using wp [OF m0] guard [OF m0] by blast
  have "\<forall>m \<in> modes s' j. wp p settled m h"
  proof (cases "sy_mutation_owner s = Some j")
    case True
    then have "\<not> booting s" using ok by (auto simp: sys_ok_def)
    then show ?thesis
      using True wp booting_step(1) [OF tasks j busy] by (auto simp: modes_def s'_def resume_def)
  next
    case False
    then have same: "core i = core (sy_inner s)" using core by blast
    have "learn i m = m" if "m \<in> modes s j" for m
      using guard [OF that] False by (cases m) auto
    then have "\<forall>m \<in> modes s j. wp p settled m h" using wp by metis
    from own_modes [OF ok tasks j busy _ _ this] same show ?thesis
      by (simp add: s'_def resume_def)
  qed
  then have own: "task_ok s' j h p"
    by (simp add: task_ok_def hold_ok_def s'_def resume_def h_def)
  show "sys_ok (hf(j := h)) s'"
    by (rule sys_ok_step [OF ok tasks j busy _ _ _ _ _ _ _ own])
      (use ok owner core wp [OF m0] booting_step [OF tasks j busy] in
        \<open>auto simp: sys_ok_def s'_def resume_def\<close>)
  show "step_effect hf s j (hf(j := h)) s'"
    using held wp [OF m0] by (auto simp: step_effect_def s'_def resume_def h_def)
qed

lemma send_ok:
  assumes ok: "sys_ok hf s" and j: "j < length (sy_tasks s)" and t: "sy_tasks s ! j = Send e p"
  defines "s' \<equiv> resume j p s\<lparr>sy_log := sy_log s @ [e]\<rparr>"
  shows "sys_ok (hf(j := Free)) s' \<and> step_effect hf s j (hf(j := Free)) s'"
proof
  have tasks: "sy_tasks s' = (sy_tasks s)[j := p] @ []" by (simp add: s'_def resume_def)
  have busy: "sy_tasks s ! j \<noteq> Return ()" using t by simp
  have wp: "\<exists>a b. hf j = Owes a b \<and> replicates a [e] b \<and> wp p settled m Free"
    if "m \<in> modes s j" for m
    using task_at(2) [OF ok j that] t by simp
  obtain a b where ab: "hf j = Owes a b" "replicates a [e] b"
    using wp modes_nonempty [of s j] by blast
  have "\<forall>m \<in> modes s' j. wp p settled m Free"
    using own_modes [OF ok tasks j busy, of Free] wp by (auto simp: s'_def resume_def)
  moreover have "sy_inner_owner s \<noteq> Some j"
    using task_at(1) [OF ok j] ab by (auto simp: hold_ok_def split: if_splits)
  ultimately have own: "task_ok s' j Free p"
    by (simp add: task_ok_def hold_ok_def s'_def resume_def)
  show "sys_ok (hf(j := Free)) s'"
    by (rule sys_ok_step [OF ok tasks j busy _ _ _ _ _ _ _ own])
      (use ok booting_step [OF tasks j busy] in \<open>auto simp: sys_ok_def s'_def resume_def\<close>)
  show "step_effect hf s j (hf(j := Free)) s'"
    using ab by (auto simp: step_effect_def s'_def resume_def)
qed

lemma lock_ok:
  assumes ok: "sys_ok hf s" and j: "j < length (sy_tasks s)" and t: "sy_tasks s ! j = LockMutations p"
    and free: "sy_mutation_owner s = None"
  defines "s' \<equiv> resume j p s\<lparr>sy_mutation_owner := Some j\<rparr>"
  shows "sys_ok (hf(j := Free)) s' \<and> step_effect hf s j (hf(j := Free)) s'"
proof
  have tasks: "sy_tasks s' = (sy_tasks s)[j := p] @ []" by (simp add: s'_def resume_def)
  have busy: "sy_tasks s ! j \<noteq> Return ()" using t by simp
  have wp: "m = Shared \<and> hf j = Free \<and> (\<forall>c. wp p settled (Guarded c) Free)"
    if "m \<in> modes s j" for m
    using task_at(2) [OF ok j that] t by (auto simp del: split_paired_All)
  then have mode: "modes s j = {Shared}" and idle: "hf j = Free"
    using modes_nonempty [of s j] by blast+
  then have run: "\<not> booting s" by (auto simp: modes_def split: if_splits)
  then have quiet: "\<not> booting s'" using booting_step(1) [OF tasks j busy] by blast
  moreover have "wp p settled (Guarded c) Free" for c using wp mode by blast
  ultimately have "\<forall>m \<in> modes s' j. wp p settled m Free"
    by (simp add: modes_def s'_def resume_def)
  moreover have "sy_inner_owner s \<noteq> Some j"
    using task_at(1) [OF ok j] idle by (auto simp: hold_ok_def split: if_splits)
  ultimately have own: "task_ok s' j Free p"
    by (simp add: task_ok_def hold_ok_def s'_def resume_def)
  show "sys_ok (hf(j := Free)) s'"
    by (rule sys_ok_step [OF ok tasks j busy _ _ _ _ _ _ _ own])
      (use ok free quiet in \<open>auto simp: sys_ok_def s'_def resume_def\<close>)
  show "step_effect hf s j (hf(j := Free)) s'"
    using idle by (auto simp: step_effect_def s'_def resume_def)
qed

lemma unlock_ok:
  assumes ok: "sys_ok hf s" and j: "j < length (sy_tasks s)" and t: "sy_tasks s ! j = UnlockMutations p"
    and owner: "sy_mutation_owner s = Some j"
  defines "s' \<equiv> resume j p s\<lparr>sy_mutation_owner := None\<rparr>"
  shows "sys_ok (hf(j := Free)) s' \<and> step_effect hf s j (hf(j := Free)) s'"
proof
  have tasks: "sy_tasks s' = (sy_tasks s)[j := p] @ []" by (simp add: s'_def resume_def)
  have busy: "sy_tasks s ! j \<noteq> Return ()" using t by simp
  have wp: "hf j = Free \<and> wp p settled Shared Free" if "m \<in> modes s j" for m
    using task_at(2) [OF ok j that] t by auto
  then have idle: "hf j = Free" and p: "wp p settled Shared Free"
    using modes_nonempty [of s j] by blast+
  have "\<not> booting s" using ok owner by (auto simp: sys_ok_def)
  then have "\<not> booting s'" using booting_step(1) [OF tasks j busy] by blast
  then have "\<forall>m \<in> modes s' j. wp p settled m Free"
    using p by (auto simp: modes_def s'_def resume_def)
  moreover have "sy_inner_owner s \<noteq> Some j"
    using task_at(1) [OF ok j] idle by (auto simp: hold_ok_def split: if_splits)
  ultimately have own: "task_ok s' j Free p"
    by (simp add: task_ok_def hold_ok_def s'_def resume_def)
  show "sys_ok (hf(j := Free)) s'"
    by (rule sys_ok_step [OF ok tasks j busy _ _ _ _ _ _ _ own])
      (use ok owner \<open>\<not> booting s'\<close> in \<open>auto simp: sys_ok_def s'_def resume_def\<close>)
  show "step_effect hf s j (hf(j := Free)) s'"
    using idle by (auto simp: step_effect_def s'_def resume_def)
qed

lemma sys_step_ok:
  assumes step: "sys_step pt s (Some j) s'" and ok: "sys_ok hf s"
  shows "\<exists>hf'. sys_ok hf' s' \<and> step_effect hf s j hf' s'"
  using step unfolding sys_step_task
proof cases
  case (task_env p)
  then show ?thesis
    using quiet_step [OF ok, of j "[]" p] wp_env [OF task_env(3)] task_at(2) [OF ok task_env(2)]
      modes_nonempty [of s j] by (fastforce simp: resume_def)
next
  case (task_spawn job p)
  then show ?thesis
    using quiet_step [OF ok task_spawn(2) _ calm_job_settled, of p pt job] by auto
next
  case (task_acquire k)
  then show ?thesis using acquire_ok [OF ok] by blast
next
  case (task_release i es p)
  then show ?thesis using release_ok [OF ok] by blast
next
  case (task_send e p)
  then show ?thesis using send_ok [OF ok] by blast
next
  case (task_lock p)
  then show ?thesis using lock_ok [OF ok] by blast
next
  case (task_unlock p)
  then show ?thesis using unlock_ok [OF ok] by blast
qed

lemma sys_request_ok:
  assumes step: "sys_step pt s None s'" and ok: "sys_ok hf s"
  shows "sys_ok hf s' \<and> sy_inner s' = sy_inner s \<and> sy_log s' = sy_log s \<and>
    (\<exists>p. sy_tasks s' = sy_tasks s @ [p])"
  using step
proof (cases rule: sys_step.cases)
  case (step_request r)
  let ?n = "length (sy_tasks s)"
  have "settles (request_task pt r)"
    unfolding request_task_def by (intro settles_bind settles_handle calm_settles calm_Return)
  then have p: "wp (request_task pt r) settled Shared Free"
    unfolding settles_def by (rule wp_mono) (simp add: settled_def)
  have same: "booting s' = booting s" "modes s' k = modes s k" "hold_ok s' k h = hold_ok s k h" for k h
    using ok step_request by (auto simp: booting_def modes_def hold_ok_def sys_ok_def nth_append)
  have last: "modes s ?n = {Shared}" "hf ?n = Free" "sy_inner_owner s \<noteq> Some ?n"
    using ok step_request by (auto simp: modes_def sys_ok_def)
  have "task_ok s' k (hf k) (sy_tasks s' ! k)" if "k < length (sy_tasks s')" for k
  proof (cases "k < ?n")
    case True
    then show ?thesis using ok step_request same by (auto simp: sys_ok_def task_ok_def nth_append)
  next
    case False
    then have "k = ?n" using that step_request by simp
    then show ?thesis using p last same step_request by (simp add: task_ok_def hold_ok_def nth_append)
  qed
  then show ?thesis using ok step_request same by (auto simp: sys_ok_def less_SucI)
qed

section \<open>The start satisfies the invariant\<close>

lemma start_targets_frozen:
  assumes "\<And>n i. n \<in> set names \<Longrightarrow> core i = c \<Longrightarrow> bt_get (in_targets i) n \<noteq> None"
  shows "wp (start_targets pt names) (\<lambda>_ m h. m = Frozen c \<and> h = Free) (Frozen c) Free"
  using assms
proof (induction names)
  case (Cons name names)
  let ?Q = "\<lambda>_ m h. m = Frozen c \<and> h = Free"
  have rest: "wp (start_targets pt names) ?Q (Frozen c) Free"
    using Cons by simp
  have step: "wp (bind_task p g) ?Q (Frozen c) Free"
    if "calm p" "\<And>r. wp (g r) ?Q (Frozen c) Free" for p :: "'x task" and g
    unfolding wp_bind by (rule calm_wp [OF that(1)]) (rule that(2))
  show ?case
    unfolding start_targets.simps
  proof (rule wp_locked_readI)
    fix i assume "registry_ok i" "knows (Frozen c) i"
    then obtain t where "bt_get (in_targets i) name = Some t" using Cons.prems by fastforce
    then show "wp (case map_option (\<lambda>t. tc_disabled (rt_config t)) (bt_get (in_targets i) name) of
         None \<Rightarrow> Panic ''no entry found for key''
       | Some disabled \<Rightarrow>
           if disabled then then_task (ensure_disabled_off name) (\<lambda>_. start_targets pt names)
           else
             bind_task (socket_is_live name) (\<lambda>live.
               if live then bind_task (mark_online name) (\<lambda>_. start_targets pt names)
               else bind_task (start pt name) (\<lambda>r.
                 if is_ok r then start_targets pt names
                 else bind_task (schedule_recovery name) (\<lambda>_. start_targets pt names))))
      ?Q (Frozen c) Free"
      using rest
      by (auto simp: then_task_def simp del: wp_bind intro!: step calm_disabled_off calm_sockets
          calm_marks calm_start split: sum.splits)
  qed
qed simp

lemma boot_frozen: "wp (boot_task pt) settled (Frozen c) Free"
proof -
  have "wp (start_configured_targets pt) (\<lambda>_ m h. m = Frozen c \<and> h = Free) (Frozen c) Free"
    unfolding start_configured_targets_def
  proof (rule wp_locked_readI, rule start_targets_frozen)
    fix i n j
    assume "knows (Frozen c) i" "n \<in> set (bt_keys (in_targets i))" "core j = c"
    then show "bt_get (in_targets j) n \<noteq> None"
      using core_targets(3) [of i j] bt_keys_get [of n "in_targets j"] by simp
  qed
  then show ?thesis
    unfolding boot_task_def wp_bind by (rule wp_mono) (simp add: settled_def)
qed

lemma sys_init_ok:
  assumes "validate_config config = Inr ()"
  shows "sys_ok (\<lambda>_. Free) (sys_init pt config)"
proof -
  let ?s = "sys_init pt config"
  have "booting ?s"
    by (auto simp: booting_def sys_init_def boot_task_def start_configured_targets_def locked_def)
  then have "task_ok ?s 0 Free (boot_task pt)"
    by (simp add: task_ok_def modes_def hold_ok_def boot_frozen) (simp add: sys_init_def)
  then show ?thesis
    using new_inner_ok [OF assms] by (simp add: sys_ok_def sys_init_def)
qed

section \<open>Reachable states\<close>

lemma step_ok:
  assumes "sys_step pt s l s'" and "sys_ok hf s"
  shows "\<exists>hf'. sys_ok hf' s'"
  using assms sys_step_ok sys_request_ok by (cases l) blast+

lemma reaches_ok:
  "sys_reaches pt s t \<Longrightarrow> sys_ok hf s \<Longrightarrow> \<exists>hf'. sys_ok hf' t"
  by (induction rule: sys_reaches.induct) (auto dest: step_ok)

lemma reachable_ok:
  "validate_config config = Inr () \<Longrightarrow> sys_reaches pt (sys_init pt config) s \<Longrightarrow>
   \<exists>hf. sys_ok hf s"
  using reaches_ok sys_init_ok by blast

lemma no_panic:
  assumes "sys_ok hf s" and "p \<in> set (sy_tasks s)"
  shows "p \<noteq> Panic message"
proof -
  obtain j where "j < length (sy_tasks s)" "p = sy_tasks s ! j"
    using assms(2) by (metis in_set_conv_nth)
  then show ?thesis
    using task_at(2) [OF assms(1)] modes_nonempty [of s j] by fastforce
qed

section \<open>Progress\<close>

lemma enabled_steps:
  "j < length (sy_tasks s) \<Longrightarrow> enabled s j (sy_tasks s ! j) \<Longrightarrow> \<exists>s'. sys_step pt s (Some j) s'"
  using enabled_task_step by simp

lemma enabled_owner:
  assumes ok: "sys_ok hf s" and j: "j < length (sy_tasks s)" "sy_inner_owner s = Some j"
  shows "enabled s j (sy_tasks s ! j)"
proof -
  obtain m where m: "m \<in> modes s j" using modes_nonempty [of s j] by blast
  show ?thesis
    using task_at(1) [OF ok j(1)] task_at(2) [OF ok j(1) m] j(2)
    by (cases "sy_tasks s ! j") (auto simp: hold_ok_def settled_def)
qed

lemma enabled_free:
  assumes ok: "sys_ok hf s" and j: "j < length (sy_tasks s)" "sy_tasks s ! j \<noteq> Return ()"
    and free: "sy_inner_owner s = None"
    and owner: "sy_mutation_owner s = None \<or> sy_mutation_owner s = Some j"
  shows "enabled s j (sy_tasks s ! j)"
proof -
  obtain m where m: "m \<in> modes s j" using modes_nonempty [of s j] by blast
  have "is_guarded m \<longleftrightarrow> sy_mutation_owner s = Some j"
    using m ok by (auto simp: modes_def sys_ok_def split: if_splits)
  then show ?thesis
    using task_at(1) [OF ok j(1)] task_at(2) [OF ok j(1) m] j(2) free owner
    by (cases "sy_tasks s ! j") (auto simp: hold_ok_def)
qed

lemma returned_unguarded:
  assumes ok: "sys_ok hf s" and j: "sy_mutation_owner s = Some j"
  shows "j < length (sy_tasks s) \<and> sy_tasks s ! j \<noteq> Return ()"
proof -
  have len: "j < length (sy_tasks s)" and "\<not> booting s" using ok j by (auto simp: sys_ok_def)
  then have "wp (sy_tasks s ! j) settled (Guarded (core (sy_inner s))) (hf j)"
    using task_at(2) [OF ok len] j by (simp add: modes_def)
  with len show ?thesis by (auto simp: settled_def)
qed

lemma progress:
  assumes ok: "sys_ok hf s" and j: "j < length (sy_tasks s)" "sy_tasks s ! j \<noteq> Return ()"
  shows "\<exists>k s'. sys_step pt s (Some k) s'"
proof (cases "sy_inner_owner s")
  case (Some k)
  then have k: "k < length (sy_tasks s)" using ok by (auto simp: sys_ok_def not_less [symmetric])
  show ?thesis using enabled_steps [OF k enabled_owner [OF ok k Some]] by blast
next
  case None
  show ?thesis
  proof (cases "sy_mutation_owner s")
    case None
    then show ?thesis
      using enabled_steps [OF j(1)] enabled_free [OF ok j \<open>sy_inner_owner s = None\<close>] by blast
  next
    case (Some k)
    then show ?thesis
      using returned_unguarded [OF ok Some] enabled_steps [of k s pt]
        enabled_free [OF ok, of k] \<open>sy_inner_owner s = None\<close> by blast
  qed
qed

section \<open>Prompt publication\<close>

text \<open>
  Three operations compute their event inside the lock and send it after they have released
  it. In a prompt run such an event is sent before anything else happens.
\<close>

definition no_pending :: "system \<Rightarrow> bool" where
  "no_pending s \<longleftrightarrow> (\<forall>p \<in> set (sy_tasks s). \<not> sends p)"

definition prompt :: "system \<Rightarrow> nat option \<Rightarrow> bool" where
  "prompt s l \<longleftrightarrow> (\<forall>j < length (sy_tasks s). sends (sy_tasks s ! j) \<longrightarrow> l = Some j)"

inductive prompt_reaches :: "paths \<Rightarrow> system \<Rightarrow> system \<Rightarrow> bool" for pt where
  prompt_refl: "prompt_reaches pt s s"
| prompt_step:
    "prompt_reaches pt s t \<Longrightarrow> sys_step pt t l u \<Longrightarrow> prompt t l \<Longrightarrow> prompt_reaches pt s u"

lemma prompt_reaches_reaches: "prompt_reaches pt s t \<Longrightarrow> sys_reaches pt s t"
  by (induction rule: prompt_reaches.induct) (auto intro: sys_reaches.intros)

lemma owes_sends:
  assumes "sys_ok hf s"
  shows "owes (hf j) \<longleftrightarrow> j < length (sy_tasks s) \<and> sends (sy_tasks s ! j)"
proof (cases "j < length (sy_tasks s)")
  case True
  obtain m where m: "m \<in> modes s j" using modes_nonempty [of s j] by blast
  show ?thesis
    using task_at(2) [OF assms True m] True
    by (cases "sy_tasks s ! j"; cases "hf j") (auto simp: settled_def)
next
  case False
  then show ?thesis using assms by (simp add: sys_ok_def)
qed

lemma no_pending_owes: "sys_ok hf s \<Longrightarrow> no_pending s \<longleftrightarrow> (\<forall>j. \<not> owes (hf j))"
  by (auto simp: owes_sends no_pending_def all_set_conv_all_nth)

text \<open>A follower that saw the state \<open>b\<close> and the log since its length \<open>n\<close> is at the state
  the log has reached; one event may be owed.\<close>

definition in_sync :: "inner \<Rightarrow> nat \<Rightarrow> (nat \<Rightarrow> hold) \<Rightarrow> system \<Rightarrow> bool" where
  "in_sync b n hf s \<longleftrightarrow>
     n \<le> length (sy_log s) \<and>
     ((\<forall>j. \<not> owes (hf j)) \<and> ev.follows b (drop n (sy_log s)) (sy_inner s) \<or>
      (\<exists>j a. hf j = Owes a (sy_inner s) \<and> (\<forall>k. k \<noteq> j \<longrightarrow> \<not> owes (hf k)) \<and>
         ev.follows b (drop n (sy_log s)) a))"

lemma in_sync_step:
  assumes sync: "in_sync b n hf s" and eff: "step_effect hf s j hf' s'"
    and only: "\<And>k. owes (hf k) \<Longrightarrow> k = j"
  shows "in_sync b n hf' s'"
proof -
  have n: "n \<le> length (sy_log s)" using sync by (simp add: in_sync_def)
  have others: "\<And>k. k \<noteq> j \<Longrightarrow> \<not> owes (hf' k)"
    using eff only by (auto simp: step_effect_def)
  have none: "\<And>k. \<not> owes (hf k)" if "\<not> owes (hf j)" using only that by blast
  have idle: "ev.follows b (drop n (sy_log s)) (sy_inner s)" if "\<not> owes (hf j)"
    using sync none [OF that] unfolding in_sync_def by (metis owes.simps(1))
  from eff consider
    (quiet) es where "\<not> owes (hf j)" "\<not> owes (hf' j)" "sy_log s' = sy_log s @ es"
      "replicates (sy_inner s) es (sy_inner s')"
  | (owe) "\<not> owes (hf j)" "hf' j = Owes (sy_inner s) (sy_inner s')" "sy_log s' = sy_log s"
  | (pay) a c e where "hf j = Owes a c" "hf' j = Free" "sy_inner s' = sy_inner s"
      "sy_log s' = sy_log s @ [e]" "replicates a [e] c"
    unfolding step_effect_def by blast
  then show ?thesis
  proof cases
    case quiet
    then have "ev.follows b (drop n (sy_log s')) (sy_inner s')"
      using ev.follows_trans idle quiet n by (simp add: replicates_follows)
    moreover have "\<not> owes (hf' k)" for k using quiet others by (cases "k = j") auto
    ultimately show ?thesis using quiet n by (simp add: in_sync_def)
  next
    case owe
    then show ?thesis using idle others n by (auto simp: in_sync_def)
  next
    case pay
    then have "c = sy_inner s" "ev.follows b (drop n (sy_log s)) a"
      using sync unfolding in_sync_def by (metis hold.inject(2) owes.simps(1))+
    then have "ev.follows b (drop n (sy_log s')) (sy_inner s')"
      using ev.follows_trans pay n by (simp add: replicates_follows)
    moreover have "\<not> owes (hf' k)" for k using pay others by (cases "k = j") auto
    ultimately show ?thesis using pay n by (simp add: in_sync_def)
  qed
qed

lemma prompt_sync:
  "prompt_reaches pt s t \<Longrightarrow> sys_ok hf s \<Longrightarrow> no_pending s \<Longrightarrow>
   \<exists>hf'. sys_ok hf' t \<and> in_sync (sy_inner s) (length (sy_log s)) hf' t"
proof (induction rule: prompt_reaches.induct)
  case (prompt_refl s)
  then have "in_sync (sy_inner s) (length (sy_log s)) hf s"
    using no_pending_owes ev.follows_refl by (auto simp: in_sync_def)
  with prompt_refl show ?case by blast
next
  case (prompt_step s t l u)
  then obtain hf' where ok: "sys_ok hf' t" and sync: "in_sync (sy_inner s) (length (sy_log s)) hf' t"
    by blast
  show ?case
  proof (cases l)
    case None
    with prompt_step.hyps(2) have req: "sys_step pt t None u" by simp
    show ?thesis
      using sys_request_ok [OF req ok] sync by (auto simp: in_sync_def)
  next
    case (Some j)
    have "owes (hf' k) \<Longrightarrow> k = j" for k
      using owes_sends [OF ok] prompt_step.hyps(3) Some by (auto simp: prompt_def)
    then show ?thesis
      using sys_step_ok [OF _ ok, of pt j u] prompt_step.hyps(2) Some in_sync_step [OF sync] by blast
  qed
qed

section \<open>Properties\<close>

text \<open>
  C1. In every reachable state of the daemon, whatever the order of its tasks, of the answers
  of mpv and the file system, and of the requests, the configuration is valid, the runtime
  targets are exactly the configured ones (with their configuration), and no task is at one
  of the panics of the code (a missing runtime state, a missing checked target, an
  unvalidated target).
\<close>

theorem reachable_registry_ok:
  assumes "validate_config config = Inr ()" and "sys_reaches pt (sys_init pt config) s"
  shows "registry_ok (sy_inner s) \<and> (\<forall>p message. p \<in> set (sy_tasks s) \<longrightarrow> p \<noteq> Panic message)"
  using reachable_ok [OF assms] no_panic by (auto simp: sys_ok_def)

text \<open>
  The daemon does not deadlock: in every reachable state in which a task has not
  returned, some task can step. The two mutexes are taken in one order and every lock taken
  is released.
\<close>

lemma reachable_progress:
  assumes "validate_config config = Inr ()" and "sys_reaches pt (sys_init pt config) s"
    and "p \<in> set (sy_tasks s)" and "p \<noteq> Return ()"
  shows "\<exists>j s'. sys_step pt s (Some j) s'"
  using reachable_ok [OF assms(1,2)] progress assms(3,4) by (metis in_set_conv_nth)

lemma in_sync_run:
  assumes "validate_config config = Inr ()" and "prompt_reaches pt (sys_init pt config) s"
    and "prompt_reaches pt s t" and "no_pending s" and "no_pending t"
  shows "apply_events (Some (snapshot_from (sy_inner s))) (drop (length (sy_log s)) (sy_log t)) =
    Inr (Some (snapshot_from (sy_inner t)))"
proof -
  obtain hf where s: "sys_ok hf s"
    using reachable_ok [OF assms(1) prompt_reaches_reaches [OF assms(2)]] by blast
  obtain hf' where t: "sys_ok hf' t" and sync: "in_sync (sy_inner s) (length (sy_log s)) hf' t"
    using prompt_sync [OF assms(3) s assms(4)] by blast
  then show ?thesis
    using assms(5) no_pending_owes [OF t] unfolding in_sync_def ev.follows_def
    by (metis owes.simps(1))
qed

text \<open>
  C2. In a run in which the events that are sent outside the lock are sent promptly, a client
  that connects at any moment and applies every later event has exactly the snapshot of the
  daemon: no event is lost, doubled, out of order or of a wrong revision.
\<close>

theorem prompt_in_sync:
  assumes "validate_config config = Inr ()" and "prompt_reaches pt (sys_init pt config) s"
    and "prompt_reaches pt s t" and "no_pending s" and "no_pending t"
  shows "apply_events (Some (snapshot_from (sy_inner s))) (drop (length (sy_log s)) (sy_log t)) =
    Inr (Some (snapshot_from (sy_inner t)))"
  using assms by (rule in_sync_run)

end
