(* ===== verification/Traces.thy ===== *)
theory Traces
  imports Interleaving
begin

text \<open>
  Runs of the daemon that are computed: a list of moves is executed by the step relation.
  The runs here are concrete schedules that end in states the code does not mean to reach.
\<close>

section \<open>Executing moves\<close>

text \<open>What the environment answers to the task that moves; \<open>Go\<close> where it is not asked.\<close>

datatype answer =
    Go
  | Says bool
  | Replies "json option"
  | Reads "json option option"
  | Does "(io_error, unit) result"
  | Lists "(io_error, dir_entry list) result"

datatype move = Act nat answer | Arrive request

fun said :: "answer \<Rightarrow> bool option" where
  "said (Says x) = Some x"
| "said _ = None"

fun replied :: "answer \<Rightarrow> json option option" where
  "replied (Replies r) = Some r"
| "replied _ = None"

fun line_read :: "answer \<Rightarrow> json option option option" where
  "line_read (Reads l) = (if reply_wf l then Some l else None)"
| "line_read _ = None"

fun did :: "answer \<Rightarrow> (io_error, unit) result option" where
  "did (Does r) = Some r"
| "did _ = None"

fun listed :: "answer \<Rightarrow> (io_error, dir_entry list) result option" where
  "listed (Lists d) = Some d"
| "listed _ = None"

text \<open>The system after task \<open>j\<close>, which is \<open>p\<close>, has moved.\<close>

primrec act ::
    "(job \<Rightarrow> 'r task) \<Rightarrow> ('r, 'z) machine_scheme \<Rightarrow> nat \<Rightarrow> answer \<Rightarrow> 'r task \<Rightarrow>
     ('r, 'z) machine_scheme option" where
  "act spawned s j a (Return r) = None"
| "act spawned s j a (Panic m) = None"
| "act spawned s j a (Acquire k) =
     (if sy_inner_owner s = None
      then Some (resume j (k (sy_inner s)) s\<lparr>sy_inner_owner := Some j\<rparr>) else None)"
| "act spawned s j a (Release i es p) =
     (if sy_inner_owner s = Some j
      then Some (resume j p s\<lparr>sy_inner := i, sy_inner_owner := None, sy_log := sy_log s @ es\<rparr>)
      else None)"
| "act spawned s j a (Send e p) = Some (resume j p s\<lparr>sy_log := sy_log s @ [e]\<rparr>)"
| "act spawned s j a (LockMutations p) =
     (if sy_mutation_owner s = None
      then Some (resume j p s\<lparr>sy_mutation_owner := Some j\<rparr>) else None)"
| "act spawned s j a (UnlockMutations p) =
     (if sy_mutation_owner s = Some j
      then Some (resume j p s\<lparr>sy_mutation_owner := None\<rparr>) else None)"
| "act spawned s j a (Connect n k) = map_option (\<lambda>x. resume j (k x) s) (said a)"
| "act spawned s j a (Exchange n c k) = map_option (\<lambda>x. resume j (k x) s) (replied a)"
| "act spawned s j a (WriteLines n cs k) = map_option (\<lambda>x. resume j (k x) s) (said a)"
| "act spawned s j a (ReadLine n k) = map_option (\<lambda>x. resume j (k x) s) (line_read a)"
| "act spawned s j a (Poll n b k) = map_option (\<lambda>x. resume j (k x) s) (said a)"
| "act spawned s j a (PathExists q k) = map_option (\<lambda>x. resume j (k x) s) (said a)"
| "act spawned s j a (Io op k) = map_option (\<lambda>x. resume j (k x) s) (did a)"
| "act spawned s j a (ReadDir q k) = map_option (\<lambda>x. resume j (k x) s) (listed a)"
| "act spawned s j a (Sleep t p) = Some (resume j p s)"
| "act spawned s j a (Spawn job p) =
     Some (s\<lparr>sy_tasks := (sy_tasks s)[j := p] @ [spawned job]\<rparr>)"

fun returned :: "'r task \<Rightarrow> bool" where
  "returned (Return _) = True"
| "returned _ = False"

definition all_returned :: "system \<Rightarrow> bool" where
  "all_returned s \<longleftrightarrow> list_all returned (sy_tasks s)"

fun exec_move :: "paths \<Rightarrow> system \<Rightarrow> move \<Rightarrow> system option" where
  "exec_move pt s (Act j a) =
     (if j < length (sy_tasks s) then act (job_task pt) s j a (sy_tasks s ! j) else None)"
| "exec_move pt s (Arrive r) =
     (if returned (sy_tasks s ! 0)
      then Some (s\<lparr>sy_tasks := sy_tasks s @ [request_task pt r]\<rparr>) else None)"

fun mover :: "move \<Rightarrow> nat option" where
  "mover (Act j _) = Some j"
| "mover (Arrive _) = None"

fun exec :: "paths \<Rightarrow> move list \<Rightarrow> system \<Rightarrow> system option" where
  "exec pt [] s = Some s"
| "exec pt (m # ms) s = (case exec_move pt s m of None \<Rightarrow> None | Some t \<Rightarrow> exec pt ms t)"

lemma line_read_wf: "line_read a = Some l \<Longrightarrow> reply_wf l"
  by (cases a) (auto split: if_splits)

lemma returned_iff: "returned p \<longleftrightarrow> (\<exists>x. p = Return x)"
  by (cases p) auto

lemma act_step:
  assumes "act spawned s j a p = Some t" and "j < length (sy_tasks s)" and "sy_tasks s ! j = p"
  shows "task_step spawned s j t"
proof (cases "\<exists>q. env_next p q \<and> t = resume j q s")
  case True
  with assms show ?thesis by (auto intro: task_env)
next
  case False
  with assms show ?thesis
    by (cases p)
      (auto split: if_splits dest: line_read_wf
        intro: task_spawn task_acquire task_release task_send task_lock task_unlock)
qed

lemma exec_move_step:
  assumes "exec_move pt s m = Some t"
  shows "sys_step pt s (mover m) t"
proof (cases m)
  case (Act j a)
  with assms show ?thesis
    by (auto split: if_splits intro: act_step)
next
  case (Arrive r)
  with assms have "\<not> booting s" and t: "t = s\<lparr>sy_tasks := sy_tasks s @ [request_task pt r]\<rparr>"
    by (auto simp: returned_iff booting_def split: if_splits)
  then show ?thesis by (simp add: t Arrive step_request)
qed

lemma exec_reaches:
  "exec pt ms s = Some t \<Longrightarrow> sys_reaches pt r s \<Longrightarrow> sys_reaches pt r t"
proof (induction ms arbitrary: s)
  case (Cons m ms)
  then obtain u where "exec_move pt s m = Some u" "exec pt ms u = Some t"
    by (auto split: option.splits)
  with Cons exec_move_step [of pt s m u] show ?case by (blast intro: reach_step)
qed simp

text \<open>The same for prompt runs.\<close>

definition prompt_move :: "system \<Rightarrow> move \<Rightarrow> bool" where
  "prompt_move s m \<longleftrightarrow>
     list_all (\<lambda>(k, p). sends p \<longrightarrow> mover m = Some k) (List.enumerate 0 (sy_tasks s))"

fun exec_prompt :: "paths \<Rightarrow> move list \<Rightarrow> system \<Rightarrow> system option" where
  "exec_prompt pt [] s = Some s"
| "exec_prompt pt (m # ms) s =
     (if prompt_move s m then
        (case exec_move pt s m of None \<Rightarrow> None | Some t \<Rightarrow> exec_prompt pt ms t)
      else None)"

lemma prompt_move_prompt: "prompt_move s m \<Longrightarrow> prompt s (mover m)"
  by (auto simp: prompt_move_def prompt_def list_all_iff in_set_enumerate_eq)

lemma exec_prompt_reaches:
  "exec_prompt pt ms s = Some t \<Longrightarrow> prompt_reaches pt r s \<Longrightarrow> prompt_reaches pt r t"
proof (induction ms arbitrary: s)
  case (Cons m ms)
  then obtain u where u: "prompt_move s m" "exec_move pt s m = Some u" "exec_prompt pt ms u = Some t"
    by (auto split: option.splits if_splits)
  with Cons exec_move_step [OF u(2)] prompt_move_prompt [OF u(1)] show ?case
    by (blast intro: prompt_step)
qed simp

section \<open>A daemon with one target\<close>

definition demo_paths :: paths where
  "demo_paths = \<lparr>pt_config_path = [''etc'', ''config.toml''], pt_config_root = [''etc''],
     pt_logs = [''logs''], pt_runtime = [''run''], pt_pid = 7\<rparr>"

definition demo_config :: daemon_config where
  "demo_config = \<lparr>dc_node = \<lparr>nc_id = ''den'', nc_listen = ''127.0.0.1:80''\<rparr>,
     dc_tls = \<lparr>tls_certificate = ''c.pem'', tls_private_key = ''k.pem''\<rparr>,
     dc_targets = [\<lparr>tc_name = ''tv'', tc_disabled = False, tc_channel = None\<rparr>]\<rparr>"

definition demo_init :: system where
  "demo_init = sys_init demo_paths demo_config"

lemma demo_init_sys: "demo_init = sys_init demo_paths demo_config"
  by (simp add: demo_init_def)

lemma demo_init_fields [simp]:
  "sy_inner demo_init = new_inner demo_config" "sy_log demo_init = []"
  by (simp_all add: demo_init_def sys_init_def)

lemma demo_valid: "validate_config demo_config = Inr ()"
proof -
  have "parse_socket_addr ''127.0.0.1:80'' = Some \<lparr>sa_ip = V4 [127, 0, 0, 1], sa_port = 80, sa_scope = 0\<rparr>"
    by (simp add: socket_addr_eval)
  moreover have "good_target \<lparr>tc_name = ''tv'', tc_disabled = False, tc_channel = None\<rparr>"
    by code_simp
  ultimately show ?thesis
    by (simp add: validate_config_iff good_header_def demo_config_def validate_config_path_iff
        relative_below_def)
qed

definition request_for :: "operation \<Rightarrow> request" where
  "request_for op = \<lparr>rq_id = ''1'', rq_target = Some ''tv'', rq_operation = op\<rparr>"

definition gos :: "nat \<Rightarrow> nat \<Rightarrow> move list" where
  "gos n j = replicate n (Act j Go)"

text \<open>mpv already runs when the daemon starts: the target is online, its observer reads.\<close>

definition boot_live :: "move list" where
  "boot_live = gos 4 0 @ [Act 0 (Says True)] @ gos 3 0
     @ [Act 1 (Says True), Act 1 (Says True), Act 1 Go]"

definition demo_target :: "system \<Rightarrow> runtime_target option" where
  "demo_target s = bt_get (in_targets (sy_inner s)) ''tv''"

section \<open>An event overtaken\<close>

text \<open>
  Task 2 observes the end of a file: it has released the lock with revision 2 but not sent
  the event. A stop request publishes revision 3 first.
\<close>

definition end_file :: json where
  "end_file = json_obj [(''event'', JStr ''end-file''), (''reason'', JStr ''eof'')]"

definition overtaken :: "move list" where
  "overtaken = boot_live @ [Act 2 (Reads (Some (Some end_file)))] @ gos 2 2
     @ [Arrive (request_for TargetStop)] @ gos 2 3 @ gos 1 2"

definition gap_error :: client_error where
  "gap_error = ProtocolError (RevisionGap ''tv'' 2 3)"

lemma overtaken_run:
  "case exec demo_paths overtaken demo_init of
     None \<Rightarrow> False
   | Some s \<Rightarrow> (case apply_events (Some (snapshot_from (sy_inner demo_init))) (sy_log s) of
       Inr _ \<Rightarrow> False | Inl e \<Rightarrow> e = gap_error)"
  by code_simp

section \<open>A launch against a stop, a recovery abandoned\<close>

text \<open>The first launch fails while the daemon boots; task 3 is the recovery loop.\<close>

definition boot_failed :: "move list" where
  "boot_failed = gos 4 0 @ [Act 0 (Says False)] @ gos 4 0
     @ [Act 0 (Says False), Act 0 (Says False), Act 0 (Does (Inl OtherIo))] @ gos 4 0
     @ gos 3 1 @ gos 2 2"

text \<open>Task \<open>j\<close> launches mpv and waits for the socket.\<close>

definition launching :: "nat \<Rightarrow> move list" where
  "launching j = gos 4 j @ [Act j (Says False), Act j (Says False)]
     @ replicate 5 (Act j (Does (Inr ())))"

definition stop_while_launching :: "move list" where
  "stop_while_launching = boot_failed @ gos 3 3 @ launching 3
     @ [Arrive (request_for TargetStop)] @ gos 8 4 @ [Act 3 (Says True)] @ gos 6 3"

lemma stop_while_launching_run:
  "case exec demo_paths stop_while_launching demo_init of
     None \<Rightarrow> False
   | Some s \<Rightarrow> (case demo_target s of
       None \<Rightarrow> False | Some t \<Rightarrow> rt_stopped t \<and> rt_online t \<and> returned (sy_tasks s ! 4))"
  by code_simp

definition start_while_recovering :: "move list" where
  "start_while_recovering = boot_failed @ [Arrive (request_for TargetStart)] @ launching 4
     @ gos 7 3 @ [Act 4 (Says False), Act 4 (Does (Inr ()))] @ gos 3 4 @ gos 2 5"

lemma start_while_recovering_run:
  "case exec demo_paths start_while_recovering demo_init of
     None \<Rightarrow> False
   | Some s \<Rightarrow> all_returned s \<and> (case demo_target s of
       None \<Rightarrow> False
     | Some t \<Rightarrow> \<not> tc_disabled (rt_config t) \<and> \<not> rt_stopped t \<and> \<not> rt_online t \<and> rt_recovering t)"
  by code_simp

section \<open>Properties\<close>

definition prompt_demo :: "move list" where
  "prompt_demo = boot_live @ [Act 2 (Reads (Some (Some end_file)))] @ gos 4 2"

lemma prompt_demo_run:
  "case exec_prompt demo_paths prompt_demo demo_init of
     None \<Rightarrow> False
   | Some s \<Rightarrow> list_all (\<lambda>p. \<not> sends p) (sy_tasks s) \<and> length (sy_log s) = 2 \<and>
       sy_tasks s \<noteq> [] \<and> \<not> returned (last (sy_tasks s))"
  by code_simp

lemma prompt_demo_state:
  obtains s where "prompt_reaches demo_paths demo_init s" and "no_pending s"
    and "length (sy_log s) = 2" and "sy_tasks s \<noteq> []" and "last (sy_tasks s) \<noteq> Return ()"
proof -
  obtain s where s: "exec_prompt demo_paths prompt_demo demo_init = Some s"
    using prompt_demo_run by (auto split: option.splits)
  show ?thesis
    using exec_prompt_reaches [OF s prompt_refl] prompt_demo_run
    by (intro that [of s]) (auto simp: s no_pending_def list_all_iff returned_iff)
qed

lemma demo_no_pending: "no_pending demo_init"
  by (simp add: no_pending_def demo_init_def sys_init_def boot_task_def
      start_configured_targets_def locked_def)

theorem reachable_registry_ok_witness:
  "\<exists>s :: system. length (sy_log s) = 2 \<and> registry_ok (sy_inner s)"
proof -
  obtain s where s: "prompt_reaches demo_paths demo_init s" "length (sy_log s) = 2"
    by (rule prompt_demo_state)
  have "registry_ok (sy_inner s)"
    using reachable_registry_ok [OF demo_valid prompt_reaches_reaches [OF s(1) [unfolded demo_init_sys]]]
    by blast
  with s(2) show ?thesis by blast
qed

lemma reachable_progress_witness:
  "\<exists>s j s'. length (sy_log s) = 2 \<and> sys_step demo_paths s (Some j) s'"
proof -
  obtain s where s: "prompt_reaches demo_paths demo_init s" "length (sy_log s) = 2"
    "sy_tasks s \<noteq> []" "last (sy_tasks s) \<noteq> Return ()"
    by (rule prompt_demo_state)
  have "\<exists>j s'. sys_step demo_paths s (Some j) s'"
    by (rule reachable_progress [OF demo_valid prompt_reaches_reaches
          [OF s(1) [unfolded demo_init_sys]] last_in_set [OF s(3)] s(4)])
  with s(2) show ?thesis by blast
qed

theorem prompt_in_sync_witness:
  "\<exists>s :: system. length (sy_log s) = 2 \<and>
     apply_events (Some (snapshot_from (new_inner demo_config))) (sy_log s) =
     Inr (Some (snapshot_from (sy_inner s)))"
proof -
  obtain s where s: "prompt_reaches demo_paths demo_init s" "no_pending s" "length (sy_log s) = 2"
    by (rule prompt_demo_state)
  have "apply_events (Some (snapshot_from (sy_inner demo_init)))
      (drop (length (sy_log demo_init)) (sy_log s)) = Inr (Some (snapshot_from (sy_inner s)))"
    by (rule prompt_in_sync [OF demo_valid _ s(1) demo_no_pending s(2), folded demo_init_sys])
      (rule prompt_refl)
  with s(3) show ?thesis by (intro exI [of _ s]) simp
qed



text \<open>
  C17. Recovery can be abandoned: there is a run that ends with every task returned and the
  target enabled, not stopped and offline, its recovery flag still set. A recovery loop that
  finds another launch in progress ends without clearing the flag, and when that launch fails
  the flag keeps any further recovery from starting.
\<close>

theorem recovery_abandoned:
  "\<exists>s t. sys_reaches demo_paths (sys_init demo_paths demo_config) s \<and> all_returned s \<and>
     bt_get (in_targets (sy_inner s)) ''tv'' = Some t \<and> \<not> tc_disabled (rt_config t) \<and>
     \<not> rt_stopped t \<and> \<not> rt_online t \<and> rt_recovering t"
proof -
  obtain s where s: "exec demo_paths start_while_recovering demo_init = Some s"
    using start_while_recovering_run by (auto split: option.splits)
  then obtain t where "all_returned s" "demo_target s = Some t" "\<not> tc_disabled (rt_config t)"
    "\<not> rt_stopped t" "\<not> rt_online t" "rt_recovering t"
    using start_while_recovering_run by (auto split: option.splits)
  then show ?thesis
    using exec_reaches [OF s reach_refl] unfolding demo_init_sys demo_target_def by blast
qed

end
