(* ===== verification/Outcomes.thy ===== *)
theory Outcomes
  imports Lifecycle Traces
begin

text \<open>
  The operations of the supervisor as their callers see them: what each leaves behind on
  success and on error, and that a request is answered exactly once whatever the environment
  does.
\<close>

section \<open>Changes of one target's configuration\<close>

lemma same_but_files_target: "same_but_files w w' \<Longrightarrow> same_target w w'"
  using same_fields [of w w'] by (simp add: same_target_def)

lemma position_of_None: "position_of name ts = None \<longleftrightarrow> find (\<lambda>t. tc_name t = name) ts = None"
  by (induction ts) auto

lemma persist_section_swp:
  assumes ok: "paths_ok pt" and reg: "registry_ok (wd_inner w)"
    and t: "target_of w name = Some t" and u: "mutate (rt_config t) = (u, ch)"
    and keep: "ch = None \<Longrightarrow> Q (Inr ()) w"
    and err: "\<And>e w'. same_target w w' \<Longrightarrow> Q (Inl e) w'"
    and put: "\<And>c w'. ch = Some c \<Longrightarrow> target_of w' name = Some (bump (t\<lparr>rt_config := u\<rparr>)) \<Longrightarrow>
      (\<forall>k. k \<noteq> name \<longrightarrow> target_of w' k = target_of w k) \<Longrightarrow> Q (Inr ()) w'"
  shows "swp (persist_section pt name mutate) Q w"
proof -
  let ?i = "wd_inner w"
  have same [simp]: "w\<lparr>wd_inner := ?i, wd_log := wd_log w\<rparr> = w" by simp
  have "find (\<lambda>t. tc_name t = name) (dc_targets (in_config ?i)) = Some (rt_config t)"
    using consistentD [OF reg, of name] t by (simp add: target_of_def)
  then obtain k where k: "position_of name (dc_targets (in_config ?i)) = Some k"
    "dc_targets (in_config ?i) ! k = rt_config t"
    by (cases "position_of name (dc_targets (in_config ?i))")
      (auto dest: position_of_Some simp: position_of_None)
  show ?thesis
  proof (cases ch)
    case None
    then show ?thesis using k u keep by (simp add: persist_section_def)
  next
    case (Some c)
    have len: "k < length (dc_targets (in_config ?i))" using position_of_Some [OF k(1)] by simp
    let ?c = "(in_config ?i)\<lparr>dc_targets := (dc_targets (in_config ?i))[k := u]\<rparr>"
    let ?t = "bump (t\<lparr>rt_config := u\<rparr>)"
    have "swp (bind_task (validate_and_persist pt ?c) (\<lambda>r. case r of
          Inl e \<Rightarrow> Release ?i [] (Return (Inl e))
        | Inr _ \<Rightarrow> Release (?i\<lparr>in_config := ?c, in_targets := bt_modify name (\<lambda>_. ?t) (in_targets ?i)\<rparr>)
            [publish name c ?t] (Return (Inr ())))) Q w"
      unfolding swp_bind
      using t err put [OF Some]
      by (intro validate_persist_swp [OF ok])
        (auto simp: target_of_def same_target_def same_fields)
    then show ?thesis
      using k u t Some len by (simp add: persist_section_def Let_def target_of_def)
  qed
qed


section \<open>Adding, removing and renaming\<close>

lemma query_record_swp: "swp (get_target_record name) Q w \<longleftrightarrow>
  Q (ok_or (UnknownTarget name) (map_option (record_of name) (target_of w name))) w"
  by (simp add: swp_queries)

lemma add_finish_swp:
  assumes ok: "paths_ok pt"
    and err: "\<And>e w'. wd_inner w' = wd_inner w \<Longrightarrow> wd_log w' = wd_log w \<Longrightarrow> Q (Inl e) w'"
    and put: "\<And>w' t. t = fresh_runtime target True \<Longrightarrow> target_of w' (tc_name target) = Some t \<Longrightarrow>
      (\<forall>k. k \<noteq> tc_name target \<longrightarrow> target_of w' k = target_of w k) \<Longrightarrow>
      in_config (wd_inner w') = push_target (in_config (wd_inner w)) target \<Longrightarrow>
      Q (Inr (record_of (tc_name target) t)) w'"
  shows "swp (add_finish pt target) Q w"
proof -
  let ?c = "push_target (in_config (wd_inner w)) target"
  have "swp (validate_and_persist pt ?c) (\<lambda>r. swp (case r of
      Inl e \<Rightarrow> ignore_io (RemoveDirAll (target_directory pt (tc_name target))) (Return (Inl e))
    | Inr _ \<Rightarrow> locked (add_commit ?c target) (\<lambda>_. get_target_record (tc_name target))) Q) w"
    by (intro validate_persist_swp [OF ok])
      (auto simp: add_commit_def Let_def query_record_swp target_of_def same_fields
        intro!: err put [OF refl])
  then show ?thesis by (simp add: add_finish_def read_inner_def)
qed

lemma add_swp:
  assumes ok: "paths_ok pt"
    and err: "\<And>e w'. wd_inner w' = wd_inner w \<Longrightarrow> wd_log w' = wd_log w \<Longrightarrow> Q (Inl e) w'"
    and put: "\<And>w' t ch target. add_lookup name from (wd_inner w) = Inr ch \<Longrightarrow>
      target = \<lparr>tc_name = name, tc_disabled = \<not> en, tc_channel = ch\<rparr> \<Longrightarrow>
      t = fresh_runtime target True \<Longrightarrow> target_of w' name = Some t \<Longrightarrow>
      (\<forall>k. k \<noteq> name \<longrightarrow> target_of w' k = target_of w k) \<Longrightarrow>
      in_config (wd_inner w') = push_target (in_config (wd_inner w)) target \<Longrightarrow>
      Q (Inr (record_of name t)) w'"
  shows "swp (add pt name from en sp sm) Q w"
proof (cases "add_lookup name from (wd_inner w)")
  case (Inl e)
  then show ?thesis by (simp add: add_def add_section_def read_inner_def err)
next
  case (Inr ch)
  let ?t = "\<lparr>tc_name = name, tc_disabled = \<not> en, tc_channel = ch\<rparr>"
  have same: "w\<lparr>wd_inner := wd_inner w, wd_log := wd_log w\<rparr> = w" by simp
  have fin: "swp (add_finish pt ?t) Q v" if v: "same_target w v" for v
    by (rule add_finish_swp [OF ok])
      (use v put [OF Inr refl refl] in \<open>auto intro: err simp: same_target_def target_of_def\<close>)
  have "swp (try_all ConfigError ops) (\<lambda>r. swp (case r of
      Inl e \<Rightarrow> ignore_io (RemoveDirAll (target_directory pt name)) (Return (Inl e))
    | Inr _ \<Rightarrow> add_finish pt ?t) Q) w" for ops
    by (rule try_all_same [OF _ _ same_target_refl])
      (use fin err in \<open>auto simp: same_target_def\<close>)
  then show ?thesis
    using Inr err by (simp add: add_def add_section_def read_inner_def)
qed

lemma rename_swp:
  assumes ok: "paths_ok pt"
    and err: "\<And>e w'. wd_inner w' = wd_inner w \<Longrightarrow> wd_log w' = wd_log w \<Longrightarrow> Q (Inl e) w'"
    and reg: "registry_ok (wd_inner w)"
    and put: "\<And>w' t u. target_of w name = Some t \<Longrightarrow> rt_stopped t \<Longrightarrow>
      target_of w replacement = None \<Longrightarrow>
      u = bump (t\<lparr>rt_config := (rt_config t)\<lparr>tc_name := replacement\<rparr>\<rparr>) \<Longrightarrow>
      target_of w' replacement = Some u \<Longrightarrow> target_of w' name = None \<Longrightarrow>
      (\<forall>k. k \<noteq> name \<and> k \<noteq> replacement \<longrightarrow> target_of w' k = target_of w k) \<Longrightarrow>
      rename_first (in_config (wd_inner w)) name replacement = Some (in_config (wd_inner w')) \<Longrightarrow>
      Q (Inr (record_of replacement u)) w'"
  shows "swp (rename pt name replacement) Q w"
proof (cases "rename_lookup name replacement (wd_inner w)")
  case (Inl e)
  then show ?thesis by (simp add: rename_def rename_section_def read_inner_def err)
next
  case (Inr x)
  then obtain t where t: "target_of w name = Some t" "rt_stopped t" "target_of w replacement = None"
    by (auto simp: rename_lookup_def target_of_def split: option.splits if_splits)
  then have diff: "name \<noteq> replacement" by auto
  obtain c where c: "rename_first (in_config (wd_inner w)) name replacement = Some c"
    using consistentD [OF reg, of name] t position_of_None
    by (fastforce simp: rename_first_def target_of_def split: option.splits)
  let ?commit = "locked (rename_commit c name replacement) (\<lambda>r. case r of
      None \<Rightarrow> Panic ''checked target exists'' | Some _ \<Rightarrow> get_target_record replacement)"
  have fin: "swp (rename_finish pt name replacement) Q v" if v: "same_target w v" for v
  proof -
    have "swp (validate_and_persist pt c) (\<lambda>r. swp (case r of
        Inl e \<Rightarrow> ignore_io (RenamePath (target_directory pt replacement) (target_directory pt name))
          (Return (Inl e))
      | Inr _ \<Rightarrow> ?commit) Q) v"
      using t diff c v put [OF t refl]
      by (intro validate_persist_swp [OF ok])
        (auto simp: rename_commit_def Let_def query_record_swp target_of_def same_target_def
          same_fields intro!: err)
    moreover have "rename_first (in_config (wd_inner v)) name replacement = Some c"
      using c v by (simp add: same_target_def)
    moreover have "v\<lparr>wd_inner := wd_inner v, wd_log := wd_log v\<rparr> = v" by simp
    ultimately show ?thesis by (simp add: rename_finish_def read_inner_def)
  qed
  then show ?thesis
    using Inr err by (simp add: rename_def rename_section_def read_inner_def split_sum_all
        same_target_def)
qed


text \<open>A removal that fails after the configuration was replaced: the target is gone, its
  moved directory is not.\<close>

lemma remove_finish_swp:
  assumes ok: "paths_ok pt"
    and err: "\<And>e w'. wd_inner w' = wd_inner w \<Longrightarrow> Q (Inl e) w'"
    and put: "\<And>r w'. target_of w' name = None \<Longrightarrow>
      (\<forall>k. k \<noteq> name \<longrightarrow> target_of w' k = target_of w k) \<Longrightarrow>
      in_config (wd_inner w') = retain_other (in_config (wd_inner w)) name \<Longrightarrow>
      (\<forall>e. r = Inl e \<longrightarrow> (\<exists>x. e = ConfigError x)) \<Longrightarrow> Q r w'"
  shows "swp (remove_finish pt name) Q w"
proof -
  let ?c = "retain_other (in_config (wd_inner w)) name"
  let ?after = "PathExists (remove_directory pt name) (\<lambda>moved.
      if moved then try_io ConfigError (RemoveDirAll (remove_directory pt name)) else Return (Inr ()))"
  let ?undo = "\<lambda>e. PathExists (remove_directory pt name) (\<lambda>moved.
      if moved then ignore_io (RenamePath (remove_directory pt name) (target_directory pt name))
        (Return (Inl e)) else Return (Inl e))"
  have "swp (validate_and_persist pt ?c) (\<lambda>r. swp (case r of Inl e \<Rightarrow> ?undo e
      | Inr _ \<Rightarrow> locked (remove_commit ?c name) (\<lambda>_. ?after)) Q) w"
  proof (rule validate_persist_swp [OF ok])
    fix e and w' :: world assume "same_but_files w w'"
    then show "swp (case Inl e of Inl e \<Rightarrow> ?undo e
        | Inr _ \<Rightarrow> locked (remove_commit ?c name) (\<lambda>_. ?after)) Q w'"
      by (simp add: err same_fields)
  next
    fix w' :: world assume "same_but_files w w'"
    then show "swp (case Inr () of Inl e \<Rightarrow> ?undo e
        | Inr _ \<Rightarrow> locked (remove_commit ?c name) (\<lambda>_. ?after)) Q w'"
      by (auto simp: remove_commit_def Let_def target_of_def same_fields split_sum_all intro!: put)
  qed
  then show ?thesis by (simp add: remove_finish_def read_inner_def)
qed

lemma remove_swp:
  assumes ok: "paths_ok pt" and t: "target_of w name = Some t"
    and err: "\<And>e w'. in_config (wd_inner w') = in_config (wd_inner w) \<Longrightarrow> others_same w w' name \<Longrightarrow>
      (\<exists>u. target_of w' name = Some u \<and> rt_config u = rt_config t) \<Longrightarrow> Q (Inl e) w'"
    and put: "\<And>r w'. target_of w' name = None \<Longrightarrow>
      (\<forall>k. k \<noteq> name \<longrightarrow> target_of w' k = target_of w k) \<Longrightarrow>
      in_config (wd_inner w') = retain_other (in_config (wd_inner w)) name \<Longrightarrow>
      (\<forall>e. r = Inl e \<longrightarrow> (\<exists>x. e = ConfigError x)) \<Longrightarrow> Q r w'"
  shows "swp (remove pt name) Q w"
proof -
  define R where "R v \<longleftrightarrow> others_same w v name \<and>
    (\<exists>u. target_of v name = Some u \<and> rt_config u = rt_config t)" for v :: world
  have R_files [simp]: "R (v\<lparr>wd_files := fs\<rparr>) = R v" for v fs
    by (simp add: R_def others_same_def target_of_def)
  have R_err: "Q (Inl e) v" if "R v" for e v
    using that err by (auto simp: R_def others_same_def)
  have fin: "swp (remove_finish pt name) Q v" if v: "R v" for v
  proof (rule remove_finish_swp [OF ok])
    fix e and w' :: world assume "wd_inner w' = wd_inner v"
    then have "R w'" using v by (simp add: R_def others_same_def target_of_def)
    then show "Q (Inl e) w'" by (rule R_err)
  next
    fix r :: "(supervisor_error, unit) result" and w' :: world
    assume "target_of w' name = None" "\<forall>k. k \<noteq> name \<longrightarrow> target_of w' k = target_of v k"
      "in_config (wd_inner w') = retain_other (in_config (wd_inner v)) name"
      "\<forall>e. r = Inl e \<longrightarrow> (\<exists>x. e = ConfigError x)"
    then show "Q r w'" using v put by (simp add: R_def others_same_def)
  qed
  define rest where "rest = PathExists (target_directory pt name) (\<lambda>exists.
      then_task (if exists
        then try_io ConfigError (RenamePath (target_directory pt name) (remove_directory pt name))
        else Return (Inr ())) (\<lambda>_. remove_finish pt name))"
  have move: "swp rest Q v" if "R v" for v
    unfolding rest_def using that fin R_err by (simp add: split_sum_all)
  have stopped: "swp (stop name) (\<lambda>r v. case r of Inl e \<Rightarrow> Q (Inl e) v | Inr _ \<Rightarrow> swp rest Q v) w"
    by (rule stop_swp [OF t]) (use move R_err in \<open>auto simp: R_def\<close>)
  have "R w" using t by (simp add: R_def others_same_refl)
  then show ?thesis
    using stopped move [of w] t
    by (simp add: remove_def remove_section_def swp_queries rest_def [symmetric] cong: sum.case_cong)
qed


section \<open>The operations, as run\<close>

lemma run_swpE:
  assumes "run p env n w = (out, m, w')" and "swp p Q w"
  obtains x where "out = Some x" and "Q x w'"
  using swp_runD [OF assms(2,1)] by blast

lemma disk_registry: "disk_ok pt w \<Longrightarrow> registry_ok (wd_inner w)"
  by (simp add: disk_ok_def)

text \<open>The state of a target that is stopped, respectively running or on its way, in a world.\<close>

definition rests :: "world \<Rightarrow> string \<Rightarrow> runtime_target \<Rightarrow> bool" where
  "rests w name t \<longleftrightarrow> target_of w name = Some t \<and> rt_stopped t \<and> \<not> rt_online t \<and>
     rt_observed t = default_target_state"

definition runs :: "world \<Rightarrow> string \<Rightarrow> runtime_target \<Rightarrow> bool" where
  "runs w name t \<longleftrightarrow> target_of w name = Some t \<and> \<not> rt_stopped t \<and> \<not> tc_disabled (rt_config t) \<and>
     (rt_online t \<or> rt_launching t)"

lemma handle_request_echoes:
  "run (handle_request pt r) env n w = (Some resp, m, w') \<Longrightarrow> response_id resp = rq_id r"
  by (auto simp: handle_request_def run_bind outcome_response_def
      split: sum.splits option.splits prod.splits)

text \<open>
  C11. Every request that reaches the supervisor is answered, exactly once and under its own
  id, whatever mpv, the file system and the sockets answer: no operation of a validated
  request panics. It leaves the registry consistent and the configuration file equal to the
  configuration in memory, also when a write fails half way.
\<close>

theorem request_keeps_disk:
  assumes "paths_ok pt" and "disk_ok pt w"
    and "run (handle_request pt r) env n w = (out, m, w')"
  shows "\<exists>resp. out = Some resp \<and> response_id resp = rq_id r \<and> disk_ok pt w'"
proof -
  obtain resp where "out = Some resp" "disk_ok pt w'"
    using run_swpE [OF assms(3) keepsD [OF keeps_handle [OF assms(1)] assms(2)]] .
  then show ?thesis using handle_request_echoes assms(3) by blast
qed


text \<open>
  C23. Starting a target: a disabled target is refused and unchanged; otherwise the target is
  no longer stopped and either runs (or is being launched already) and its record is
  returned, or the launch failed, it is neither online nor launching, and exactly one
  recovery job has been scheduled for it. Other targets and the configuration are unchanged.
\<close>

theorem start_outcome:
  assumes "target_of w name = Some t" and "run (start pt name) env n w = (out, m, w')"
  shows "others_same w w' name \<and>
    (if tc_disabled (rt_config t)
     then out = Some (Inl TargetDisabled) \<and> target_of w' name = Some t \<and> wd_jobs w' = wd_jobs w
     else (\<exists>u. runs w' name u \<and> rt_config u = rt_config t \<and> out = Some (Inr (record_of name u))) \<or>
       (\<exists>u e. target_of w' name = Some u \<and> \<not> rt_stopped u \<and> \<not> rt_online u \<and> \<not> rt_launching u \<and>
          rt_config u = rt_config t \<and> out = Some (Inl e) \<and> wd_jobs w' = wd_jobs w @ [RecoveryJob name]))"
proof -
  let ?Q = "\<lambda>x w'. others_same w w' name \<and>
    (if tc_disabled (rt_config t)
     then x = Inl TargetDisabled \<and> target_of w' name = Some t \<and> wd_jobs w' = wd_jobs w
     else (\<exists>u. runs w' name u \<and> rt_config u = rt_config t \<and> x = Inr (record_of name u)) \<or>
       (\<exists>u e. target_of w' name = Some u \<and> \<not> rt_stopped u \<and> \<not> rt_online u \<and> \<not> rt_launching u \<and>
          rt_config u = rt_config t \<and> x = Inl e \<and> wd_jobs w' = wd_jobs w @ [RecoveryJob name]))"
  have "swp (start pt name) ?Q w"
    by (rule start_swp [OF assms(1)]) (simp_all add: runs_def)
  then obtain x where x: "out = Some x" "?Q x w'" using run_swpE [OF assms(2)] by blast
  show ?thesis unfolding x(1) option.inject by (rule x(2))
qed

text \<open>
  Setting the channel of a target is atomic: on success the runtime target, the
  configuration and the configuration file all hold the new channel and every other target
  is untouched; on an error memory is exactly as before.
\<close>

lemma set_channel_outcome:
  assumes "paths_ok pt" and "disk_ok pt w" and "target_of w name = Some t"
    and "run (set_channel pt name channel) env n w = (out, m, w')"
  shows "disk_ok pt w' \<and>
    ((\<exists>r u. out = Some (Inr r) \<and> r = record_of name u \<and> tr_channel r = channel \<and>
        target_of w' name = Some u \<and> rt_config u = (rt_config t)\<lparr>tc_channel := channel\<rparr> \<and>
        (\<forall>k. k \<noteq> name \<longrightarrow> target_of w' k = target_of w k))
     \<or> (\<exists>e. out = Some (Inl e) \<and> wd_inner w' = wd_inner w \<and> wd_log w' = wd_log w))"
proof -
  let ?P = "\<lambda>x w'. ((\<exists>r u. x = Inr r \<and> r = record_of name u \<and> tr_channel r = channel \<and>
        target_of w' name = Some u \<and> rt_config u = (rt_config t)\<lparr>tc_channel := channel\<rparr> \<and>
        (\<forall>k. k \<noteq> name \<longrightarrow> target_of w' k = target_of w k))
     \<or> (\<exists>e. x = Inl e \<and> wd_inner w' = wd_inner w \<and> wd_log w' = wd_log w))"
  obtain u ch where u: "channel_mutation channel (rt_config t) = (u, ch)" by fastforce
  then have new: "u = (rt_config t)\<lparr>tc_channel := channel\<rparr>" "ch = None \<Longrightarrow> rt_config t = u"
    "tc_channel u = channel"
    by (auto simp: channel_mutation_def split: if_splits)
  have "swp (persist_section pt name (channel_mutation channel))
      (\<lambda>r w. case r of Inl e \<Rightarrow> ?P (Inl e) w | Inr _ \<Rightarrow> swp (get_target_record name) ?P w) w"
    by (rule persist_section_swp [where mutate = "channel_mutation channel",
          OF assms(1) disk_registry [OF assms(2)] assms(3) u])
      (use assms(3) new in \<open>auto simp: query_record_swp same_target_def record_of_def\<close>)
  then have P: "swp (set_channel pt name channel) ?P w"
    unfolding set_channel_def persist_target_change_def swp_then swp_mutations .
  have disk: "disk_ok pt w'"
    by (rule run_swpE [OF assms(4) keepsD [OF keeps_config_operations(3) [OF assms(1)] assms(2)]])
  obtain x where x: "out = Some x" "?P x w'" by (rule run_swpE [OF assms(4) P])
  show ?thesis unfolding x(1) option.inject by (rule conjI [OF disk x(2)])
qed

text \<open>
  C24. Adding a target: on success the configuration has one more target at its end, the new
  target is registered stopped with a fresh state and the channel of its source, and no
  other target changes; on an error memory and the published events are as before. The
  configuration file follows in both cases.
\<close>

theorem add_outcome:
  assumes "paths_ok pt" and "disk_ok pt w" and "validate_target_name name = Inr ()"
    and "run (add pt name from en sp sm) env n w = (out, m, w')"
  shows "disk_ok pt w' \<and>
    ((\<exists>ch target t. add_lookup name from (wd_inner w) = Inr ch \<and>
        target = \<lparr>tc_name = name, tc_disabled = \<not> en, tc_channel = ch\<rparr> \<and>
        t = fresh_runtime target True \<and> out = Some (Inr (record_of name t)) \<and>
        target_of w' name = Some t \<and> (\<forall>k. k \<noteq> name \<longrightarrow> target_of w' k = target_of w k) \<and>
        in_config (wd_inner w') = push_target (in_config (wd_inner w)) target)
     \<or> (\<exists>e. out = Some (Inl e) \<and> wd_inner w' = wd_inner w \<and> wd_log w' = wd_log w))"
proof -
  have "swp (add pt name from en sp sm) (\<lambda>x w'.
    ((\<exists>ch target t. add_lookup name from (wd_inner w) = Inr ch \<and>
        target = \<lparr>tc_name = name, tc_disabled = \<not> en, tc_channel = ch\<rparr> \<and>
        t = fresh_runtime target True \<and> x = Inr (record_of name t) \<and>
        target_of w' name = Some t \<and> (\<forall>k. k \<noteq> name \<longrightarrow> target_of w' k = target_of w k) \<and>
        in_config (wd_inner w') = push_target (in_config (wd_inner w)) target)
     \<or> (\<exists>e. x = Inl e \<and> wd_inner w' = wd_inner w \<and> wd_log w' = wd_log w))) w"
    by (rule add_swp [OF assms(1)]) blast+
  moreover have "swp (add pt name from en sp sm) (\<lambda>_. disk_ok pt) w"
    by (rule keepsD [OF keeps_add [OF assms(1,3)] assms(2)])
  ultimately show ?thesis
    using run_swpE [OF assms(4)] by (elim run_swpE [OF assms(4)]) blast
qed

text \<open>
  C25. Renaming a target needs it stopped and the new name free. On success the target moves to
  the new name with its revision advanced and its runtime state kept, the old name is gone,
  and the configuration renames exactly that target in its place; on an error memory and
  the published events are as before. The configuration file follows in both cases.
\<close>

theorem rename_outcome:
  assumes "paths_ok pt" and "disk_ok pt w"
    and "validate_target_name name = Inr ()" and "validate_target_name replacement = Inr ()"
    and "run (rename pt name replacement) env n w = (out, m, w')"
  shows "disk_ok pt w' \<and>
    ((\<exists>t u. target_of w name = Some t \<and> rt_stopped t \<and> target_of w replacement = None \<and>
        u = bump (t\<lparr>rt_config := (rt_config t)\<lparr>tc_name := replacement\<rparr>\<rparr>) \<and>
        out = Some (Inr (record_of replacement u)) \<and>
        target_of w' replacement = Some u \<and> target_of w' name = None \<and>
        (\<forall>k. k \<noteq> name \<and> k \<noteq> replacement \<longrightarrow> target_of w' k = target_of w k) \<and>
        rename_first (in_config (wd_inner w)) name replacement = Some (in_config (wd_inner w')))
     \<or> (\<exists>e. out = Some (Inl e) \<and> wd_inner w' = wd_inner w \<and> wd_log w' = wd_log w))"
proof -
  have "swp (rename pt name replacement) (\<lambda>x w'.
    ((\<exists>t u. target_of w name = Some t \<and> rt_stopped t \<and> target_of w replacement = None \<and>
        u = bump (t\<lparr>rt_config := (rt_config t)\<lparr>tc_name := replacement\<rparr>\<rparr>) \<and>
        x = Inr (record_of replacement u) \<and>
        target_of w' replacement = Some u \<and> target_of w' name = None \<and>
        (\<forall>k. k \<noteq> name \<and> k \<noteq> replacement \<longrightarrow> target_of w' k = target_of w k) \<and>
        rename_first (in_config (wd_inner w)) name replacement = Some (in_config (wd_inner w')))
     \<or> (\<exists>e. x = Inl e \<and> wd_inner w' = wd_inner w \<and> wd_log w' = wd_log w))) w"
    by (rule rename_swp [OF assms(1) _ disk_registry [OF assms(2)]]) blast+
  moreover have "swp (rename pt name replacement) (\<lambda>_. disk_ok pt) w"
    by (rule keepsD [OF keeps_rename [OF assms(1,3,4)] assms(2)])
  ultimately show ?thesis
    using run_swpE [OF assms(5)] by (elim run_swpE [OF assms(5)]) blast
qed

text \<open>
  C26. Removing a target either leaves it registered and configured (with an error), or removes
  exactly that target from memory, configuration and file. In the second case the answer can
  still be an error, but only a file error from deleting the moved directory.
\<close>

theorem remove_outcome:
  assumes "paths_ok pt" and "disk_ok pt w" and "validate_target_name name = Inr ()"
    and "target_of w name = Some t" and "run (remove pt name) env n w = (out, m, w')"
  shows "disk_ok pt w' \<and>
    ((\<exists>r. out = Some r \<and> target_of w' name = None \<and>
        (\<forall>k. k \<noteq> name \<longrightarrow> target_of w' k = target_of w k) \<and>
        in_config (wd_inner w') = retain_other (in_config (wd_inner w)) name \<and>
        (\<forall>e. r = Inl e \<longrightarrow> (\<exists>x. e = ConfigError x)))
     \<or> (\<exists>e u. out = Some (Inl e) \<and> in_config (wd_inner w') = in_config (wd_inner w) \<and>
          others_same w w' name \<and> target_of w' name = Some u \<and> rt_config u = rt_config t))"
proof -
  have "swp (remove pt name) (\<lambda>r w'.
    ((target_of w' name = None \<and>
        (\<forall>k. k \<noteq> name \<longrightarrow> target_of w' k = target_of w k) \<and>
        in_config (wd_inner w') = retain_other (in_config (wd_inner w)) name \<and>
        (\<forall>e. r = Inl e \<longrightarrow> (\<exists>x. e = ConfigError x)))
     \<or> (\<exists>e u. r = Inl e \<and> in_config (wd_inner w') = in_config (wd_inner w) \<and>
          others_same w w' name \<and> target_of w' name = Some u \<and> rt_config u = rt_config t))) w"
    by (rule remove_swp [OF assms(1,4)]) blast+
  moreover have "swp (remove pt name) (\<lambda>_. disk_ok pt) w"
    by (rule keepsD [OF keeps_remove [OF assms(1,3)] assms(2)])
  ultimately show ?thesis
    using run_swpE [OF assms(5)] by (elim run_swpE [OF assms(5)]) blast
qed


section \<open>Witnesses\<close>

definition demo_world :: world where
  "demo_world = \<lparr>wd_inner = new_inner demo_config,
     wd_files = (\<lambda>_. None)([''etc'', ''config.toml''] \<mapsto> TomlText demo_config),
     wd_log = [], wd_jobs = []\<rparr>"

definition demo_answers :: answers where
  "demo_answers = \<lparr>or_says = (\<lambda>n. n \<noteq> 0), or_reply = (\<lambda>_. None), or_line = (\<lambda>_. None),
     or_did = (\<lambda>_. Inr ()), or_listing = (\<lambda>_. Inr []), or_garbage = (\<lambda>_ _. None)\<rparr>"

definition demo_runtime :: runtime_target where
  "demo_runtime = fresh_runtime \<lparr>tc_name = ''tv'', tc_disabled = False, tc_channel = None\<rparr> False"

lemma demo_paths_ok: "paths_ok demo_paths"
  by (simp add: paths_ok_def demo_paths_def)

lemma demo_world_target: "target_of demo_world ''tv'' = Some demo_runtime"
  by code_simp

lemma demo_disk: "disk_ok demo_paths demo_world"
  using new_inner_ok [OF demo_valid]
  by (simp add: disk_ok_def demo_world_def demo_paths_def new_inner_def)

lemma demo_names: "validate_target_name ''tv'' = Inr ()" "validate_target_name ''cam'' = Inr ()"
  by code_simp+

theorem request_keeps_disk_witness:
  "\<exists>resp. fst (run (handle_request demo_paths (request_for TargetStop)) demo_answers 0 demo_world)
     = Some resp \<and> response_id resp = ''1''"
proof -
  obtain out m w' where r:
    "run (handle_request demo_paths (request_for TargetStop)) demo_answers 0 demo_world = (out, m, w')"
    by (cases "run (handle_request demo_paths (request_for TargetStop)) demo_answers 0 demo_world")
  from request_keeps_disk [OF demo_paths_ok demo_disk r] r show ?thesis
    by (auto simp: request_for_def)
qed


theorem start_outcome_witness:
  "case run (start demo_paths ''tv'') demo_answers 0 demo_world of (out, m, w') \<Rightarrow>
     others_same demo_world w' ''tv'' \<and> (\<exists>r. out = Some r)"
proof -
  obtain out m w' where r: "run (start demo_paths ''tv'') demo_answers 0 demo_world = (out, m, w')"
    by (cases "run (start demo_paths ''tv'') demo_answers 0 demo_world")
  show ?thesis
    using start_outcome [OF demo_world_target r] r
    by (auto simp: demo_runtime_def fresh_runtime_def)
qed

lemma set_channel_outcome_witness:
  "case run (set_channel demo_paths ''tv'' (Some ''http://x'')) demo_answers 0 demo_world of
     (out, m, w') \<Rightarrow> disk_ok demo_paths w' \<and> (\<exists>r. out = Some r)"
proof -
  let ?p = "set_channel demo_paths ''tv'' (Some ''http://x'')"
  obtain out m w' where r: "run ?p demo_answers 0 demo_world = (out, m, w')"
    by (cases "run ?p demo_answers 0 demo_world")
  show ?thesis
    using set_channel_outcome [OF demo_paths_ok demo_disk demo_world_target r] r by auto
qed

theorem add_outcome_witness:
  "case run (add demo_paths ''cam'' (Some ''tv'') True True True) demo_answers 0 demo_world of
     (out, m, w') \<Rightarrow> disk_ok demo_paths w' \<and> (\<exists>r. out = Some r)"
proof -
  let ?p = "add demo_paths ''cam'' (Some ''tv'') True True True"
  obtain out m w' where r: "run ?p demo_answers 0 demo_world = (out, m, w')"
    by (cases "run ?p demo_answers 0 demo_world")
  show ?thesis
    using add_outcome [OF demo_paths_ok demo_disk demo_names(2) r] r by auto
qed

theorem rename_outcome_witness:
  "case run (rename demo_paths ''tv'' ''cam'') demo_answers 0 demo_world of
     (out, m, w') \<Rightarrow> disk_ok demo_paths w' \<and> (\<exists>e. out = Some (Inl e))"
proof -
  let ?p = "rename demo_paths ''tv'' ''cam''"
  obtain out m w' where r: "run ?p demo_answers 0 demo_world = (out, m, w')"
    by (cases "run ?p demo_answers 0 demo_world")
  show ?thesis
    using rename_outcome [OF demo_paths_ok demo_disk demo_names r] r demo_world_target
    by (auto simp: demo_runtime_def fresh_runtime_def)
qed

theorem remove_outcome_witness:
  "case run (remove demo_paths ''tv'') demo_answers 0 demo_world of
     (out, m, w') \<Rightarrow> disk_ok demo_paths w' \<and> (\<exists>r. out = Some r)"
proof -
  let ?p = "remove demo_paths ''tv''"
  obtain out m w' where r: "run ?p demo_answers 0 demo_world = (out, m, w')"
    by (cases "run ?p demo_answers 0 demo_world")
  show ?thesis
    using remove_outcome [OF demo_paths_ok demo_disk demo_names(1) demo_world_target r] r by auto
qed

end
