(* ===== verification/Connection.thy ===== *)
theory Connection
  imports ClientCache Decimal
begin

text \<open>
  A client connection of \<^verbatim>\<open>crates/mpv-targets/src/client.rs\<close>: the calls of
  \<^verbatim>\<open>request_inner\<close>, the table of pending requests, the queue to the connection task, the
  loop of \<^verbatim>\<open>run_connection\<close> with its shutdown, and \<^verbatim>\<open>close\<close>. The tasks of the client
  share this state and interleave at their await points; a message is the frame as it is
  decoded. \<open>cn_received\<close> and \<open>cn_sent\<close> record the traffic of the socket.
\<close>

section \<open>State\<close>

datatype disconnect_reason = Closed | Failed client_error

fun disconnect_reason_error :: "disconnect_reason \<Rightarrow> client_error" where
  "disconnect_reason_error Closed = Disconnected"
| "disconnect_reason_error (Failed e) = e"

datatype client_command = CmdRequest request | CmdClose

datatype incoming =
    IncomingEvent event
  | IncomingResponse "string response"
  | IncomingGarbage

text \<open>Where a call of \<^verbatim>\<open>request_inner\<close> stands: not begun; validated; entered into the
  pending table; waiting for its answer; about to withdraw its entry because the send
  failed or the time is up; finished under its id.\<close>

datatype call =
    Asked "string option" operation
  | Checked request
  | Registered request
  | Awaiting string
  | Unsent string
  | Expired string
  | Finished string "(client_error, string response) result"

text \<open>Where \<^verbatim>\<open>run_connection\<close> stands: in its loop, or after it, having done so many of the
  steps that announce the end. The receiver of the queue is dropped last.\<close>

datatype phase =
    Running
  | Ended "client_error option"
  | Recorded "client_error option"
  | Flagged "client_error option"
  | Told "client_error option"
  | Drained
  | Gone

record connection =
  cn_pending :: "string \<rightharpoonup> nat"
  cn_slots :: "nat \<rightharpoonup> (client_error, string response) result"
  cn_calls :: "call list"
  cn_queue :: "client_command list"
  cn_snapshot :: "snapshot option"
  cn_events :: "event list"
  cn_disconnected :: bool
  cn_error :: "client_error option"
  cn_reason :: "disconnect_reason option"
  cn_next :: u64
  cn_closing :: bool
  cn_phase :: phase
  cn_sent :: "request list"
  cn_received :: "incoming list"

definition new_connection :: connection where
  "new_connection =
     \<lparr>cn_pending = Map.empty, cn_slots = Map.empty, cn_calls = [], cn_queue = [],
      cn_snapshot = None, cn_events = [], cn_disconnected = False, cn_error = None,
      cn_reason = None, cn_next = 1, cn_closing = False, cn_phase = Running,
      cn_sent = [], cn_received = []\<rparr>"

definition queue_capacity :: nat where
  "queue_capacity = 32"

text \<open>What \<^verbatim>\<open>connect_inner\<close> returns once it can: the client as soon as a snapshot is there,
  otherwise the reason of the end of the connection.\<close>

definition connect_result :: "connection \<Rightarrow> (client_error, unit) result option" where
  "connect_result c =
     (if cn_snapshot c \<noteq> None then Some (Inr ())
      else map_option (\<lambda>r. Inl (disconnect_reason_error r)) (cn_reason c))"

section \<open>Messages\<close>

definition classify_message ::
    "('f \<Rightarrow> event option) \<Rightarrow> ('f \<Rightarrow> string response option) \<Rightarrow> 'f \<Rightarrow> incoming" where
  "classify_message decode_event decode_response text =
     (case decode_event text of
        Some e \<Rightarrow> IncomingEvent e
      | None \<Rightarrow>
          (case decode_response text of Some r \<Rightarrow> IncomingResponse r | None \<Rightarrow> IncomingGarbage))"

fun response_result :: "string response \<Rightarrow> (client_error, string response) result" where
  "response_result (Success i data) = Inr (Success i data)"
| "response_result (Failure i code message) = Inl (Remote code message)"

fun handle_message :: "connection \<Rightarrow> incoming \<Rightarrow> (client_error, connection) result" where
  "handle_message c (IncomingEvent e) =
     try_result (apply_event (cn_snapshot c) e)
       (\<lambda>next. Inr (c\<lparr>cn_snapshot := Some next, cn_events := cn_events c @ [e]\<rparr>))"
| "handle_message c (IncomingResponse r) =
     (case cn_pending c (response_id r) of
        None \<Rightarrow> Inr c
      | Some j \<Rightarrow> Inr (c\<lparr>cn_pending := (cn_pending c)(response_id r := None),
                        cn_slots := (cn_slots c)(j \<mapsto> response_result r)\<rparr>))"
| "handle_message c IncomingGarbage = Inl (ProtocolError UndecodableMessage)"

section \<open>Calls\<close>

definition terminal_error :: "connection \<Rightarrow> client_error" where
  "terminal_error c = (case cn_error c of None \<Rightarrow> Disconnected | Some e \<Rightarrow> e)"

definition client_id :: "u64 \<Rightarrow> string" where
  "client_id n = ''client-'' @ show_nat (unat n)"

definition begin_call :: "connection \<Rightarrow> string option \<Rightarrow> operation \<Rightarrow> connection \<times> call" where
  "begin_call c target op =
     (if cn_disconnected c then (c, Finished [] (Inl (terminal_error c)))
      else
        (let r = \<lparr>rq_id = client_id (cn_next c), rq_target = target, rq_operation = op\<rparr>;
             c' = c\<lparr>cn_next := cn_next c + 1\<rparr>
         in case validate_request r of
              Inl e \<Rightarrow> (c', Finished (rq_id r) (Inl (ProtocolError (RejectedRequest e))))
            | Inr _ \<Rightarrow> (c', Checked r)))"

definition withdraw :: "connection \<Rightarrow> string \<Rightarrow> connection" where
  "withdraw c i = c\<lparr>cn_pending := (cn_pending c)(i := None)\<rparr>"

inductive call_step :: "nat \<Rightarrow> connection \<Rightarrow> call \<Rightarrow> connection \<Rightarrow> call \<Rightarrow> bool" for j c where
  call_begin: "begin_call c target op = (c', s) \<Longrightarrow> call_step j c (Asked target op) c' s"
| call_register: "call_step j c (Checked r)
    (c\<lparr>cn_pending := (cn_pending c)(rq_id r \<mapsto> j)\<rparr>) (Registered r)"
| call_enqueue: "cn_phase c \<noteq> Gone \<Longrightarrow> length (cn_queue c) < queue_capacity \<Longrightarrow>
    call_step j c (Registered r) (c\<lparr>cn_queue := cn_queue c @ [CmdRequest r]\<rparr>) (Awaiting (rq_id r))"
| call_refused: "cn_phase c = Gone \<Longrightarrow> call_step j c (Registered r) c (Unsent (rq_id r))"
| call_unsent: "call_step j c (Unsent i) (withdraw c i) (Finished i (Inl (terminal_error c)))"
| call_answered: "cn_slots c j = Some result \<Longrightarrow> call_step j c (Awaiting i) c (Finished i result)"
| call_orphaned: "cn_slots c j = None \<Longrightarrow> j \<notin> ran (cn_pending c) \<Longrightarrow>
    call_step j c (Awaiting i) c (Finished i (Inl (terminal_error c)))"
| call_timeout: "cn_slots c j = None \<Longrightarrow> call_step j c (Awaiting i) c (Expired i)"
| call_expired: "call_step j c (Expired i) (withdraw c i) (Finished i (Inl RequestTimeout))"

inductive_cases call_stepE: "call_step j c s c' s'"

section \<open>The connection task\<close>

text \<open>The steps after the loop: record the error, raise the flag, tell the reason, answer
  every pending call, drop the queue.\<close>

definition drain :: "client_error option \<Rightarrow> connection \<Rightarrow> connection" where
  "drain r c =
     c\<lparr>cn_slots := (\<lambda>j. if j \<in> ran (cn_pending c)
           then Some (Inl (case r of None \<Rightarrow> Disconnected | Some e \<Rightarrow> e)) else cn_slots c j),
       cn_pending := Map.empty\<rparr>"

definition shutdown :: "connection \<Rightarrow> connection" where
  "shutdown c =
     (case cn_phase c of
        Running \<Rightarrow> c
      | Ended r \<Rightarrow> c\<lparr>cn_error := r, cn_phase := Recorded r\<rparr>
      | Recorded r \<Rightarrow> c\<lparr>cn_disconnected := True, cn_phase := Flagged r\<rparr>
      | Flagged r \<Rightarrow> c\<lparr>cn_reason := Some (case r of Some e \<Rightarrow> Failed e | None \<Rightarrow> Closed),
                      cn_phase := Told r\<rparr>
      | Told r \<Rightarrow> (drain r c)\<lparr>cn_phase := Drained\<rparr>
      | Drained \<Rightarrow> c\<lparr>cn_phase := Gone\<rparr>
      | Gone \<Rightarrow> c)"

fun finished :: "call \<Rightarrow> bool" where
  "finished (Finished _ _) = True"
| "finished _ = False"

inductive conn_step :: "connection \<Rightarrow> connection \<Rightarrow> bool" for c where
  conn_ask: "conn_step c (c\<lparr>cn_calls := cn_calls c @ [Asked target op]\<rparr>)"
| conn_call: "j < length (cn_calls c) \<Longrightarrow> call_step j c (cn_calls c ! j) c' s \<Longrightarrow>
    conn_step c (c'\<lparr>cn_calls := (cn_calls c)[j := s]\<rparr>)"
| conn_write: "cn_phase c = Running \<Longrightarrow> cn_queue c = CmdRequest r # q \<Longrightarrow>
    conn_step c (c\<lparr>cn_queue := q, cn_sent := cn_sent c @ [r]\<rparr>)"
| conn_write_failed: "cn_phase c = Running \<Longrightarrow> cn_queue c = CmdRequest r # q \<Longrightarrow>
    conn_step c (c\<lparr>cn_queue := q, cn_phase := Ended (Some Disconnected)\<rparr>)"
| conn_closed: "cn_phase c = Running \<Longrightarrow> cn_queue c = CmdClose # q \<Longrightarrow>
    conn_step c (c\<lparr>cn_queue := q, cn_phase := Ended None\<rparr>)"
| conn_dropped: "cn_phase c = Running \<Longrightarrow> cn_queue c = [] \<Longrightarrow> list_all finished (cn_calls c) \<Longrightarrow>
    conn_step c (c\<lparr>cn_phase := Ended None\<rparr>)"
| conn_message: "cn_phase c = Running \<Longrightarrow> handle_message c msg = Inr c' \<Longrightarrow>
    conn_step c (c'\<lparr>cn_received := cn_received c @ [msg]\<rparr>)"
| conn_bad_message: "cn_phase c = Running \<Longrightarrow> handle_message c msg = Inl e \<Longrightarrow>
    conn_step c (c\<lparr>cn_received := cn_received c @ [msg], cn_phase := Ended (Some e)\<rparr>)"
| conn_end_of_stream: "cn_phase c = Running \<Longrightarrow>
    conn_step c (c\<lparr>cn_phase := Ended (Some Disconnected)\<rparr>)"
| conn_read_error: "cn_phase c = Running \<Longrightarrow>
    conn_step c (c\<lparr>cn_phase := Ended (Some (ConnectError e))\<rparr>)"
| conn_shutdown: "cn_phase c \<noteq> Running \<Longrightarrow> conn_step c (shutdown c)"
| conn_close: "\<not> cn_disconnected c \<Longrightarrow>
    conn_step c (c\<lparr>cn_disconnected := True, cn_closing := True\<rparr>)"
| conn_close_sent: "cn_closing c \<Longrightarrow> cn_phase c \<noteq> Gone \<Longrightarrow> length (cn_queue c) < queue_capacity \<Longrightarrow>
    conn_step c (c\<lparr>cn_closing := False, cn_queue := cn_queue c @ [CmdClose]\<rparr>)"
| conn_close_refused: "cn_closing c \<Longrightarrow> cn_phase c = Gone \<Longrightarrow>
    conn_step c (c\<lparr>cn_closing := False\<rparr>)"

inductive conn_reaches :: "connection \<Rightarrow> bool" where
  conn_new: "conn_reaches new_connection"
| conn_next: "conn_reaches c \<Longrightarrow> conn_step c c' \<Longrightarrow> conn_reaches c'"


section \<open>Identifiers\<close>

fun call_id :: "call \<Rightarrow> string option" where
  "call_id (Asked _ _) = None"
| "call_id (Checked r) = Some (rq_id r)"
| "call_id (Registered r) = Some (rq_id r)"
| "call_id (Awaiting i) = Some i"
| "call_id (Unsent i) = Some i"
| "call_id (Expired i) = Some i"
| "call_id (Finished i _) = (if i = [] then None else Some i)"

text \<open>A call whose entry may still be in the pending table.\<close>

fun entered :: "call \<Rightarrow> bool" where
  "entered (Registered _) = True"
| "entered (Awaiting _) = True"
| "entered (Unsent _) = True"
| "entered (Expired _) = True"
| "entered _ = False"

lemma client_id_inj: "client_id m = client_id n \<longleftrightarrow> m = n"
  by (simp add: client_id_def show_nat_inj word_unat_eq_iff)

lemma client_id_nonempty [simp]: "client_id n \<noteq> []"
  by (simp add: client_id_def)

text \<open>The ids in use come from the counter and differ from each other.\<close>

definition ids_ok :: "u64 \<Rightarrow> string option list \<Rightarrow> bool" where
  "ids_ok nx ids \<longleftrightarrow>
     0 < unat nx \<and> unat nx \<le> Suc (length (filter (\<lambda>i. i \<noteq> None) ids)) \<and>
     (\<forall>j < length ids. \<forall>i. ids ! j = Some i \<longrightarrow> (\<exists>n. i = client_id n \<and> unat n < unat nx)) \<and>
     (\<forall>j < length ids. \<forall>k < length ids. \<forall>i. ids ! j = Some i \<longrightarrow> ids ! k = Some i \<longrightarrow> j = k)"

lemma ids_same:
  "j < length cs \<Longrightarrow> call_id s = call_id (cs ! j) \<Longrightarrow> map call_id (cs[j := s]) = map call_id cs"
  by (metis list_update_id map_update)

lemma ids_new:
  assumes ok: "ids_ok nx ids" and j: "j < length ids" and none: "ids ! j = None"
    and small: "Suc (length ids) < 2 ^ 64"
  shows "ids_ok (nx + 1) (ids[j := Some (client_id nx)])"
proof -
  let ?has = "\<lambda>i :: string option. i \<noteq> None"
  have le: "length (filter ?has ids) < length ids"
    using j none by (metis (mono_tags, lifting) length_filter_less nth_mem)
  have "unat nx < length ids + 1" using ok le by (simp add: ids_ok_def)
  then have up: "unat (nx + 1) = Suc (unat nx)"
    using small by (subst unat_add_lem [THEN iffD1]) auto
  have ids: "ids = take j ids @ ids ! j # drop (Suc j) ids" using j by (simp add: id_take_nth_drop)
  have len: "length (filter ?has (ids[j := Some (client_id nx)])) = Suc (length (filter ?has ids))"
    using none j by (subst (2) ids) (simp add: upd_conv_take_nth_drop)
  have old: "ids ! k \<noteq> Some (client_id nx)" if "k < length ids" for k
    using ok that by (auto simp: ids_ok_def client_id_inj)
  have fresh: "\<exists>n. i = client_id n \<and> unat n < unat (nx + 1)"
    if "ids[j := Some (client_id nx)] ! k = Some i" "k < length ids" for i k
  proof (cases "k = j")
    case True
    with that j show ?thesis by (intro exI [of _ nx]) (simp add: up)
  next
    case False
    with that obtain n where "i = client_id n" "unat n < unat nx"
      using ok by (auto simp: ids_ok_def)
    then show ?thesis by (intro exI [of _ n]) (simp add: up)
  qed
  have inj: "k = l" if "k < length ids" "l < length ids"
      "ids[j := Some (client_id nx)] ! k = Some i" "ids[j := Some (client_id nx)] ! l = Some i" for k l i
    using that ok old [of k] old [of l] j unfolding ids_ok_def
    by (cases "k = j"; cases "l = j") auto
  show ?thesis
    unfolding ids_ok_def
    using ok len up fresh inj by (simp add: ids_ok_def)
qed


section \<open>The invariant of a connection\<close>

text \<open>A result that claims to come from the daemon came in a response with this id.\<close>

definition from_wire :: "incoming list \<Rightarrow> string \<Rightarrow> (client_error, string response) result \<Rightarrow> bool" where
  "from_wire received i result \<longleftrightarrow>
     (\<forall>r. result = Inr r \<longrightarrow> response_id r = i \<and> IncomingResponse r \<in> set received) \<and>
     (\<forall>code m. result = Inl (Remote code m) \<longrightarrow> IncomingResponse (Failure i code m) \<in> set received)"

definition own_error :: "client_error option \<Rightarrow> bool" where
  "own_error e \<longleftrightarrow> (\<forall>code m. e \<noteq> Some (Remote code m))"

fun phase_error :: "phase \<Rightarrow> client_error option" where
  "phase_error (Ended r) = r"
| "phase_error (Recorded r) = r"
| "phase_error (Flagged r) = r"
| "phase_error (Told r) = r"
| "phase_error _ = None"

definition pending_ok :: "(string \<rightharpoonup> nat) \<Rightarrow> (nat \<rightharpoonup> 'r) \<Rightarrow> call list \<Rightarrow> bool" where
  "pending_ok pending slots cs \<longleftrightarrow>
     (\<forall>i j. pending i = Some j \<longrightarrow>
        j < length cs \<and> entered (cs ! j) \<and> call_id (cs ! j) = Some i \<and> slots j = None)"

definition slots_ok ::
    "incoming list \<Rightarrow> (nat \<rightharpoonup> (client_error, string response) result) \<Rightarrow> call list \<Rightarrow> bool" where
  "slots_ok received slots cs \<longleftrightarrow>
     (\<forall>j result. slots j = Some result \<longrightarrow>
        j < length cs \<and> (entered (cs ! j) \<or> finished (cs ! j)) \<and>
        (\<exists>i. call_id (cs ! j) = Some i \<and> from_wire received i result))"

definition results_ok :: "incoming list \<Rightarrow> call list \<Rightarrow> bool" where
  "results_ok received cs \<longleftrightarrow>
     (\<forall>j i result. j < length cs \<longrightarrow> cs ! j = Finished i result \<longrightarrow> from_wire received i result)"

definition conn_ok :: "connection \<Rightarrow> bool" where
  "conn_ok c \<longleftrightarrow>
     ids_ok (cn_next c) (map call_id (cn_calls c)) \<and>
     pending_ok (cn_pending c) (cn_slots c) (cn_calls c) \<and>
     slots_ok (cn_received c) (cn_slots c) (cn_calls c) \<and>
     results_ok (cn_received c) (cn_calls c) \<and>
     own_error (cn_error c) \<and> own_error (phase_error (cn_phase c))"

lemma from_wire_mono: "from_wire rs i x \<Longrightarrow> from_wire (rs @ [m]) i x"
  by (auto simp: from_wire_def)

lemma from_wire_own:
  "own_error (Some e) \<Longrightarrow> from_wire rs i (Inl e)"
  "from_wire rs i (Inl RequestTimeout)" "from_wire rs i (Inl Disconnected)"
  "from_wire rs i (Inl (ProtocolError p))"
  by (auto simp: from_wire_def own_error_def)

lemma own_errors [simp]:
  "own_error None" "own_error (Some Disconnected)" "own_error (Some (ConnectError m))"
  "own_error (Some (ProtocolError p))"
  by (simp_all add: own_error_def)

lemma terminal_own: "own_error (cn_error c) \<Longrightarrow> own_error (Some (terminal_error c))"
  by (auto simp: terminal_error_def own_error_def split: option.splits)

lemma received_mono:
  "slots_ok rs slots cs \<Longrightarrow> slots_ok (rs @ [m]) slots cs"
  "results_ok rs cs \<Longrightarrow> results_ok (rs @ [m]) cs"
  by (fastforce simp: slots_ok_def results_ok_def intro: from_wire_mono)+

text \<open>A call that moves on, under its id or with nothing recorded for it yet.\<close>

lemma call_moves:
  assumes "j < length cs"
    and "call_id s = call_id (cs ! j) \<or> (\<forall>i. p i \<noteq> Some j) \<and> slots j = None"
    and "pending_ok p slots cs" and "slots_ok rs slots cs" and "results_ok rs cs"
    and "entered s \<or> (\<forall>i. p i \<noteq> Some j)" and "entered s \<or> finished s \<or> slots j = None"
    and "\<And>i x. s = Finished i x \<Longrightarrow> from_wire rs i x"
  shows "pending_ok p slots (cs[j := s])" and "slots_ok rs slots (cs[j := s])"
    and "results_ok rs (cs[j := s])"
proof -
  have nth: "cs[j := s] ! k = (if k = j then s else cs ! k)" if "k < length cs" for k
    using assms(1) that by simp
  show "pending_ok p slots (cs[j := s])"
    unfolding pending_ok_def
  proof (intro allI impI)
    fix i k assume k: "p i = Some k"
    with assms(3) have "k < length cs" "entered (cs ! k)" "call_id (cs ! k) = Some i" "slots k = None"
      by (simp_all add: pending_ok_def)
    with k assms(2,6) show "k < length (cs[j := s]) \<and> entered (cs[j := s] ! k) \<and>
        call_id (cs[j := s] ! k) = Some i \<and> slots k = None"
      by (cases "k = j") (auto simp: nth)
  qed
  show "slots_ok rs slots (cs[j := s])"
    unfolding slots_ok_def
  proof (intro allI impI)
    fix k x assume k: "slots k = Some x"
    with assms(4) have "k < length cs" "entered (cs ! k) \<or> finished (cs ! k)"
        "\<exists>i. call_id (cs ! k) = Some i \<and> from_wire rs i x"
      by (auto simp: slots_ok_def)
    with k assms(2,7) show "k < length (cs[j := s]) \<and>
        (entered (cs[j := s] ! k) \<or> finished (cs[j := s] ! k)) \<and>
        (\<exists>i. call_id (cs[j := s] ! k) = Some i \<and> from_wire rs i x)"
      by (cases "k = j") (auto simp: nth)
  qed
  show "results_ok rs (cs[j := s])"
    using assms(5,8) by (auto simp: results_ok_def nth split: if_splits)
qed


lemma untouched_call:
  assumes "conn_ok c" and "\<not> entered (cn_calls c ! j)" and "\<not> finished (cn_calls c ! j)"
  shows "cn_pending c i \<noteq> Some j" and "cn_slots c j = None"
proof -
  show "cn_pending c i \<noteq> Some j" using assms by (auto simp: conn_ok_def pending_ok_def)
  show "cn_slots c j = None"
    using assms by (cases "cn_slots c j") (auto simp: conn_ok_def slots_ok_def)
qed

lemma slot_wire:
  "slots_ok rs slots cs \<Longrightarrow> slots j = Some x \<Longrightarrow> call_id (cs ! j) = Some i \<Longrightarrow> from_wire rs i x"
  by (force simp: slots_ok_def)

lemma conn_okD:
  assumes "conn_ok c"
  shows "ids_ok (cn_next c) (map call_id (cn_calls c))"
    and "pending_ok (cn_pending c) (cn_slots c) (cn_calls c)"
    and "slots_ok (cn_received c) (cn_slots c) (cn_calls c)"
    and "results_ok (cn_received c) (cn_calls c)"
    and "own_error (cn_error c)" and "own_error (phase_error (cn_phase c))"
  using assms by (simp_all add: conn_ok_def)

text \<open>Withdrawing an entry, and entering one.\<close>

lemma pending_withdraw:
  "pending_ok p slots cs \<Longrightarrow> pending_ok (p(i := None)) slots cs"
  by (simp add: pending_ok_def)

lemma withdrawn:
  assumes "pending_ok p slots cs" and "call_id (cs ! j) = Some i"
  shows "(p(i := None)) k \<noteq> Some j"
  using assms by (auto simp: pending_ok_def)

lemma call_keeps:
  assumes ok: "conn_ok c" and j: "j < length (cn_calls c)"
    and id: "call_id s = call_id (cn_calls c ! j)"
    and moved: "entered s \<or> (\<forall>i. cn_pending c i \<noteq> Some j)"
      "entered s \<or> finished s \<or> cn_slots c j = None"
    and wire: "\<And>i x. s = Finished i x \<Longrightarrow> from_wire (cn_received c) i x"
  shows "conn_ok (c\<lparr>cn_calls := (cn_calls c)[j := s]\<rparr>)"
  using call_moves [OF j disjI1 [OF id] conn_okD(2) [OF ok] conn_okD(3) [OF ok] conn_okD(4) [OF ok]
      moved wire] conn_okD [OF ok] ids_same [OF j id]
  by (simp add: conn_ok_def)

lemma id_nonempty:
  assumes "ids_ok nx (map call_id cs)" and "j < length cs" and "call_id (cs ! j) = Some i"
  shows "i \<noteq> []"
proof -
  have "map call_id cs ! j = Some i" using assms by simp
  then obtain n where "i = client_id n" using assms unfolding ids_ok_def by (metis length_map)
  then show ?thesis by simp
qed

lemma withdraw_keeps:
  assumes ok: "conn_ok c" and j: "j < length (cn_calls c)" and id: "call_id (cn_calls c ! j) = Some i"
    and i: "i \<noteq> []" and wire: "from_wire (cn_received c) i x"
  shows "conn_ok ((withdraw c i)\<lparr>cn_calls := (cn_calls c)[j := Finished i x]\<rparr>)"
proof -
  have "conn_ok (withdraw c i)"
    using conn_okD [OF ok] pending_withdraw [OF conn_okD(2) [OF ok]]
    by (simp add: conn_ok_def withdraw_def)
  moreover have "\<forall>k. cn_pending (withdraw c i) k \<noteq> Some j"
    using withdrawn [OF conn_okD(2) [OF ok] id] by (simp add: withdraw_def)
  ultimately show ?thesis
    using call_keeps [of "withdraw c i" j "Finished i x"] j id i wire by (simp add: withdraw_def)
qed

lemma call_begins:
  assumes ok: "conn_ok c" and j: "j < length (cn_calls c)" and ask: "cn_calls c ! j = Asked target op"
    and small: "Suc (length (cn_calls c)) < 2 ^ 64"
    and b: "begin_call c target op = (c', s)"
  shows "conn_ok (c'\<lparr>cn_calls := (cn_calls c)[j := s]\<rparr>)"
proof -
  note free = untouched_call [OF ok, of j]
  have idle: "\<forall>i. cn_pending c i \<noteq> Some j" "cn_slots c j = None"
    using free ask by simp_all
  note own = from_wire_own(1) [OF terminal_own [OF conn_okD(5) [OF ok]]] from_wire_own(4)
  note moves = call_moves [OF j disjI2 [OF conjI [OF idle]] conn_okD(2) [OF ok] conn_okD(3) [OF ok]
      conn_okD(4) [OF ok] disjI2 [OF idle(1)]]
  show ?thesis
  proof (cases "cn_disconnected c")
    case True
    then have "c' = c" "s = Finished [] (Inl (terminal_error c))"
      using b by (auto simp: begin_call_def)
    then show ?thesis
      using call_keeps [OF ok j, of s] ask own idle by simp
  next
    case False
    let ?r = "\<lparr>rq_id = client_id (cn_next c), rq_target = target, rq_operation = op\<rparr>"
    have c': "c' = c\<lparr>cn_next := cn_next c + 1\<rparr>"
      and s: "s = Checked ?r \<or> (\<exists>e. s = Finished (client_id (cn_next c)) (Inl (ProtocolError e)))"
      using b False by (auto simp: begin_call_def Let_def split: sum.splits)
    have "ids_ok (cn_next c + 1) ((map call_id (cn_calls c))[j := Some (client_id (cn_next c))])"
      by (rule ids_new [OF conn_okD(1) [OF ok]]) (use j ask small in simp_all)
    moreover have "call_id s = Some (client_id (cn_next c))" using s by auto
    ultimately have ids: "ids_ok (cn_next c + 1) (map call_id ((cn_calls c)[j := s]))"
      by (simp add: map_update)
    have wire: "from_wire (cn_received c) i x" if "s = Finished i x" for i x
      using s that own(2) by auto
    show ?thesis
      using moves [OF _ wire, where s = s] ids idle conn_okD [OF ok] by (simp add: conn_ok_def c')
  qed
qed

lemma call_step_ok:
  assumes ok: "conn_ok c" and j: "j < length (cn_calls c)"
    and small: "Suc (length (cn_calls c)) < 2 ^ 64"
    and step: "call_step j c (cn_calls c ! j) c' s"
  shows "conn_ok (c'\<lparr>cn_calls := (cn_calls c)[j := s]\<rparr>)"
  using step
proof cases
  case (call_begin target op)
  then show ?thesis using call_begins [OF ok j _ small] by simp
next
  case (call_register r)
  let ?p = "(cn_pending c)(rq_id r \<mapsto> j)"
  have "conn_ok (c\<lparr>cn_calls := (cn_calls c)[j := Registered r]\<rparr>)"
    by (rule call_keeps [OF ok j]) (use call_register in simp_all)
  moreover have "pending_ok ?p (cn_slots c) ((cn_calls c)[j := Registered r])"
    if "pending_ok (cn_pending c) (cn_slots c) ((cn_calls c)[j := Registered r])"
    using that j untouched_call(2) [OF ok, of j] call_register by (simp add: pending_ok_def)
  ultimately show ?thesis using call_register by (simp add: conn_ok_def)
next
  case (call_enqueue r)
  have "conn_ok (c\<lparr>cn_calls := (cn_calls c)[j := s]\<rparr>)"
    by (rule call_keeps [OF ok j]) (use call_enqueue in simp_all)
  then show ?thesis using call_enqueue by (simp add: conn_ok_def)
next
  case (call_refused r)
  show ?thesis
    unfolding call_refused
    by (rule call_keeps [OF ok j]) (use call_refused in simp_all)
next
  case (call_answered x i)
  have "from_wire (cn_received c) i x"
    using slot_wire [OF conn_okD(3) [OF ok]] call_answered by simp
  moreover have "\<forall>i. cn_pending c i \<noteq> Some j"
    using conn_okD(2) [OF ok] call_answered by (auto simp: pending_ok_def)
  moreover have "i \<noteq> []"
    using id_nonempty [OF conn_okD(1) [OF ok] j] call_answered by simp
  ultimately show ?thesis
    unfolding call_answered
    by (intro call_keeps [OF ok j]) (use call_answered in simp_all)
next
  case (call_timeout i)
  show ?thesis
    unfolding call_timeout
    by (rule call_keeps [OF ok j]) (use call_timeout in simp_all)
next
  case (call_orphaned i)
  have "i \<noteq> []"
    using id_nonempty [OF conn_okD(1) [OF ok] j] call_orphaned by simp
  moreover have "\<forall>i. cn_pending c i \<noteq> Some j" using call_orphaned by (auto simp: ran_def)
  ultimately show ?thesis
    unfolding call_orphaned
    using from_wire_own(1) [OF terminal_own [OF conn_okD(5) [OF ok]]]
    by (intro call_keeps [OF ok j]) (use call_orphaned in simp_all)
next
  case (call_unsent i)
  have "i \<noteq> []"
    using id_nonempty [OF conn_okD(1) [OF ok] j] call_unsent by simp
  then show ?thesis
    unfolding call_unsent
    using withdraw_keeps [OF ok j] call_unsent
      from_wire_own(1) [OF terminal_own [OF conn_okD(5) [OF ok]]] by simp
next
  case (call_expired i)
  have "i \<noteq> []"
    using id_nonempty [OF conn_okD(1) [OF ok] j] call_expired by simp
  then show ?thesis
    unfolding call_expired
    using withdraw_keeps [OF ok j] call_expired from_wire_own(2) by simp
qed


section \<open>Messages and the shutdown keep the invariant\<close>

definition fails_locally :: "(client_error, 'a) result \<Rightarrow> bool" where
  "fails_locally r \<longleftrightarrow> (\<forall>e. r = Inl e \<longrightarrow> own_error (Some e))"

lemma decoders_local:
  "fails_locally (required_bool field v)" "fails_locally (optional_bool field v)"
  "fails_locally (optional_number field v)" "fails_locally (optional_u32 field v)"
  "fails_locally (optional_string field v)" "fails_locally (optional_track field v)"
  "fails_locally (optional_end_reason field v)"
  by (auto simp: fails_locally_def required_bool_def optional_bool_def optional_number_def
      optional_u32_def optional_string_def optional_track_def optional_end_reason_def
      invalid_change_field_def ok_or_def try_result_def split: if_splits option.splits sum.splits)

lemma local_intros:
  "fails_locally x \<Longrightarrow> fails_locally y \<Longrightarrow> fails_locally (if b then x else y)"
  "fails_locally r \<Longrightarrow> fails_locally (put r write)"
  "fails_locally r \<Longrightarrow> (\<And>x. fails_locally (k x)) \<Longrightarrow> fails_locally (try_result r k)"
  "fails_locally (Inl (ProtocolError p))" "fails_locally (Inr z)"
  "fails_locally (ok_or (ProtocolError p) opt)"
  "fails_locally x \<Longrightarrow> (\<And>u. fails_locally (k u)) \<Longrightarrow>
   fails_locally (case opt' of None \<Rightarrow> x | Some u \<Rightarrow> k u)"
  by (cases r; cases opt; cases opt'; auto simp: fails_locally_def put_def)+

lemma apply_field_local: "fails_locally (apply_field t field v)"
  unfolding apply_field_def Let_def by (intro local_intros decoders_local)

lemma apply_fields_local: "fails_locally (apply_fields t ms)"
  by (induction t ms rule: apply_fields.induct) (auto intro: local_intros apply_field_local)

lemma apply_event_local: "fails_locally (apply_event cached e)"
  unfolding apply_event_def apply_target_change_def
  by (cases e) (auto intro!: local_intros apply_fields_local)

lemma handle_message_local:
  assumes "handle_message c m = Inl e"
  shows "own_error (Some e)"
proof (cases m)
  case (IncomingEvent ev)
  then show ?thesis
    using assms apply_event_local [of "cn_snapshot c" ev]
    by (cases "apply_event (cn_snapshot c) ev") (auto simp: fails_locally_def)
qed (use assms in \<open>auto split: option.splits\<close>)

lemma response_result_wire: "from_wire (rs @ [IncomingResponse r]) (response_id r) (response_result r)"
  by (cases r) (auto simp: from_wire_def)

lemma response_delivered:
  assumes p: "pending_ok p slots cs" and s: "slots_ok rs slots cs"
    and j: "p (response_id r) = Some j"
  shows "pending_ok (p(response_id r := None)) (slots(j \<mapsto> response_result r)) cs"
    and "slots_ok (rs @ [IncomingResponse r]) (slots(j \<mapsto> response_result r)) cs"
proof -
  have call: "j < length cs" "entered (cs ! j)" "call_id (cs ! j) = Some (response_id r)"
    using p j by (simp_all add: pending_ok_def)
  show "pending_ok (p(response_id r := None)) (slots(j \<mapsto> response_result r)) cs"
    using p call(3) by (fastforce simp: pending_ok_def)
  show "slots_ok (rs @ [IncomingResponse r]) (slots(j \<mapsto> response_result r)) cs"
    using received_mono(1) [OF s] call response_result_wire by (auto simp: slots_ok_def)
qed

lemma handle_message_ok:
  assumes ok: "conn_ok c" and m: "handle_message c m = Inr c'"
  shows "conn_ok (c'\<lparr>cn_received := cn_received c @ [m]\<rparr>)"
proof (cases m)
  case (IncomingEvent ev)
  then obtain sn where "c' = c\<lparr>cn_snapshot := Some sn, cn_events := cn_events c @ [ev]\<rparr>"
    using m by auto
  then show ?thesis using conn_okD [OF ok] received_mono by (simp add: conn_ok_def)
next
  case (IncomingResponse r)
  show ?thesis
  proof (cases "cn_pending c (response_id r)")
    case None
    then have "c' = c" using m IncomingResponse by simp
    then show ?thesis using conn_okD [OF ok] received_mono by (simp add: conn_ok_def)
  next
    case (Some j)
    then have "c' = c\<lparr>cn_pending := (cn_pending c)(response_id r := None),
        cn_slots := (cn_slots c)(j \<mapsto> response_result r)\<rparr>"
      using m IncomingResponse by simp
    then show ?thesis
      using conn_okD [OF ok] received_mono response_delivered [OF conn_okD(2,3) [OF ok] Some]
        IncomingResponse by (simp add: conn_ok_def)
  qed
qed (use m in simp)

lemma drain_ok:
  assumes ok: "conn_ok c" and r: "own_error r"
  shows "conn_ok ((drain r c)\<lparr>cn_phase := Drained\<rparr>)"
proof -
  let ?e = "case r of None \<Rightarrow> Disconnected | Some e \<Rightarrow> e"
  have wire: "from_wire rs i (Inl ?e)" for rs i
    using r by (cases r) (auto intro: from_wire_own)
  have "slots_ok (cn_received c) (\<lambda>j. if j \<in> ran (cn_pending c) then Some (Inl ?e) else cn_slots c j)
      (cn_calls c)"
    unfolding slots_ok_def
  proof (intro allI impI)
    fix j x
    assume x: "(if j \<in> ran (cn_pending c) then Some (Inl ?e) else cn_slots c j) = Some x"
    show "j < length (cn_calls c) \<and> (entered (cn_calls c ! j) \<or> finished (cn_calls c ! j)) \<and>
        (\<exists>i. call_id (cn_calls c ! j) = Some i \<and> from_wire (cn_received c) i x)"
    proof (cases "j \<in> ran (cn_pending c)")
      case True
      then obtain i where "cn_pending c i = Some j" by (auto simp: ran_def)
      moreover have "x = Inl ?e" using x True by simp
      ultimately show ?thesis using conn_okD(2) [OF ok] wire by (simp add: pending_ok_def)
    next
      case False
      then show ?thesis using x conn_okD(3) [OF ok] by (simp add: slots_ok_def)
    qed
  qed
  then show ?thesis
    using conn_okD [OF ok] by (simp add: conn_ok_def drain_def pending_ok_def)
qed

lemma shutdown_ok: "conn_ok c \<Longrightarrow> conn_ok (shutdown c)"
  using drain_ok [of c] by (cases "cn_phase c") (simp_all add: shutdown_def conn_ok_def)

lemma ask_ok:
  assumes "conn_ok c"
  shows "conn_ok (c\<lparr>cn_calls := cn_calls c @ [Asked target op]\<rparr>)"
proof -
  have "ids_ok (cn_next c) (map call_id (cn_calls c) @ [None])"
    using conn_okD(1) [OF assms] by (auto simp: ids_ok_def nth_append split: if_splits)
  moreover have "pending_ok (cn_pending c) (cn_slots c) (cn_calls c @ [Asked target op])"
    using conn_okD(2) [OF assms] by (fastforce simp: pending_ok_def nth_append)
  moreover have "slots_ok (cn_received c) (cn_slots c) (cn_calls c @ [Asked target op])"
    using conn_okD(3) [OF assms] by (fastforce simp: slots_ok_def nth_append)
  moreover have "results_ok (cn_received c) (cn_calls c @ [Asked target op])"
    using conn_okD(4) [OF assms] by (auto simp: results_ok_def nth_append split: if_splits)
  ultimately show ?thesis using conn_okD(5,6) [OF assms] by (simp add: conn_ok_def)
qed

lemma conn_step_ok:
  assumes "conn_step c c'" and "conn_ok c" and "Suc (length (cn_calls c)) < 2 ^ 64"
  shows "conn_ok c'"
  using assms(1)
proof cases
  case (conn_call j c'' s)
  then show ?thesis using call_step_ok [OF assms(2) _ assms(3)] by simp
next
  case (conn_message m c'')
  then show ?thesis using handle_message_ok [OF assms(2)] by simp
next
  case (conn_bad_message m e)
  then show ?thesis
    using conn_okD [OF assms(2)] received_mono handle_message_local by (simp add: conn_ok_def)
qed (use assms(2) ask_ok shutdown_ok in \<open>simp_all add: conn_ok_def\<close>)


lemma new_connection_ok: "conn_ok new_connection"
  by (simp add: conn_ok_def new_connection_def ids_ok_def pending_ok_def slots_ok_def results_ok_def)

lemma call_step_calls: "call_step j c s c' s' \<Longrightarrow> cn_calls c' = cn_calls c"
  by (erule call_stepE) (auto simp: begin_call_def withdraw_def Let_def split: if_splits sum.splits)

lemma handle_message_calls: "handle_message c m = Inr c' \<Longrightarrow> cn_calls c' = cn_calls c"
  by (cases m) (auto split: option.splits)

lemma shutdown_calls [simp]: "cn_calls (shutdown c) = cn_calls c"
  by (simp add: shutdown_def drain_def split: phase.splits)

lemma conn_step_grows: "conn_step c c' \<Longrightarrow> length (cn_calls c) \<le> length (cn_calls c')"
  by (erule conn_step.cases) (auto dest: handle_message_calls)

lemma reachable_conn_ok:
  "conn_reaches c \<Longrightarrow> Suc (length (cn_calls c)) < 2 ^ 64 \<Longrightarrow> conn_ok c"
proof (induction rule: conn_reaches.induct)
  case conn_new
  show ?case by (rule new_connection_ok)
next
  case (conn_next c c')
  then show ?case using conn_step_ok conn_step_grows [of c c'] by simp
qed

section \<open>What a client can rely on\<close>

lemma ids_unique:
  assumes "ids_ok nx (map call_id cs)" and "j < length cs" and "k < length cs"
    and "call_id (cs ! j) = Some i" and "call_id (cs ! k) = Some i"
  shows "j = k"
  using assms unfolding ids_ok_def by (metis length_map nth_map)

text \<open>
  C18. Requests and responses are matched: whenever a call of a connection returns a response,
  or an error of the daemon, the daemon sent exactly that under the id of this call, and no
  other call, finished or not, has this id. (The counter of ids is a 64-bit word; the
  connection has made fewer calls than it has values.)
\<close>

theorem responses_correlated:
  assumes "conn_reaches c" and "Suc (length (cn_calls c)) < 2 ^ 64"
    and "j < length (cn_calls c)" and "cn_calls c ! j = Finished i result"
  shows "(\<forall>r. result = Inr r \<longrightarrow> response_id r = i \<and> IncomingResponse r \<in> set (cn_received c)) \<and>
    (\<forall>code m. result = Inl (Remote code m) \<longrightarrow>
       IncomingResponse (Failure i code m) \<in> set (cn_received c)) \<and>
    (i \<noteq> [] \<longrightarrow> (\<forall>k < length (cn_calls c). call_id (cn_calls c ! k) = Some i \<longrightarrow> k = j))"
proof -
  have ok: "conn_ok c" using reachable_conn_ok assms by simp
  then have "from_wire (cn_received c) i result"
    using conn_okD(4) assms by (auto simp: results_ok_def)
  moreover have "k = j" if "i \<noteq> []" "k < length (cn_calls c)" "call_id (cn_calls c ! k) = Some i" for k
    using ids_unique [OF conn_okD(1) [OF ok] that(2) assms(3) that(3)] assms(4) that(1) by simp
  ultimately show ?thesis by (auto simp: from_wire_def)
qed

text \<open>A call takes at most five steps, and each of its steps brings it closer to its end.\<close>

fun call_rank :: "call \<Rightarrow> nat" where
  "call_rank (Asked _ _) = 5"
| "call_rank (Checked _) = 4"
| "call_rank (Registered _) = 3"
| "call_rank (Awaiting _) = 2"
| "call_rank (Unsent _) = 1"
| "call_rank (Expired _) = 1"
| "call_rank (Finished _ _) = 0"

lemma call_step_rank: "call_step j c s c' s' \<Longrightarrow> call_rank s' < call_rank s"
  by (erule call_stepE) (auto simp: begin_call_def Let_def split: if_splits sum.splits)

lemma call_enabled:
  assumes "\<not> finished s" and "\<And>r. s = Registered r \<Longrightarrow> cn_phase c = Gone \<or> length (cn_queue c) < queue_capacity"
  shows "\<exists>c' s'. call_step j c s c' s'"
proof (cases s)
  case (Asked target op)
  then show ?thesis by (metis call_step.call_begin surj_pair)
next
  case (Awaiting i)
  then show ?thesis
    by (cases "cn_slots c j") (auto intro: call_step.call_timeout call_step.call_answered)
next
  case (Registered r)
  then show ?thesis
    using assms(2) by (cases "cn_phase c = Gone") (auto intro: call_refused call_enqueue)
qed (use assms in \<open>auto intro: call_step.intros\<close>)


lemma apply_events_snoc:
  "apply_events v es = Inr w \<Longrightarrow> apply_event w e = Inr sn \<Longrightarrow> apply_events v (es @ [e]) = Inr (Some sn)"
  by (induction v es rule: apply_events.induct) (auto simp: try_result_def split: sum.splits)

lemma handle_message_snapshot:
  "handle_message c m = Inr c' \<Longrightarrow> apply_events None (cn_events c) = Inr (cn_snapshot c) \<Longrightarrow>
   apply_events None (cn_events c') = Inr (cn_snapshot c')"
  by (cases m) (auto intro: apply_events_snoc split: option.splits)

lemma call_step_snapshot:
  "call_step j c s c' s' \<Longrightarrow> cn_events c' = cn_events c \<and> cn_snapshot c' = cn_snapshot c"
  by (erule call_stepE) (auto simp: begin_call_def withdraw_def Let_def split: if_splits sum.splits)

lemma shutdown_snapshot [simp]:
  "cn_events (shutdown c) = cn_events c" "cn_snapshot (shutdown c) = cn_snapshot c"
  by (simp_all add: shutdown_def drain_def split: phase.splits)

lemma replayed_snapshot:
  assumes "conn_reaches c"
  shows "apply_events None (cn_events c) = Inr (cn_snapshot c)"
  using assms
proof (induction rule: conn_reaches.induct)
  case conn_new
  show ?case by (simp add: new_connection_def)
next
  case (conn_next c c')
  from conn_next.hyps(2) show ?case
    by cases (use conn_next.IH handle_message_snapshot call_step_snapshot in fastforce)+
qed

text \<open>
  The cached snapshot of a connection is at all times the result of applying, in order
  and from nothing, exactly the events it has passed on to its subscribers.
\<close>

lemma snapshot_replays_events:
  assumes "conn_reaches c"
  shows "apply_events None (cn_events c) = Inr (cn_snapshot c)"
  using assms by (rule replayed_snapshot)

section \<open>A request that misses the shutdown\<close>

definition late_request :: request where
  "late_request = \<lparr>rq_id = ''client-1'', rq_target = Some ''tv'', rq_operation = TargetStart\<rparr>"

text \<open>
  The end of the connection between the check of a call and its entry: the table is drained
  before the call enters it, and the queue is dropped after the call has sent.
\<close>

definition late_checked :: connection where
  "late_checked = new_connection\<lparr>cn_next := 2, cn_calls := [Checked late_request]\<rparr>"

definition late_drained :: connection where
  "late_drained =
     shutdown (shutdown (shutdown (shutdown (late_checked\<lparr>cn_phase := Ended (Some Disconnected)\<rparr>))))"

definition late_sent :: connection where
  "late_sent = shutdown (late_drained\<lparr>cn_pending := [''client-1'' \<mapsto> 0],
     cn_queue := [CmdRequest late_request], cn_calls := [Awaiting ''client-1'']\<rparr>)"

lemma late_phases:
  "cn_phase late_drained = Drained" "cn_phase late_sent = Gone"
  "cn_calls late_drained = [Checked late_request]" "cn_pending late_drained = Map.empty"
  "cn_queue late_drained = []" "cn_slots late_sent 0 = None" "cn_pending late_sent = [''client-1'' \<mapsto> 0]"
  "cn_calls late_sent = [Awaiting ''client-1'']"
  by (simp_all add: late_drained_def late_sent_def late_checked_def new_connection_def
      shutdown_def drain_def)

lemma client_id_1: "client_id 1 = ''client-1''"
  by code_simp

lemma single_call:
  assumes "conn_reaches c" and "cn_calls c = [s]" and "call_step 0 c s c' s'"
  shows "conn_reaches (c'\<lparr>cn_calls := [s']\<rparr>)"
proof -
  have "conn_step c (c'\<lparr>cn_calls := (cn_calls c)[0 := s']\<rparr>)"
    by (rule conn_call) (use assms(2,3) in simp_all)
  then show ?thesis using assms(1,2) conn_next by fastforce
qed

lemma late_checked_reached: "conn_reaches late_checked"
proof -
  let ?c1 = "new_connection\<lparr>cn_calls := [Asked (Some ''tv'') TargetStart]\<rparr>"
  have "validate_request late_request = Inr ()" by code_simp
  then have b: "begin_call ?c1 (Some ''tv'') TargetStart =
      (new_connection\<lparr>cn_next := 2, cn_calls := [Asked (Some ''tv'') TargetStart]\<rparr>, Checked late_request)"
    by (simp add: begin_call_def new_connection_def late_request_def client_id_1 Let_def)
  have "conn_reaches ?c1"
    using conn_reaches.conn_next [OF conn_new conn_ask] by (simp add: new_connection_def)
  then show ?thesis
    using single_call [OF _ _ call_begin [OF b]] by (simp add: late_checked_def)
qed

text \<open>
  C32. A request can miss the end of its connection: the call passes the check of the flag, the
  connection task then ends and answers everything pending, and the call enters the table
  and the queue only afterwards. Nothing but the request timeout can end this call.
\<close>

theorem request_misses_shutdown:
  "\<exists>c. conn_reaches c \<and> cn_phase c = Gone \<and> cn_calls c = [Awaiting ''client-1''] \<and>
     {s. \<exists>c'. call_step 0 c (Awaiting ''client-1'') c' s} \<subseteq> {Expired ''client-1''}"
proof -
  let ?e = "late_checked\<lparr>cn_phase := Ended (Some Disconnected)\<rparr>"
  let ?r = "late_drained\<lparr>cn_pending := [''client-1'' \<mapsto> 0], cn_calls := [Registered late_request]\<rparr>"
  let ?q = "late_drained\<lparr>cn_pending := [''client-1'' \<mapsto> 0],
    cn_queue := [CmdRequest late_request], cn_calls := [Awaiting ''client-1'']\<rparr>"
  have "conn_step late_checked ?e"
    by (rule conn_end_of_stream) (simp add: late_checked_def new_connection_def)
  then have "conn_reaches ?e" using late_checked_reached conn_next by blast
  moreover have down: "conn_reaches c \<Longrightarrow> cn_phase c \<noteq> Running \<Longrightarrow> conn_reaches (shutdown c)" for c
    using conn_next conn_shutdown by blast
  ultimately have drained: "conn_reaches late_drained"
    unfolding late_drained_def by (intro down) (auto simp: shutdown_def drain_def)
  have reg: "conn_reaches ?r"
    using single_call [OF drained late_phases(3) call_register] late_phases
    by (simp add: late_request_def)
  have "conn_reaches ?q"
    using single_call [OF reg _ call_enqueue] late_phases
    by (simp add: late_request_def queue_capacity_def)
  then have "conn_reaches late_sent"
    unfolding late_sent_def using late_phases by (intro down) simp_all
  moreover have "s = Expired ''client-1''" if "call_step 0 late_sent (Awaiting ''client-1'') c' s" for c' s
    using that by cases (auto simp: late_phases)
  ultimately show ?thesis using late_phases by blast
qed

section \<open>Witnesses\<close>

definition answered :: connection where
  "answered = late_checked\<lparr>cn_slots := [0 \<mapsto> Inr (Success ''client-1'' JNull)],
     cn_calls := [Finished ''client-1'' (Inr (Success ''client-1'' JNull))],
     cn_sent := [late_request], cn_received := [IncomingResponse (Success ''client-1'' JNull)]\<rparr>"

lemma answered_reached: "conn_reaches answered"
proof -
  let ?c = "late_checked"
  let ?reg = "?c\<lparr>cn_pending := [''client-1'' \<mapsto> 0], cn_calls := [Registered late_request]\<rparr>"
  let ?q = "?reg\<lparr>cn_queue := [CmdRequest late_request], cn_calls := [Awaiting ''client-1'']\<rparr>"
  let ?w = "?reg\<lparr>cn_sent := [late_request], cn_calls := [Awaiting ''client-1'']\<rparr>"
  let ?m = "IncomingResponse (Success ''client-1'' JNull)"
  let ?r = "?w\<lparr>cn_pending := Map.empty, cn_slots := [0 \<mapsto> Inr (Success ''client-1'' JNull)],
    cn_received := [?m]\<rparr>"
  have c: "cn_phase ?c = Running" "cn_pending ?c = Map.empty" "cn_queue ?c = []" "cn_sent ?c = []"
    "cn_slots ?c = Map.empty" "cn_calls ?c = [Checked late_request]" "cn_received ?c = []"
    by (simp_all add: late_checked_def new_connection_def)
  have "conn_reaches ?reg"
    using single_call [OF late_checked_reached c(6) call_register] c by (simp add: late_request_def)
  then have "conn_reaches ?q"
    using single_call [OF _ _ call_enqueue, of ?reg] c by (simp add: late_request_def queue_capacity_def)
  moreover have "conn_step ?q ?w"
    using conn_write [of ?q late_request "[]"] by (simp add: late_checked_def new_connection_def)
  ultimately have "conn_reaches ?w" using conn_next by blast
  moreover have "conn_step ?w ?r"
    using conn_message [of ?w ?m] by (simp add: late_checked_def new_connection_def)
  ultimately have "conn_reaches ?r" using conn_next by blast
  then show ?thesis
    using single_call [OF _ _ call_answered, of ?r]
    by (simp add: answered_def late_checked_def new_connection_def)
qed

theorem responses_correlated_witness:
  "IncomingResponse (Success ''client-1'' JNull) \<in> set (cn_received answered)"
  using responses_correlated [OF answered_reached, of 0]
  by (simp add: answered_def late_checked_def new_connection_def)

lemma snapshot_replays_events_witness:
  "apply_events None (cn_events answered) = Inr (cn_snapshot answered)"
  by (rule snapshot_replays_events [OF answered_reached])


end
