(* ===== verification/ClientCalls.thy ===== *)
theory ClientCalls
  imports Outcomes Connection
begin

text \<open>
  The typed interface of \<^verbatim>\<open>TargetClient\<close> in \<^verbatim>\<open>crates/mpv-targets/src/client.rs\<close>: the
  operation each method sends, and the result it decodes from the data of a success. The
  results are read from JSON objects, as the daemon writes them.
\<close>

section \<open>Arguments\<close>

datatype load_mode = Replace | Append | AppendPlay

fun load_mode_str :: "load_mode \<Rightarrow> string" where
  "load_mode_str Replace = ''replace''"
| "load_mode_str Append = ''append''"
| "load_mode_str AppendPlay = ''append-play''"

datatype loop_setting = LoopOff | LoopOn

fun loop_mpv_value :: "loop_setting \<Rightarrow> string" where
  "loop_mpv_value LoopOff = ''no''"
| "loop_mpv_value LoopOn = ''inf''"

datatype track = AutoTrack | NoTrack | TrackId u32

fun track_value :: "track \<Rightarrow> json" where
  "track_value AutoTrack = JStr ''auto''"
| "track_value NoTrack = JStr ''no''"
| "track_value (TrackId i) = json_u32 i"

section \<open>Methods\<close>

text \<open>The methods that change a target.\<close>

datatype service_call =
    CallAdd "string option" bool
  | CallAddBase bool bool bool
  | CallRemove
  | CallStart
  | CallStop
  | CallRestart
  | CallEnable
  | CallDisable
  | CallRename string
  | CallSetChannel "string option" bool
  | CallSaveChannel string bool

fun service_operation :: "service_call \<Rightarrow> operation" where
  "service_operation (CallAdd from enable_now) = TargetAdd from enable_now True True"
| "service_operation (CallAddBase enable_now start_paused start_muted) =
     TargetAdd None enable_now start_paused start_muted"
| "service_operation CallRemove = TargetRemove"
| "service_operation CallStart = TargetStart"
| "service_operation CallStop = TargetStop"
| "service_operation CallRestart = TargetRestart"
| "service_operation CallEnable = TargetEnable"
| "service_operation CallDisable = TargetDisable"
| "service_operation (CallRename replacement) = TargetRename replacement"
| "service_operation (CallSetChannel channel restart_too) = TargetSetChannel channel restart_too"
| "service_operation (CallSaveChannel channel overwrite) = TargetSaveChannel channel overwrite"

text \<open>The methods that play and edit the playlist, and those that set properties of the
  player, all through the native escape hatch.\<close>

datatype playback_call =
    Load string load_mode
  | Play
  | Pause
  | StopPlayback
  | TogglePlay
  | NextItem
  | PreviousItem
  | Seek f64
  | PlaylistPlay u32
  | LoadList string load_mode
  | Playlist
  | PlaylistClear
  | PlaylistRemove u32
  | PlaylistMove u32 u32
  | Shuffle
  | Unshuffle
  | SetVolume f64

fun playback_operation :: "playback_call \<Rightarrow> operation" where
  "playback_operation (Load source mode) = Mpv ''loadfile'' [JStr source, JStr (load_mode_str mode)]"
| "playback_operation Play = Mpv ''set_property'' [JStr ''pause'', JBool False]"
| "playback_operation Pause = Mpv ''set_property'' [JStr ''pause'', JBool True]"
| "playback_operation StopPlayback = Mpv ''stop'' []"
| "playback_operation TogglePlay = Mpv ''cycle'' [JStr ''pause'']"
| "playback_operation NextItem = Mpv ''playlist-next'' []"
| "playback_operation PreviousItem = Mpv ''playlist-prev'' []"
| "playback_operation (Seek seconds) = Mpv ''seek'' [json_f64 seconds, JStr ''relative'']"
| "playback_operation (PlaylistPlay index) = Mpv ''playlist-play-index'' [json_u32 index]"
| "playback_operation (LoadList source mode) = Mpv ''loadlist'' [JStr source, JStr (load_mode_str mode)]"
| "playback_operation Playlist = Mpv ''get_property'' [JStr ''playlist'']"
| "playback_operation PlaylistClear = Mpv ''playlist-clear'' []"
| "playback_operation (PlaylistRemove index) = Mpv ''playlist-remove'' [json_u32 index]"
| "playback_operation (PlaylistMove a b) = Mpv ''playlist-move'' [json_u32 a, json_u32 b]"
| "playback_operation Shuffle = Mpv ''playlist-shuffle'' []"
| "playback_operation Unshuffle = Mpv ''playlist-unshuffle'' []"
| "playback_operation (SetVolume volume) = Mpv ''set_property'' [JStr ''volume'', json_f64 volume]"

datatype setting_call =
    AdjustVolume f64
  | Mute
  | Unmute
  | ToggleMute
  | Fullscreen
  | SetFullscreen bool
  | SetLoop loop_setting
  | SetRepeat loop_setting
  | Audio track
  | Subtitle track
  | CycleAudio
  | CycleSubtitle
  | ToggleSubtitle
  | SubtitleVisibility bool
  | ShowText string u32
  | Keypress string

fun setting_operation :: "setting_call \<Rightarrow> operation" where
  "setting_operation (AdjustVolume delta) = Mpv ''add'' [JStr ''volume'', json_f64 delta]"
| "setting_operation Mute = Mpv ''set_property'' [JStr ''mute'', JBool True]"
| "setting_operation Unmute = Mpv ''set_property'' [JStr ''mute'', JBool False]"
| "setting_operation ToggleMute = Mpv ''cycle'' [JStr ''mute'']"
| "setting_operation Fullscreen = Mpv ''cycle'' [JStr ''fullscreen'']"
| "setting_operation (SetFullscreen on) = Mpv ''set_property'' [JStr ''fullscreen'', JBool on]"
| "setting_operation (SetLoop s) = Mpv ''set_property'' [JStr ''loop-file'', JStr (loop_mpv_value s)]"
| "setting_operation (SetRepeat s) =
     Mpv ''set_property'' [JStr ''loop-playlist'', JStr (loop_mpv_value s)]"
| "setting_operation (Audio t) = Mpv ''set_property'' [JStr ''aid'', track_value t]"
| "setting_operation (Subtitle t) = Mpv ''set_property'' [JStr ''sid'', track_value t]"
| "setting_operation CycleAudio = Mpv ''cycle'' [JStr ''aid'']"
| "setting_operation CycleSubtitle = Mpv ''cycle'' [JStr ''sid'']"
| "setting_operation ToggleSubtitle = Mpv ''cycle'' [JStr ''sub-visibility'']"
| "setting_operation (SubtitleVisibility visible) =
     Mpv ''set_property'' [JStr ''sub-visibility'', JBool visible]"
| "setting_operation (ShowText text duration_ms) = Mpv ''show-text'' [JStr text, json_u32 duration_ms]"
| "setting_operation (Keypress key) = Mpv ''keypress'' [JStr key]"

lemma player_operations_accepted:
  "validate_operation (playback_operation p) = Inr ()"
  "validate_operation (setting_operation s) = Inr ()"
  unfolding validate_operation_iff
  by (cases p; simp add: is_allowed_mpv_command_def allowed_mpv_commands_def)
    (cases s; simp add: is_allowed_mpv_command_def allowed_mpv_commands_def)

text \<open>
  No method of the client sends a request that the daemon refuses for its operation, except
  for the arguments of its caller: every player method is accepted as it is, and a service
  method exactly when the target names and channels given to it are valid.
\<close>

lemma client_methods_accepted:
  "validate_operation (playback_operation p) = Inr () \<and>
   validate_operation (setting_operation s) = Inr () \<and>
   (validate_operation (service_operation c) = Inr () \<longleftrightarrow>
     (case c of
        CallAdd (Some source) _ \<Rightarrow> validate_target_name source = Inr ()
      | CallRename replacement \<Rightarrow> validate_target_name replacement = Inr ()
      | CallSetChannel (Some channel) _ \<Rightarrow> valid_channel channel
      | CallSaveChannel channel _ \<Rightarrow> valid_channel_name channel
      | _ \<Rightarrow> True))"
  by (intro conjI player_operations_accepted)
    (cases c; simp add: validate_operation_iff split: option.splits)

section \<open>Results\<close>

record lifecycle_result =
  lr_online :: bool
  lr_stopped :: bool

record enable_result =
  er_disabled :: bool

record add_target_result =
  ar_name :: string
  ar_disabled :: bool
  ar_online :: bool
  ar_stopped :: bool
  ar_channel :: "string option"
  ar_copied :: "string list"

record remove_target_result =
  rr_removed :: string

record rename_target_result =
  nr_from :: string
  nr_to :: string

record channel_mutation_result =
  cr_channel :: "string option"
  cr_restart_requested :: bool
  cr_restart_completed :: bool

record channel_catalog =
  cc_channels :: "string list"

record save_channel_result =
  sr_channel :: string
  sr_items :: u64

record playlist_item =
  pi_id :: u64
  pi_filename :: string
  pi_title :: "string option"
  pi_current :: bool

text \<open>A required field, an optional one (absent or null), and one with a default.\<close>

definition field :: "json \<Rightarrow> string \<Rightarrow> (json \<Rightarrow> 'a option) \<Rightarrow> 'a option" where
  "field v key decode = (case json_get v key of None \<Rightarrow> None | Some x \<Rightarrow> decode x)"

definition nullable :: "(json \<Rightarrow> 'a option) \<Rightarrow> json \<Rightarrow> 'a option option" where
  "nullable decode x = (if is_null x then Some None else map_option Some (decode x))"

definition optional_member :: "json \<Rightarrow> string \<Rightarrow> (json \<Rightarrow> 'a option) \<Rightarrow> 'a option option" where
  "optional_member v key decode =
     (case json_get v key of None \<Rightarrow> Some None | Some x \<Rightarrow> nullable decode x)"

definition default_member :: "json \<Rightarrow> string \<Rightarrow> 'a \<Rightarrow> (json \<Rightarrow> 'a option) \<Rightarrow> 'a option" where
  "default_member v key d decode =
     (case json_get v key of None \<Rightarrow> Some d | Some x \<Rightarrow> decode x)"

fun decode_all :: "(json \<Rightarrow> 'a option) \<Rightarrow> json list \<Rightarrow> 'a list option" where
  "decode_all decode [] = Some []"
| "decode_all decode (x # xs) =
     (case decode x of
        None \<Rightarrow> None
      | Some y \<Rightarrow> map_option ((#) y) (decode_all decode xs))"

definition decode_array :: "(json \<Rightarrow> 'a option) \<Rightarrow> json \<Rightarrow> 'a list option" where
  "decode_array decode v = (case as_array v of None \<Rightarrow> None | Some xs \<Rightarrow> decode_all decode xs)"

definition decode_lifecycle :: "json \<Rightarrow> lifecycle_result option" where
  "decode_lifecycle v =
     Option.bind (field v ''online'' as_bool) (\<lambda>online.
     Option.bind (field v ''stopped'' as_bool) (\<lambda>stopped.
     Some \<lparr>lr_online = online, lr_stopped = stopped\<rparr>))"

definition decode_enable :: "json \<Rightarrow> enable_result option" where
  "decode_enable v =
     map_option (\<lambda>d. \<lparr>er_disabled = d\<rparr>) (field v ''disabled'' as_bool)"

definition decode_add :: "json \<Rightarrow> add_target_result option" where
  "decode_add v =
     Option.bind (field v ''name'' as_str) (\<lambda>name.
     Option.bind (field v ''disabled'' as_bool) (\<lambda>disabled.
     Option.bind (field v ''online'' as_bool) (\<lambda>online.
     Option.bind (field v ''stopped'' as_bool) (\<lambda>stopped.
     Option.bind (optional_member v ''channel'' as_str) (\<lambda>channel.
     Option.bind (field v ''copied'' (decode_array as_str)) (\<lambda>copied.
     Some \<lparr>ar_name = name, ar_disabled = disabled, ar_online = online, ar_stopped = stopped,
           ar_channel = channel, ar_copied = copied\<rparr>))))))"

definition decode_remove :: "json \<Rightarrow> remove_target_result option" where
  "decode_remove v = map_option (\<lambda>n. \<lparr>rr_removed = n\<rparr>) (field v ''removed'' as_str)"

definition decode_rename :: "json \<Rightarrow> rename_target_result option" where
  "decode_rename v =
     Option.bind (field v ''from'' as_str) (\<lambda>a.
     Option.bind (field v ''to'' as_str) (\<lambda>b.
     Some \<lparr>nr_from = a, nr_to = b\<rparr>))"

definition decode_channel_mutation :: "json \<Rightarrow> channel_mutation_result option" where
  "decode_channel_mutation v =
     Option.bind (optional_member v ''channel'' as_str) (\<lambda>channel.
     Option.bind (field v ''restart_requested'' as_bool) (\<lambda>requested.
     Option.bind (field v ''restart_completed'' as_bool) (\<lambda>completed.
     Some \<lparr>cr_channel = channel, cr_restart_requested = requested,
           cr_restart_completed = completed\<rparr>)))"

definition decode_catalog :: "json \<Rightarrow> channel_catalog option" where
  "decode_catalog v =
     map_option (\<lambda>cs. \<lparr>cc_channels = cs\<rparr>) (field v ''channels'' (decode_array as_str))"

definition decode_save_channel :: "json \<Rightarrow> save_channel_result option" where
  "decode_save_channel v =
     Option.bind (field v ''channel'' as_str) (\<lambda>channel.
     Option.bind (field v ''items'' as_u64) (\<lambda>items.
     Some \<lparr>sr_channel = channel, sr_items = items\<rparr>))"

definition decode_playlist_item :: "json \<Rightarrow> playlist_item option" where
  "decode_playlist_item v =
     Option.bind (field v ''id'' as_u64) (\<lambda>i.
     Option.bind (field v ''filename'' as_str) (\<lambda>filename.
     Option.bind (default_member v ''title'' None (nullable as_str)) (\<lambda>title.
     Option.bind (default_member v ''current'' False as_bool) (\<lambda>current.
     Some \<lparr>pi_id = i, pi_filename = filename, pi_title = title, pi_current = current\<rparr>))))"

definition decode_playlist :: "json \<Rightarrow> playlist_item list option" where
  "decode_playlist = decode_array decode_playlist_item"

definition decode_success ::
    "(json \<Rightarrow> 'a option) \<Rightarrow> string response \<Rightarrow> (client_error, 'a) result" where
  "decode_success decode r =
     (case r of
        Success _ data \<Rightarrow> ok_or (ProtocolError UndecodableResult) (decode data)
      | Failure _ code message \<Rightarrow> Inl (Remote code message))"

section \<open>The daemon's data decodes\<close>

lemma json_obj_get: "json_get (json_obj ps) k = map_of (rev ps) k"
  by (simp add: json_obj_def bt_get_of_list)

lemma decode_all_strings [simp]: "decode_all as_str (map JStr cs) = Some cs"
  by (induction cs) simp_all

lemma nullable_opt_json [simp]: "nullable as_str (opt_json JStr c) = Some c"
  by (cases c) (simp_all add: nullable_def opt_json_def)

lemmas decoding =
  json_obj_get field_def optional_member_def decode_array_def

lemma power_json_decodes:
  "decode_lifecycle (power_json t) = Some \<lparr>lr_online = tr_online t, lr_stopped = tr_stopped t\<rparr>"
  by (simp add: decode_lifecycle_def power_json_def decoding)

lemma disabled_json_decodes: "decode_enable (disabled_json t) = Some \<lparr>er_disabled = tr_disabled t\<rparr>"
  by (simp add: decode_enable_def disabled_json_def decoding)

lemma added_json_decodes:
  "decode_add (added_json from t) = Some
     \<lparr>ar_name = tr_name t, ar_disabled = tr_disabled t, ar_online = tr_online t,
      ar_stopped = tr_stopped t, ar_channel = tr_channel t,
      ar_copied = (case from of Some _ \<Rightarrow> [''mpv.conf'', ''scripts/''] | None \<Rightarrow> [''mpv.conf''])\<rparr>"
  by (cases "from") (simp_all add: decode_add_def added_json_def decoding)

text \<open>What the client's method for an operation decodes from the data.\<close>

fun decodable :: "operation \<Rightarrow> json \<Rightarrow> bool" where
  "decodable (TargetAdd _ _ _ _) data = (decode_add data \<noteq> None)"
| "decodable TargetRemove data = (decode_remove data \<noteq> None)"
| "decodable TargetStart data = (decode_lifecycle data \<noteq> None)"
| "decodable TargetStop data = (decode_lifecycle data \<noteq> None)"
| "decodable TargetRestart data = (decode_lifecycle data \<noteq> None)"
| "decodable TargetEnable data = (decode_enable data \<noteq> None)"
| "decodable TargetDisable data = (decode_enable data \<noteq> None)"
| "decodable (TargetRename _) data = (decode_rename data \<noteq> None)"
| "decodable (TargetSetChannel _ _) data = (decode_channel_mutation data \<noteq> None)"
| "decodable (TargetSaveChannel _ _) data = (decode_save_channel data \<noteq> None)"
| "decodable NodeListChannels data = (decode_catalog data \<noteq> None)"
| "decodable (Mpv _ _) data = True"


lemma run_then:
  "run (then_task p k) env n w =
   (case run p env n w of
      (None, m, w') \<Rightarrow> (None, m, w')
    | (Some (Inl e), m, w') \<Rightarrow> (Some (Inl e), m, w')
    | (Some (Inr x), m, w') \<Rightarrow> run (k x) env m w')"
  by (auto simp: then_task_def run_bind split: prod.splits option.splits sum.splits)

lemma run_answer:
  "run (answer p f) env n w = (Some (Inr data), m, w') \<Longrightarrow> \<exists>x. data = f x"
  by (auto simp: answer_def run_then split: prod.splits option.splits sum.splits)

text \<open>
  The two ends of the protocol agree on the results: whenever an operation of the daemon
  succeeds, its data decodes to the result type of the client's method for that operation.
\<close>

lemma success_data_decodes:
  assumes "run (dispatch_operation pt (Some name) op) env n w = (Some (Inr data), m, w')"
  shows "decodable op data"
proof (cases op)
  case (TargetAdd source enabled paused muted)
  then show ?thesis using assms run_answer added_json_decodes by (fastforce simp: on_target_def)
next
  case (TargetSetChannel channel restart_too)
  then show ?thesis
    using assms
    by (auto simp: on_target_def run_then decode_channel_mutation_def decoding
        split: prod.splits option.splits sum.splits if_splits)
next
  case (TargetRename replacement)
  then show ?thesis
    using assms by (auto simp: on_target_def decode_rename_def decoding dest!: run_answer)
next
  case (TargetSaveChannel channel overwrite)
  then show ?thesis
    using assms by (auto simp: on_target_def decode_save_channel_def decoding dest!: run_answer)
next
  case TargetRemove
  then show ?thesis
    using assms by (auto simp: on_target_def decode_remove_def decoding dest!: run_answer)
next
  case NodeListChannels
  then show ?thesis
    using assms by (auto simp: decode_catalog_def decoding dest!: run_answer)
qed (use assms in \<open>auto simp: on_target_def power_json_decodes disabled_json_decodes dest!: run_answer\<close>)


definition stop_run :: "(supervisor_error, json) result option \<times> nat \<times> world" where
  "stop_run = run (dispatch_operation demo_paths (Some ''tv'') TargetStop) demo_answers 0 demo_world"

lemma stop_run_succeeds: "case fst stop_run of Some (Inr data) \<Rightarrow> True | _ \<Rightarrow> False"
  by code_simp

lemma success_data_decodes_witness:
  "case fst stop_run of Some (Inr data) \<Rightarrow> decodable TargetStop data | _ \<Rightarrow> False"
proof -
  obtain data where d: "fst stop_run = Some (Inr data)"
    using stop_run_succeeds by (auto split: option.splits sum.splits)
  obtain m w' where r: "stop_run = (Some (Inr data), m, w')"
    using d by (metis prod.collapse)
  then show ?thesis
    using success_data_decodes [of demo_paths "''tv''" TargetStop demo_answers 0 demo_world data m w']
    by (simp add: stop_run_def)
qed

end
