(* ===== verification/Cli.thy ===== *)
theory Cli
  imports ClientCalls Endpoint
begin

text \<open>
  The command line of \<^verbatim>\<open>crates/targets/src/main.rs\<close>: from the arguments to the daemon to
  contact and the requests to send, in order. Reading files and talking to the daemon are
  parameters: the node book and the local configuration as they are read, the cached
  snapshot, and the channel catalog. An error text is given by the values it is formatted
  from; an index out of range, which would panic, is \<open>None\<close>.
\<close>

datatype cli_error =
    RequiresValue string
  | OnlyOnce string
  | SelectorAfterTargets
  | InvalidSelector
  | SelectorTwice
  | UnknownCommand string
  | InvalidArguments string
  | UnknownAddOption string
  | DuplicateAddOption string
  | MissingTargetArgument
  | MissingArgument string
  | UrlAndSelector
  | UnknownNode string
  | NoSnapshot
  | ChannelNumberZero
  | ChannelNumberUnknown nat
  | ChannelUnknown string
  | ItemNotNumber
  | IdentifyArgument
  | NeedsConfirmation
  | LocalDaemon url_error
  | Request client_error
  | RefusedResponse error_code string
  | HomeNotSet

section \<open>Options and the node selector\<close>

fun indices_of :: "string \<Rightarrow> nat \<Rightarrow> string list \<Rightarrow> nat list" where
  "indices_of x i [] = []"
| "indices_of x i (a # as) = (if a = x then i # indices_of x (Suc i) as else indices_of x (Suc i) as)"

definition take_option ::
    "string list \<Rightarrow> string \<Rightarrow> (cli_error, string option \<times> string list) result" where
  "take_option args option =
     (case indices_of option 0 args of
        [] \<Rightarrow> Inr (None, args)
      | [i] \<Rightarrow>
          if i + 1 < length args \<and> \<not> starts_with (args ! (i + 1)) ''--''
          then Inr (Some (args ! (i + 1)), take i args @ drop (i + 2) args)
          else Inl (RequiresValue option)
      | _ \<Rightarrow> Inl (OnlyOnce option))"

definition is_selector :: "string \<Rightarrow> bool" where
  "is_selector a = starts_with a ''@''"

definition resolve_selector ::
    "string list \<Rightarrow> (cli_error, string option \<times> string list) result" where
  "resolve_selector args =
     (case args of
        [] \<Rightarrow> Inr (None, args)
      | first # rest \<Rightarrow>
          if \<not> is_selector first then
            (if list_ex is_selector args then Inl SelectorAfterTargets else Inr (None, args))
          else
            (let selector = dropWhile (\<lambda>c. c = CHR ''@'') first in
             if selector = [] \<or> CHR ''/'' \<in> set selector then Inl InvalidSelector
             else if list_ex is_selector rest then Inl SelectorTwice
             else Inr (Some selector, rest)))"

section \<open>Forms of the commands\<close>

definition is_flag :: "string \<Rightarrow> bool" where
  "is_flag a = starts_with a ''--''"

fun matches_form :: "string list \<Rightarrow> string list \<Rightarrow> bool" where
  "matches_form [] [] = True"
| "matches_form (expected # form) (actual # args) =
     ((if starts_with expected ''<'' then \<not> is_flag actual else expected = actual)
      \<and> matches_form form args)"
| "matches_form _ _ = False"

definition exact :: "string list list \<Rightarrow> string list \<Rightarrow> bool" where
  "exact forms args = list_ex (\<lambda>form. matches_form form args) forms"

definition valid_target_list :: "string list \<Rightarrow> bool \<Rightarrow> string option \<Rightarrow> bool" where
  "valid_target_list args allow_all trailing_flag =
     (let (targets, flag_valid) =
        (case trailing_flag of
           Some flag \<Rightarrow>
             if args \<noteq> [] \<and> last args = flag then (butlast args, True)
             else (args, \<not> list_ex is_flag args)
         | None \<Rightarrow> (args, \<not> list_ex is_flag args))
      in flag_valid \<and> targets \<noteq> [] \<and> list_all (\<lambda>t. \<not> is_flag t) targets \<and>
         (if list_ex (\<lambda>t. t = ''all'') targets then allow_all \<and> length targets = 1 else True))"

definition add_options :: "string list" where
  "add_options = [''--from'', ''--channel'', ''--enable'', ''--start'']"

definition takes_value :: "string \<Rightarrow> bool" where
  "takes_value option \<longleftrightarrow> option = ''--from'' \<or> option = ''--channel''"

text \<open>The loop over the options of \<^verbatim>\<open>add\<close>, with the set of those seen.\<close>

fun check_add_options :: "string set \<Rightarrow> string list \<Rightarrow> (cli_error, unit) result" where
  "check_add_options seen [] = Inr ()"
| "check_add_options seen (option # rest) =
     (if \<not> List.member add_options option then Inl (UnknownAddOption option)
      else if option \<in> seen then Inl (DuplicateAddOption option)
      else if takes_value option then
        (case rest of
           [] \<Rightarrow> Inl (RequiresValue option)
         | v # rest' \<Rightarrow>
             if is_flag v then Inl (RequiresValue option)
             else check_add_options (insert option seen) rest')
      else check_add_options (insert option seen) rest)"

definition validate_add_args :: "string list \<Rightarrow> (cli_error, unit) result" where
  "validate_add_args args =
     (case args of [] \<Rightarrow> Inl MissingTargetArgument | _ # options \<Rightarrow> check_add_options {} options)"

text \<open>\<open>None\<close> where no command has this name.\<close>

definition command_form :: "string \<Rightarrow> string list \<Rightarrow> bool option" where
  "command_form command args =
     (if command = ''status'' then
        Some (exact [[], [''<target>''], [''--json''], [''<target>'', ''--json'']] args)
      else if command = ''remove'' then Some (exact [[''<target>''], [''<target>'', ''--yes'']] args)
      else if command = ''rename'' then
        Some (exact [[''<target>'', ''<new-target>''], [''<target>'', ''<new-target>'', ''--yes'']] args)
      else if List.member [''start'', ''stop'', ''restart''] command then
        Some (valid_target_list args True None)
      else if command = ''enable'' then Some (valid_target_list args False (Some ''--start''))
      else if command = ''disable'' then Some (valid_target_list args False None)
      else if command = ''show-channels'' then Some (exact [[]] args)
      else if command = ''set-channel'' then
        Some (exact [[''<target>'', ''<channel>''], [''<target>'', ''<channel>'', ''--restart'']] args)
      else if command = ''clear-channel'' then
        Some (exact [[''<target>''], [''<target>'', ''--restart'']] args)
      else if command = ''playlist'' then Some (exact [[''<target>''], [''<target>'', ''<item>'']] args)
      else if List.member [''loadfile'', ''append''] command then
        Some (exact [[''<target>'', ''<source>'']] args)
      else if List.member [''play'', ''pause'', ''toggle-play'', ''mute''] command then
        Some (valid_target_list args True None)
      else if List.member [''next'', ''previous'', ''unmute'', ''toggle-mute'', ''loop'', ''repeat'',
          ''shuffle'', ''unshuffle''] command then
        Some (valid_target_list args False None)
      else if List.member [''fullscreen'', ''cycle-audio'', ''cycle-subtitle'', ''toggle-subtitle''] command
      then Some (exact [[''<target>'']] args)
      else if command = ''identify'' then Some (args = [])
      else if command = ''mpv'' then Some (2 \<le> length args)
      else None)"

definition validate_command_args :: "string \<Rightarrow> string list \<Rightarrow> (cli_error, unit) result" where
  "validate_command_args command args =
     (if command = ''add'' then validate_add_args args
      else case command_form command args of
        None \<Rightarrow> Inl (UnknownCommand command)
      | Some valid \<Rightarrow> if valid then Inr () else Inl (InvalidArguments command))"

section \<open>From the arguments to a daemon\<close>

record node_entry =
  ne_id :: string
  ne_url :: string

text \<open>Where the node book and the configuration of the local daemon are read, from
  \<^verbatim>\<open>XDG_CONFIG_HOME\<close> and \<^verbatim>\<open>HOME\<close>.\<close>

definition configured_path ::
    "string option \<Rightarrow> string option \<Rightarrow> string \<Rightarrow> string \<Rightarrow> (cli_error, string list) result" where
  "configured_path config_home home below_config below_home =
     (case config_home of
        Some p \<Rightarrow> Inr (path_join (normal_segments p) below_config)
      | None \<Rightarrow> try_result (ok_or HomeNotSet home)
          (\<lambda>h. Inr (path_join (normal_segments h) below_home)))"

definition node_book_path :: "string option \<Rightarrow> string option \<Rightarrow> (cli_error, string list) result" where
  "node_book_path config_home home =
     configured_path config_home home ''mpv-targets/nodes.toml'' ''.config/mpv-targets/nodes.toml''"

definition local_config_root :: "string option \<Rightarrow> string option \<Rightarrow> (cli_error, string list) result" where
  "local_config_root config_home home =
     configured_path config_home home ''mpv-targets'' ''.config/mpv-targets''"

text \<open>\<^verbatim>\<open>load_node\<close>, over the node book as it is read.\<close>

definition load_node ::
    "(cli_error, node_entry list) result \<Rightarrow> string \<Rightarrow> (cli_error, string) result" where
  "load_node book i =
     try_result book (\<lambda>nodes.
       map_err (\<lambda>_. UnknownNode i) (ok_or () (map_option ne_url (find (\<lambda>n. ne_id n = i) nodes))))"

definition local_daemon_url ::
    "(cli_error, daemon_config) result \<Rightarrow> (cli_error, string) result" where
  "local_daemon_url config = try_result config (\<lambda>c. map_err LocalDaemon (daemon_url c))"

datatype invocation = ShowHelp | Invoke string string "string list"

text \<open>\<^verbatim>\<open>run\<close> up to the connection: help, or a URL, a command and its arguments.\<close>

definition prepare ::
    "(cli_error, node_entry list) result \<Rightarrow> (cli_error, daemon_config) result \<Rightarrow> string list \<Rightarrow>
     (cli_error, invocation) result" where
  "prepare book config args =
     (if args = [] \<or> hd args = ''help'' \<or> hd args = ''--help'' then Inr ShowHelp
      else try_result (take_option args ''--url'') (\<lambda>(explicit_url, rest).
        (case rest of
           [] \<Rightarrow> Inr ShowHelp
         | command # rest' \<Rightarrow>
             try_result (resolve_selector rest') (\<lambda>(node, args').
             try_result (validate_command_args command args') (\<lambda>_.
               if explicit_url \<noteq> None \<and> node \<noteq> None then Inl UrlAndSelector
               else
                 try_result (case node of None \<Rightarrow> Inr None
                     | Some i \<Rightarrow> try_result (load_node book i) (\<lambda>u. Inr (Some u))) (\<lambda>book_url.
                 try_result (case explicit_url of Some u \<Rightarrow> Inr u
                     | None \<Rightarrow> (case book_url of Some u \<Rightarrow> Inr u | None \<Rightarrow> local_daemon_url config))
                   (\<lambda>url. Inr (Invoke url command args'))))))))"


section \<open>From a command to its requests\<close>

text \<open>A command sends its requests one after the other and stops at the first failure. A step
  is a request, an error of the command line itself, or a panic.\<close>

datatype cli_step =
    Send (step_target: string) (step_operation: operation)
  | Abort cli_error
  | Crash

definition playable :: "target_record \<Rightarrow> bool" where
  "playable t \<longleftrightarrow> tr_online t \<and> \<not> tr_disabled t"

definition lifecycle_all_targets :: "snapshot \<Rightarrow> string \<Rightarrow> string list" where
  "lifecycle_all_targets sn command =
     map tr_name (filter (\<lambda>t. \<not> tr_disabled t \<and>
       (if command = ''start'' then tr_stopped t
        else if command = ''stop'' \<or> command = ''restart'' then tr_online t else False)) (sn_targets sn))"

definition lifecycle_call :: "string \<Rightarrow> service_call option" where
  "lifecycle_call command =
     (if command = ''start'' then Some CallStart
      else if command = ''stop'' then Some CallStop
      else if command = ''restart'' then Some CallRestart
      else if command = ''enable'' then Some CallEnable
      else if command = ''disable'' then Some CallDisable
      else None)"

definition send_service :: "string \<Rightarrow> service_call option \<Rightarrow> cli_step" where
  "send_service target call =
     (case call of None \<Rightarrow> Crash | Some c \<Rightarrow> Send target (service_operation c))"

definition lifecycle_script :: "snapshot option \<Rightarrow> string \<Rightarrow> string list \<Rightarrow> cli_step list" where
  "lifecycle_script cached command args =
     (let named = filter (\<lambda>a. \<not> is_flag a) args;
          script = (\<lambda>targets. concat (map (\<lambda>t.
            send_service t (lifecycle_call command) #
            (if command = ''enable'' \<and> List.member args ''--start''
             then [send_service t (Some CallStart)] else [])) targets))
      in if named \<noteq> [] \<and> hd named = ''all'' then
           (case cached of
              None \<Rightarrow> [Abort NoSnapshot]
            | Some sn \<Rightarrow> script (lifecycle_all_targets sn command))
         else script named)"

definition loop_is_on :: "snapshot \<Rightarrow> (target_state \<Rightarrow> string option) \<Rightarrow> string \<Rightarrow> bool" where
  "loop_is_on sn state target =
     (case find (\<lambda>t. tr_name t = target) (sn_targets sn) of
        None \<Rightarrow> False | Some t \<Rightarrow> state (tr_state t) = Some ''on'')"

definition flipped :: "bool \<Rightarrow> loop_setting" where
  "flipped on = (if on then LoopOff else LoopOn)"

definition load_step :: "string \<Rightarrow> string list \<Rightarrow> load_mode \<Rightarrow> cli_step" where
  "load_step target args mode =
     (if length args \<le> 1 then Crash
      else Send target (playback_operation (Load (args ! 1) mode)))"

definition mpv_action_step ::
    "snapshot \<Rightarrow> bool \<Rightarrow> bool \<Rightarrow> string \<Rightarrow> string list \<Rightarrow> string \<Rightarrow> cli_step" where
  "mpv_action_step sn bulk all_paused command args target =
     (let play = (\<lambda>c. Send target (playback_operation c));
          setting = (\<lambda>c. Send target (setting_operation c))
      in if command = ''play'' then play Play
      else if command = ''pause'' then play Pause
      else if command = ''toggle-play'' \<and> bulk then (if all_paused then play Play else play Pause)
      else if command = ''toggle-play'' then play TogglePlay
      else if command = ''loadfile'' then load_step target args Replace
      else if command = ''append'' then load_step target args Append
      else if command = ''next'' then play NextItem
      else if command = ''previous'' then play PreviousItem
      else if command = ''mute'' then setting Mute
      else if command = ''unmute'' then setting Unmute
      else if command = ''toggle-mute'' then setting ToggleMute
      else if command = ''fullscreen'' then setting Fullscreen
      else if command = ''loop'' then
        setting (SetLoop (flipped (loop_is_on sn ts_loop_file target)))
      else if command = ''repeat'' then
        setting (SetRepeat (flipped (loop_is_on sn ts_loop_playlist target)))
      else if command = ''shuffle'' then play Shuffle
      else if command = ''unshuffle'' then play Unshuffle
      else if command = ''cycle-audio'' then setting CycleAudio
      else if command = ''cycle-subtitle'' then setting CycleSubtitle
      else if command = ''toggle-subtitle'' then setting ToggleSubtitle
      else Crash)"

definition single_target_actions :: "string list" where
  "single_target_actions =
     [''loadfile'', ''append'', ''fullscreen'', ''cycle-audio'', ''cycle-subtitle'', ''toggle-subtitle'']"

definition mpv_action_script :: "snapshot option \<Rightarrow> string \<Rightarrow> string list \<Rightarrow> cli_step list" where
  "mpv_action_script cached command args =
     (case (args, cached) of
        ([], _) \<Rightarrow> [Abort MissingTargetArgument]
      | (_, None) \<Rightarrow> [Abort NoSnapshot]
      | (first # _, Some sn) \<Rightarrow>
          (let bulk = (first = ''all'');
               targets = (if bulk then map tr_name (filter playable (sn_targets sn))
                          else if List.member single_target_actions command then [first] else args);
               all_paused = (bulk \<and>
                 list_all (\<lambda>t. ts_paused (tr_state t) = Some True) (filter playable (sn_targets sn)))
           in map (mpv_action_step sn bulk all_paused command args) targets))"

section \<open>Channels\<close>

definition resolve_channel ::
    "(cli_error, string list) result \<Rightarrow> string \<Rightarrow> (cli_error, string) result" where
  "resolve_channel catalog value =
     (if contains_str value ''://'' \<or> is_absolute value then Inr value
      else try_result catalog (\<lambda>entries.
        case parse_unsigned (2 ^ 64 - 1) value of
          Some number \<Rightarrow>
            if number = 0 then Inl ChannelNumberZero
            else if number - 1 < length entries then Inr (entries ! (number - 1))
            else Inl (ChannelNumberUnknown number)
        | None \<Rightarrow>
            ok_or (ChannelUnknown value) (find (\<lambda>p. file_name p = Some value) entries)))"

definition channel_script ::
    "(cli_error, string list) result \<Rightarrow> string \<Rightarrow> string list \<Rightarrow> cli_step list" where
  "channel_script catalog command args =
     (case args of
        [] \<Rightarrow> [Abort MissingTargetArgument]
      | target # rest \<Rightarrow>
          (let selected =
             (if command = ''clear-channel'' then Inr None
              else case rest of
                [] \<Rightarrow> Inl (MissingArgument ''channel'')
              | value # _ \<Rightarrow> try_result (resolve_channel catalog value) (\<lambda>c. Inr (Some c)))
           in case selected of
                Inl e \<Rightarrow> [Abort e]
              | Inr channel \<Rightarrow>
                  [Send target (service_operation
                    (CallSetChannel channel (List.member args ''--restart'')))]))"

section \<open>Adding, removing, renaming\<close>

definition option_value :: "string list \<Rightarrow> string \<Rightarrow> (cli_error, string option) result" where
  "option_value args option =
     (case indices_of option 0 args of
        [] \<Rightarrow> Inr None
      | i # _ \<Rightarrow> if i + 1 < length args then Inr (Some (args ! (i + 1))) else Inl (RequiresValue option))"

definition add_script :: "(cli_error, string list) result \<Rightarrow> string list \<Rightarrow> cli_step list" where
  "add_script catalog args =
     (case args of
        [] \<Rightarrow> [Abort MissingTargetArgument]
      | name # _ \<Rightarrow>
          (case (option_value args ''--from'', option_value args ''--channel'') of
             (Inl e, _) \<Rightarrow> [Abort e]
           | (_, Inl e) \<Rightarrow> [Abort e]
           | (Inr source, Inr channel) \<Rightarrow>
               (let enable = List.member args ''--enable''; start = List.member args ''--start'' in
                [Send name (service_operation (CallAdd source (enable \<or> start)))]
                @ (case channel of
                     None \<Rightarrow> []
                   | Some value \<Rightarrow>
                       (case resolve_channel catalog value of
                          Inl e \<Rightarrow> [Abort e]
                        | Inr c \<Rightarrow> [Send name (service_operation (CallSetChannel (Some c) False))]))
                @ (if start then [Send name (service_operation CallStart)] else []))))"

text \<open>The answer to the confirmation prompt is a parameter; without a terminal it is an
  error.\<close>

definition confirmed_step :: "(cli_error, bool) result \<Rightarrow> string list \<Rightarrow> cli_step \<Rightarrow> cli_step list" where
  "confirmed_step ask args step =
     (if List.member args ''--yes'' then [step]
      else case ask of Inl e \<Rightarrow> [Abort e] | Inr yes \<Rightarrow> if yes then [step] else [])"

definition remove_script :: "(cli_error, bool) result \<Rightarrow> string list \<Rightarrow> cli_step list" where
  "remove_script ask args =
     (case args of
        [] \<Rightarrow> [Abort MissingTargetArgument]
      | target # _ \<Rightarrow> confirmed_step ask args (Send target (service_operation CallRemove)))"

definition rename_script :: "(cli_error, bool) result \<Rightarrow> string list \<Rightarrow> cli_step list" where
  "rename_script ask args =
     (case args of
        [] \<Rightarrow> [Abort MissingTargetArgument]
      | [_] \<Rightarrow> [Abort (MissingArgument ''new target name'')]
      | old # new # _ \<Rightarrow> confirmed_step ask args (Send old (service_operation (CallRename new))))"

section \<open>Player commands\<close>

definition ascii_upper :: "char \<Rightarrow> char" where
  "ascii_upper c =
     (if is_ascii_lowercase c then char_of ((of_char c :: nat) - 32) else c)"

text \<open>\<^verbatim>\<open>to_uppercase\<close>, on the ASCII names of targets.\<close>

definition identify_text :: "string \<Rightarrow> string" where
  "identify_text target =
     ''${osd-ass-cc/0}{'' @ [CHR 0x5C, CHR 0x5C] @ ''fs50}'' @ map ascii_upper target"

definition identify_script :: "snapshot option \<Rightarrow> string list \<Rightarrow> cli_step list" where
  "identify_script cached args =
     (if args \<noteq> [] \<and> \<not> is_selector (hd args) then [Abort IdentifyArgument]
      else case cached of
        None \<Rightarrow> [Abort NoSnapshot]
      | Some sn \<Rightarrow> map (\<lambda>t. Send (tr_name t)
          (setting_operation (ShowText (identify_text (tr_name t)) 4000))) (filter tr_online (sn_targets sn)))"

definition native_script :: "string list \<Rightarrow> cli_step list" where
  "native_script args =
     (case args of
        [] \<Rightarrow> [Abort MissingTargetArgument]
      | [_] \<Rightarrow> [Abort (MissingArgument ''allowed native command'')]
      | target # command # rest \<Rightarrow> [Send target (Mpv command (map JStr rest))])"

definition playlist_script :: "string list \<Rightarrow> cli_step list" where
  "playlist_script args =
     (case args of
        [] \<Rightarrow> [Abort MissingTargetArgument]
      | [target] \<Rightarrow> [Send target (playback_operation Playlist)]
      | target # item # _ \<Rightarrow>
          (case parse_unsigned (2 ^ 32 - 1) item of
             None \<Rightarrow> [Abort ItemNotNumber]
           | Some n \<Rightarrow> [Send target (playback_operation (PlaylistPlay (word_of_nat n)))]))"

text \<open>What a command reads besides its arguments: the cached snapshot, the answer to
  \<^verbatim>\<open>node_list_channels\<close>, and the prompt.\<close>

record cli_input =
  ci_snapshot :: "snapshot option"
  ci_catalog :: "(cli_error, string list) result"
  ci_prompt :: "(cli_error, bool) result"

definition command_script :: "cli_input \<Rightarrow> string \<Rightarrow> string list \<Rightarrow> cli_step list" where
  "command_script input command args =
     (if command = ''status'' then (if ci_snapshot input = None then [Abort NoSnapshot] else [])
      else if command = ''add'' then add_script (ci_catalog input) args
      else if command = ''remove'' then remove_script (ci_prompt input) args
      else if command = ''rename'' then rename_script (ci_prompt input) args
      else if command = ''identify'' then identify_script (ci_snapshot input) args
      else if command = ''mpv'' then native_script args
      else if List.member [''start'', ''stop'', ''restart'', ''enable'', ''disable''] command then
        lifecycle_script (ci_snapshot input) command args
      else if command = ''playlist'' then playlist_script args
      else if command = ''show-channels'' then
        (case ci_catalog input of Inl e \<Rightarrow> [Abort e] | Inr _ \<Rightarrow> [])
      else if List.member [''set-channel'', ''clear-channel''] command then
        channel_script (ci_catalog input) command args
      else if List.member [''play'', ''pause'', ''toggle-play'', ''loadfile'', ''append'', ''next'',
          ''previous'', ''mute'', ''unmute'', ''toggle-mute'', ''fullscreen'', ''loop'', ''repeat'',
          ''shuffle'', ''unshuffle'', ''cycle-audio'', ''cycle-subtitle'', ''toggle-subtitle''] command then
        mpv_action_script (ci_snapshot input) command args
      else [Abort (UnknownCommand command)])"


section \<open>Options are taken as written\<close>

lemma indices_none: "indices_of x i as = [] \<longleftrightarrow> x \<notin> set as"
  by (induction x i as rule: indices_of.induct) auto

lemma indices_hit:
  "indices_of x i as = k # ks \<Longrightarrow>
   \<exists>pre post. as = pre @ x # post \<and> x \<notin> set pre \<and> k = i + length pre \<and>
     ks = indices_of x (Suc k) post"
proof (induction x i as rule: indices_of.induct)
  case (2 x i a as)
  show ?case
  proof (cases "a = x")
    case True
    with 2 show ?thesis by (intro exI [of _ "[]"] exI [of _ as]) auto
  next
    case False
    with 2 obtain pre post where "as = pre @ x # post" "x \<notin> set pre" "k = Suc i + length pre"
        "ks = indices_of x (Suc k) post" by auto
    with False show ?thesis by (intro exI [of _ "a # pre"] exI [of _ post]) auto
  qed
qed simp

lemma indices_append:
  "x \<notin> set pre \<Longrightarrow> indices_of x i (pre @ x # post) = (i + length pre) # indices_of x (Suc (i + length pre)) post"
  by (induction pre arbitrary: i) auto

lemma take_option_present:
  assumes "option \<notin> set (pre @ x # post)" and "\<not> is_flag x"
  shows "take_option (pre @ option # x # post) option = Inr (Some x, pre @ post)"
proof -
  have "indices_of option (Suc (length pre)) (x # post) = []"
    using assms(1) by (auto simp: indices_none)
  then have "indices_of option 0 (pre @ option # x # post) = [length pre]"
    using assms(1) indices_append [of option pre 0 "x # post"] by simp
  then show ?thesis using assms(2) by (simp add: take_option_def is_flag_def nth_append)
qed

lemma take_option_found:
  assumes "take_option args option = Inr (Some x, rest)"
  shows "\<exists>pre post. args = pre @ option # x # post \<and> rest = pre @ post \<and>
    option \<notin> set (pre @ x # post) \<and> \<not> is_flag x"
proof -
  from assms obtain k where k: "indices_of option 0 args = [k]" "k + 1 < length args"
      "\<not> is_flag (args ! (k + 1))" "x = args ! (k + 1)" "rest = take k args @ drop (k + 2) args"
    by (auto simp: take_option_def is_flag_def split: list.splits if_splits)
  from indices_hit [OF k(1)] obtain pre post where
    a: "args = pre @ option # post" "option \<notin> set pre" "k = length pre"
      "indices_of option (Suc k) post = []" by auto
  then have post: "option \<notin> set post" by (metis indices_none)
  obtain y q where q: "post = y # q" using k(2) a(1,3) by (cases post) auto
  have "x = y" and "rest = pre @ q" using k(4,5) a(1,3) q by (simp_all add: nth_append)
  moreover have "\<not> is_flag y" using k(3) a(1,3) q by (simp add: nth_append)
  ultimately have "args = pre @ option # x # q \<and> rest = pre @ q \<and>
      option \<notin> set (pre @ x # q) \<and> \<not> is_flag x"
    using a(1,2) post q by simp
  then show ?thesis by blast
qed

text \<open>
  Taking an option out of the arguments removes exactly the option and its value: the
  option is absent, or it occurs once and is followed by a value that is no flag; every
  other argument keeps its place. In all other cases it is an error.
\<close>

lemma take_option_exact:
  "take_option args option = Inr (v, rest) \<longleftrightarrow>
   (case v of
      None \<Rightarrow> option \<notin> set args \<and> rest = args
    | Some x \<Rightarrow> (\<exists>pre post. args = pre @ option # x # post \<and> rest = pre @ post \<and>
        option \<notin> set (pre @ x # post) \<and> \<not> is_flag x))"
proof (cases v)
  case None
  have "take_option args option = Inr (None, rest) \<longleftrightarrow> indices_of option 0 args = [] \<and> rest = args"
    by (auto simp: take_option_def split: list.splits if_splits)
  then show ?thesis using None by (simp add: indices_none)
next
  case (Some x)
  show ?thesis
    unfolding Some option.case
  proof
    assume "\<exists>pre post. args = pre @ option # x # post \<and> rest = pre @ post \<and>
      option \<notin> set (pre @ x # post) \<and> \<not> is_flag x"
    then show "take_option args option = Inr (Some x, rest)"
      using take_option_present by (elim exE conjE) simp
  qed (rule take_option_found)
qed

section \<open>The options of add\<close>

text \<open>A well-formed option of \<^verbatim>\<open>add\<close>: a flag, or an option with a value that is no flag.\<close>

definition add_segment :: "string list \<Rightarrow> bool" where
  "add_segment s \<longleftrightarrow>
     s = [''--enable''] \<or> s = [''--start''] \<or>
     (\<exists>k v. (k = ''--from'' \<or> k = ''--channel'') \<and> s = [k, v] \<and> \<not> is_flag v)"

definition segment_value :: "string list list \<Rightarrow> string \<Rightarrow> string option" where
  "segment_value segs k = map_option (\<lambda>s. s ! 1) (find (\<lambda>s. hd s = k) segs)"

lemma check_add_segments:
  "check_add_options seen opts = Inr () \<longleftrightarrow>
   (\<exists>segs. opts = concat segs \<and> list_all add_segment segs \<and>
      distinct (map hd segs) \<and> seen \<inter> hd ` set segs = {})"
proof
  assume "check_add_options seen opts = Inr ()"
  then show "\<exists>segs. opts = concat segs \<and> list_all add_segment segs \<and>
      distinct (map hd segs) \<and> seen \<inter> hd ` set segs = {}"
  proof (induction seen opts rule: check_add_options.induct)
    case (1 seen)
    show ?case by (intro exI [of _ "[]"]) simp
  next
    case (2 seen k rest)
    show ?case
    proof (cases "takes_value k")
      case True
      with "2.prems" obtain v rest' where rest: "rest = v # rest'" "\<not> is_flag v" "k \<notin> seen"
          "check_add_options (insert k seen) rest' = Inr ()"
        by (cases rest) (auto split: if_splits)
      with "2.IH"(1) [OF _ _ True rest(1,2)] "2.prems" obtain segs where
        "rest' = concat segs" "list_all add_segment segs" "distinct (map hd segs)"
        "insert k seen \<inter> hd ` set segs = {}"
        by (auto split: if_splits)
      moreover have "add_segment [k, v]"
        using rest(2) True by (auto simp: add_segment_def takes_value_def)
      ultimately show ?thesis
        using rest by (intro exI [of _ "[k, v] # segs"]) auto
    next
      case False
      with "2.prems" have k: "k \<notin> seen" "List.member add_options k"
          "check_add_options (insert k seen) rest = Inr ()"
        by (auto split: if_splits)
      with "2.IH"(2) [OF _ _ False] obtain segs where
        "rest = concat segs" "list_all add_segment segs" "distinct (map hd segs)"
        "insert k seen \<inter> hd ` set segs = {}"
        by auto
      moreover have "add_segment [k]"
        using k(2) False by (auto simp: add_options_def add_segment_def takes_value_def)
      ultimately show ?thesis using k(1) by (intro exI [of _ "[k] # segs"]) auto
    qed
  qed
next
  assume "\<exists>segs. opts = concat segs \<and> list_all add_segment segs \<and>
      distinct (map hd segs) \<and> seen \<inter> hd ` set segs = {}"
  then obtain segs where "opts = concat segs" "list_all add_segment segs"
      "distinct (map hd segs)" "seen \<inter> hd ` set segs = {}" by blast
  then show "check_add_options seen opts = Inr ()"
  proof (induction segs arbitrary: opts seen)
    case (Cons s segs)
    then have "check_add_options (insert (hd s) seen) (concat segs) = Inr ()" by auto
    with Cons.prems show ?case
      by (auto simp: add_segment_def add_options_def takes_value_def)
  qed simp
qed

lemma segment_hd: "add_segment s \<Longrightarrow> s \<noteq> [] \<and> is_flag (hd s)"
  by (auto simp: add_segment_def is_flag_def starts_with_def)

text \<open>An option of a value is found where its segment is, and nowhere else.\<close>

lemma option_value_segments:
  assumes "list_all add_segment segs" and "takes_value k" and "\<not> is_flag name"
  shows "option_value (name # concat segs) k = Inr (segment_value segs k)"
proof -
  have flag: "is_flag k" using assms(2) by (auto simp: takes_value_def is_flag_def starts_with_def)
  have "case segment_value segs k of
      None \<Rightarrow> indices_of k i (concat segs) = []
    | Some v \<Rightarrow> \<exists>j js. indices_of k i (concat segs) = (i + j) # js \<and> j + 1 < length (concat segs) \<and>
        concat segs ! (j + 1) = v" for i
    using assms(1)
  proof (induction segs arbitrary: i)
    case (Cons s segs)
    from Cons.prems consider "s = [''--enable''] \<or> s = [''--start'']" |
      h v where "h = ''--from'' \<or> h = ''--channel''" "s = [h, v]" "\<not> is_flag v"
      by (auto simp: add_segment_def)
    then show ?case
    proof cases
      case 1
      then have "hd s \<noteq> k" "length s = 1" using assms(2) by (auto simp: takes_value_def)
      with Cons.IH [of "Suc i"] Cons.prems 1 show ?thesis
        by (auto simp: segment_value_def split: option.splits)
    next
      case 2
      then have v: "v \<noteq> k" using flag by auto
      show ?thesis
      proof (cases "h = k")
        case True
        with 2 have "segment_value (s # segs) k = Some v" by (simp add: segment_value_def)
        moreover have "indices_of k i (concat (s # segs)) = (i + 0) # indices_of k (Suc i) (v # concat segs)"
          using 2 True by simp
        ultimately show ?thesis
          using 2 by (simp only: option.case, intro exI [of _ 0]) simp
      next
        case False
        with 2 have "segment_value (s # segs) k = segment_value segs k"
          by (simp add: segment_value_def)
        moreover have "indices_of k i (concat (s # segs)) = indices_of k (Suc (Suc i)) (concat segs)"
          using 2 False v by simp
        moreover have "\<exists>j' js. (Suc (Suc i) + j) # ks = (i + j') # js \<and> j' + 1 < length (concat (s # segs)) \<and>
            concat (s # segs) ! (j' + 1) = u"
          if "j + 1 < length (concat segs)" "concat segs ! (j + 1) = u" for j ks u
          using that 2 by (intro exI [of _ "Suc (Suc j)"] exI [of _ ks]) simp
        ultimately show ?thesis
          using Cons.IH [of "Suc (Suc i)"] Cons.prems by (auto split: option.splits)
      qed
    qed
  qed (simp add: segment_value_def)
  from this [of 1] show ?thesis
    using assms(3) flag by (auto simp: option_value_def split: option.splits)
qed

text \<open>
  The arguments of \<^verbatim>\<open>add\<close> are accepted exactly when they are a target followed by
  well-formed options in any order, none twice; and for accepted arguments the values that
  \<^verbatim>\<open>add_target\<close> looks up are the values of these options.
\<close>

lemma add_arguments_parse:
  assumes "\<not> is_flag name"
  shows "validate_add_args (name # opts) = Inr () \<longleftrightarrow>
    (\<exists>segs. opts = concat segs \<and> list_all add_segment segs \<and> distinct (map hd segs) \<and>
       option_value (name # opts) ''--from'' = Inr (segment_value segs ''--from'') \<and>
       option_value (name # opts) ''--channel'' = Inr (segment_value segs ''--channel''))"
proof -
  have "option_value (name # concat segs) k = Inr (segment_value segs k)"
    if "list_all add_segment segs" "k = ''--from'' \<or> k = ''--channel''" for segs k
    using that by (intro option_value_segments [OF _ _ assms]) (auto simp: takes_value_def)
  then show ?thesis
    unfolding validate_add_args_def by (auto simp: check_add_segments)
qed


end
