(* ===== verification/Commands.thy ===== *)
theory Commands
  imports Cli
begin

text \<open>
  What the commands of the command line send: an accepted command line never reaches one of
  the arms that cannot happen, its requests pass the daemon's own check, and a channel taken
  from the catalog is one the daemon knows.
\<close>

section \<open>Accepted commands\<close>

text \<open>A step that is no panic and no unknown command; and one whose request, if it is one,
  the daemon accepts.\<close>

fun known_error :: "cli_error \<Rightarrow> bool" where
  "known_error (UnknownCommand c) = False"
| "known_error _ = True"

fun step_runs :: "cli_step \<Rightarrow> bool" where
  "step_runs (Send t op) = True"
| "step_runs (Abort e) = known_error e"
| "step_runs Crash = False"

fun step_ok :: "cli_step \<Rightarrow> bool" where
  "step_ok (Send t op) = (validate_operation op = Inr ())"
| "step_ok s = step_runs s"

lemma step_ok_runs: "step_ok s \<Longrightarrow> step_runs s"
  by (cases s) auto

lemma list_ok_runs: "list_all step_ok ss \<Longrightarrow> list_all step_runs ss"
  by (auto simp: list_all_iff step_ok_runs)

lemma player_steps_ok [simp]:
  "step_ok (Send t (playback_operation p))" "step_ok (Send t (setting_operation s))"
  by (simp_all add: player_operations_accepted)

definition lifecycle_actions :: "string list" where
  "lifecycle_actions = [''start'', ''stop'', ''restart'', ''enable'', ''disable'']"

definition player_actions :: "string list" where
  "player_actions =
     [''play'', ''pause'', ''toggle-play'', ''loadfile'', ''append'', ''next'',
      ''previous'', ''mute'', ''unmute'', ''toggle-mute'', ''fullscreen'', ''loop'', ''repeat'',
      ''shuffle'', ''unshuffle'', ''cycle-audio'', ''cycle-subtitle'', ''toggle-subtitle'']"

lemma load_step_ok: "1 < length args \<Longrightarrow> step_ok (load_step target args mode)"
  using player_steps_ok(1) [of target "Load (args ! 1) mode"]
  by (simp add: load_step_def del: step_ok.simps playback_operation.simps)

lemma mpv_action_step_ok:
  assumes "command \<in> set player_actions"
    and "command = ''loadfile'' \<or> command = ''append'' \<Longrightarrow> 1 < length args"
  shows "step_ok (mpv_action_step sn bulk all_paused command args target)"
  using assms
  unfolding player_actions_def list.set insert_iff empty_iff
  by (elim disjE; simp add: mpv_action_step_def load_step_ok Let_def
      del: step_ok.simps playback_operation.simps setting_operation.simps)

lemma mpv_action_script_ok:
  assumes "command \<in> set player_actions"
    and "command = ''loadfile'' \<or> command = ''append'' \<Longrightarrow> 1 < length args"
  shows "list_all step_ok (mpv_action_script cached command args)"
  using mpv_action_step_ok [OF assms]
  by (cases args; cases cached) (simp_all add: mpv_action_script_def Let_def list_all_iff)

lemma lifecycle_script_ok:
  assumes "command \<in> set lifecycle_actions"
  shows "list_all step_ok (lifecycle_script cached command args)"
proof -
  have "step_ok (send_service t (lifecycle_call command))" for t
    using assms by (auto simp: lifecycle_actions_def lifecycle_call_def send_service_def)
  moreover have "step_ok (send_service t (Some CallStart))" for t
    by (simp add: send_service_def)
  ultimately show ?thesis
    by (auto simp: lifecycle_script_def Let_def list_all_iff split: option.splits)
qed

lemma confirmed_runs: "step_runs s \<Longrightarrow> (\<And>e. ask = Inl e \<Longrightarrow> step_runs (Abort e)) \<Longrightarrow>
   list_all step_runs (confirmed_step ask args s)"
  by (auto simp: confirmed_step_def split: sum.splits)

lemma two_arguments: "exact [[''<target>'', ''<source>'']] args \<Longrightarrow> 1 < length args"
  by (cases args; cases "tl args") (auto simp: exact_def)


text \<open>What the environment answers: the catalog fails with a failure of its request, the prompt
  only for want of a terminal.\<close>

definition environment_errors :: "cli_input \<Rightarrow> bool" where
  "environment_errors input \<longleftrightarrow>
     (case ci_catalog input of Inl (Request e) \<Rightarrow> True | Inl _ \<Rightarrow> False | Inr _ \<Rightarrow> True) \<and>
     (case ci_prompt input of Inl e \<Rightarrow> e = NeedsConfirmation | Inr _ \<Rightarrow> True)"

lemma environment_catalog:
  "environment_errors input \<Longrightarrow> ci_catalog input = Inl e \<Longrightarrow> known_error e"
  by (auto simp: environment_errors_def split: cli_error.splits)

lemma environment_prompt:
  "environment_errors input \<Longrightarrow> ci_prompt input = Inl e \<Longrightarrow> known_error e"
  by (auto simp: environment_errors_def)

lemma resolve_channel_known:
  assumes "\<And>e. catalog = Inl e \<Longrightarrow> known_error e" and "resolve_channel catalog value = Inl e"
  shows "known_error e"
  using assms
  by (auto simp: resolve_channel_def try_result_def ok_or_def
      split: if_splits sum.splits option.splits)

lemma option_value_known: "option_value args k = Inl e \<Longrightarrow> known_error e"
  by (auto simp: option_value_def split: list.splits if_splits)

lemma channel_script_runs:
  assumes "\<And>e. catalog = Inl e \<Longrightarrow> known_error e"
  shows "list_all step_runs (channel_script catalog command args)"
proof -
  have "resolve_channel catalog x = Inl e \<Longrightarrow> known_error e" for x e
    by (rule resolve_channel_known [OF assms])
  then show ?thesis
    by (auto simp: channel_script_def Let_def try_result_def split: list.splits sum.splits)
qed

lemma add_script_runs:
  assumes "\<And>e. catalog = Inl e \<Longrightarrow> known_error e"
  shows "list_all step_runs (add_script catalog args)"
proof -
  have "resolve_channel catalog x = Inl e \<Longrightarrow> known_error e" for x e
    by (rule resolve_channel_known [OF assms])
  then show ?thesis
    using option_value_known [of args]
    by (auto simp: add_script_def Let_def split: list.splits sum.splits option.splits)
qed

lemma identify_script_ok: "list_all step_ok (identify_script cached args)"
  by (cases cached) (auto simp: identify_script_def list_all_iff
      simp del: step_ok.simps(1) setting_operation.simps)

lemma playlist_script_ok: "list_all step_ok (playlist_script args)"
  by (auto simp: playlist_script_def simp del: step_ok.simps(1) playback_operation.simps
      split: list.splits option.splits)

definition unchecked_commands :: "string list" where
  "unchecked_commands = [''add'', ''rename'', ''set-channel'', ''mpv'']"

definition plain_actions :: "string list" where
  "plain_actions = [''status'', ''remove'', ''show-channels'', ''playlist'', ''identify'']"

lemma command_form_names:
  assumes "command_form command args \<noteq> None"
  shows "command \<in> set lifecycle_actions \<or> command \<in> set player_actions \<or>
    command \<in> set plain_actions \<or> command \<in> set unchecked_commands \<or> command = ''clear-channel''"
proof (rule ccontr)
  assume "\<not> ?thesis"
  then have "command_form command args = None"
    unfolding lifecycle_actions_def player_actions_def plain_actions_def unchecked_commands_def
      list.set insert_iff empty_iff de_Morgan_disj
    by (elim conjE) (simp add: command_form_def)
  with assms show False by simp
qed

lemma checked_commands_ok:
  assumes "command_form command args = Some True" and "\<not> List.member unchecked_commands command"
    and "command \<noteq> ''clear-channel''" and "environment_errors input"
  shows "list_all step_ok (command_script input command args)"
proof -
  consider "command \<in> set lifecycle_actions" | "command \<in> set player_actions" |
    "command \<in> set plain_actions"
    using assms(1-3) command_form_names [of command args] by auto
  then show ?thesis
  proof cases
    case 1
    then have "command_script input command args = lifecycle_script (ci_snapshot input) command args"
      unfolding lifecycle_actions_def list.set insert_iff empty_iff
      by (elim disjE; simp add: command_script_def)
    with lifecycle_script_ok [OF 1] show ?thesis by simp
  next
    case 2
    then have "command_script input command args = mpv_action_script (ci_snapshot input) command args"
      unfolding player_actions_def list.set insert_iff empty_iff
      by (elim disjE; simp add: command_script_def)
    moreover have "1 < length args" if "command = ''loadfile'' \<or> command = ''append''"
      using that assms(1) two_arguments by (elim disjE; simp add: command_form_def)
    ultimately show ?thesis using mpv_action_script_ok [OF 2] by simp
  next
    case 3
    have "list_all step_ok (confirmed_step (ci_prompt input) args (Send t (service_operation CallRemove)))" for t
      using environment_prompt [OF assms(4)] by (auto simp: confirmed_step_def split: sum.splits)
    then have "list_all step_ok (remove_script (ci_prompt input) args)"
      by (auto simp: remove_script_def simp del: service_operation.simps split: list.splits)
    with 3 show ?thesis
      using playlist_script_ok identify_script_ok environment_catalog [OF assms(4)]
      unfolding plain_actions_def list.set insert_iff empty_iff
      by (elim disjE; simp add: command_script_def split: sum.splits)
  qed
qed

lemma clear_channel_ok: "list_all step_ok (channel_script catalog ''clear-channel'' args)"
  by (auto simp: channel_script_def Let_def split: list.splits)

lemma unchecked_commands_run:
  assumes "validate_command_args command args = Inr ()" and "List.member unchecked_commands command"
    and "environment_errors input"
  shows "list_all step_runs (command_script input command args)"
proof -
  consider "command = ''add''" | "command = ''rename''" | "command = ''set-channel''" | "command = ''mpv''"
    using assms(2) by (auto simp: unchecked_commands_def)
  then show ?thesis
  proof cases
    case 1
    then show ?thesis
      using add_script_runs environment_catalog [OF assms(3)] by (simp add: command_script_def)
  next
    case 2
    then show ?thesis
      using environment_prompt [OF assms(3)]
      by (auto simp: command_script_def rename_script_def intro!: confirmed_runs split: list.splits)
  next
    case 3
    then show ?thesis
      using channel_script_runs environment_catalog [OF assms(3)] by (simp add: command_script_def)
  next
    case 4
    then show ?thesis by (auto simp: command_script_def native_script_def split: list.splits)
  qed
qed

text \<open>
  An accepted command runs: it reaches no arm of the dispatch that cannot happen (no
  index out of range, no unreachable branch, no unknown command), and, unless its operation
  carries a name, a channel or a native command of the user, every request that it sends
  passes the check that the daemon makes.
\<close>

lemma accepted_commands_run:
  assumes "validate_command_args command args = Inr ()" and "environment_errors input"
  shows "list_all step_runs (command_script input command args) \<and>
    (\<not> List.member unchecked_commands command \<longrightarrow>
       list_all step_ok (command_script input command args))"
proof (cases "List.member unchecked_commands command")
  case True
  then show ?thesis using unchecked_commands_run [OF assms(1) True assms(2)] by simp
next
  case False
  then have form: "command_form command args = Some True"
    using assms(1) by (auto simp: validate_command_args_def unchecked_commands_def
        split: option.splits if_splits)
  have "list_all step_ok (command_script input command args)"
  proof (cases "command = ''clear-channel''")
    case True
    then show ?thesis using clear_channel_ok by (simp add: command_script_def)
  qed (rule checked_commands_ok [OF form False _ assms(2)])
  then show ?thesis using list_ok_runs by blast
qed

lemma accepted_commands_run_witness:
  "list_all step_ok
     (command_script \<lparr>ci_snapshot = None, ci_catalog = Inr [], ci_prompt = Inr True\<rparr>
        ''remove'' [''screen''])"
proof -
  have "validate_command_args ''remove'' [''screen''] = Inr ()"
    by (simp add: validate_command_args_def command_form_def exact_def is_flag_def starts_with_def)
  from accepted_commands_run [OF this, of "\<lparr>ci_snapshot = None, ci_catalog = Inr [], ci_prompt = Inr True\<rparr>"]
  show ?thesis by (simp add: environment_errors_def unchecked_commands_def)
qed

section \<open>Channels from the catalog\<close>

lemma starts_with_member: "starts_with s p \<Longrightarrow> set p \<subseteq> set s"
  by (metis starts_with_def set_take_subset)

lemma contains_str_member: "contains_str s p \<Longrightarrow> set p \<subseteq> set s"
proof (induction s p rule: contains_str.induct)
  case (2 c s p)
  then show ?case using starts_with_member [of "c # s" p] by auto
qed simp

lemma number_plain: "\<not> contains_str (show_nat n) ''://'' \<and> \<not> is_absolute (show_nat n)"
proof -
  have digits: "\<forall>c \<in> set (show_nat n). is_ascii_digit c"
    using show_nat_decimal by (simp add: list_all_iff)
  then have "CHR ''/'' \<notin> set (show_nat n)" by (auto dest: digits_plain)
  then show ?thesis
    using contains_str_member [of "show_nat n" "''://''"] starts_with_member [of "show_nat n" "''/''"]
    by (auto simp: is_absolute_def)
qed

lemma channel_files_valid:
  assumes "c \<in> set (channel_files pt entries)"
  shows "valid_channel c"
proof -
  from assms obtain p where c: "c = display_path p" "is_channel_path c"
    by (auto simp: channel_files_def)
  then have "p \<noteq> []"
    by (auto simp: is_channel_path_def display_path_def extension_def file_name_def
        path_components_def is_absolute_def starts_with_def List.map_filter_def body_component_def)
  then have "c \<noteq> []" "is_absolute c"
    using c(1) by (cases p; auto simp: display_path_def is_absolute_def starts_with_def)+
  with c(2) show ?thesis by (simp add: valid_channel_def is_channel_path_def)
qed

text \<open>
  A channel of the command line that is not given as an absolute path resolves, over the
  daemon's catalog, to a channel that the daemon accepts; and the number that
  \<^verbatim>\<open>show-channels\<close> prints before an entry selects this entry.
\<close>

lemma catalog_channel_accepted:
  assumes "contains_str value ''://'' \<or> \<not> is_absolute value" and "i < 2 ^ 64 - 1"
  shows "(\<forall>c. resolve_channel (Inr (channel_files pt entries)) value = Inr c \<longrightarrow>
      validate_operation (service_operation (CallSetChannel (Some c) restart_too)) = Inr ()) \<and>
    resolve_channel (Inr (channel_files pt entries)) (show_nat (Suc i)) =
      (if i < length (channel_files pt entries) then Inr (channel_files pt entries ! i)
       else Inl (ChannelNumberUnknown (Suc i)))"
proof (intro conjI allI impI)
  fix c
  assume c: "resolve_channel (Inr (channel_files pt entries)) value = Inr c"
  have "valid_channel c"
  proof (cases "contains_str value ''://''")
    case True
    with c show ?thesis by (auto simp: resolve_channel_def valid_channel_def)
  next
    case False
    with c assms(1) have "c \<in> set (channel_files pt entries)"
      by (auto simp: resolve_channel_def try_result_def ok_or_def find_Some_iff
          split: option.splits if_splits)
    then show ?thesis by (rule channel_files_valid)
  qed
  then show "validate_operation (service_operation (CallSetChannel (Some c) restart_too)) = Inr ()"
    by simp
next
  have "parse_unsigned (2 ^ 64 - 1) (show_nat (Suc i)) = Some (Suc i)"
    using assms(2) by (intro parse_show) simp
  then show "resolve_channel (Inr (channel_files pt entries)) (show_nat (Suc i)) =
      (if i < length (channel_files pt entries) then Inr (channel_files pt entries ! i)
       else Inl (ChannelNumberUnknown (Suc i)))"
    using number_plain [of "Suc i"] by (simp add: resolve_channel_def try_result_def)
qed

definition demo_channels :: "dir_entry list" where
  "demo_channels = [DirEntry ''news.m3u'' True, DirEntry ''notes.txt'' True]"

lemma catalog_channel_accepted_witness:
  "resolve_channel (Inr (channel_files demo_paths demo_channels)) ''1'' =
     Inr ''/etc/channels/news.m3u''"
proof -
  have files: "channel_files demo_paths demo_channels = [''/etc/channels/news.m3u'']"
    by code_simp
  have "(0::nat) < 2 ^ 64 - 1" by simp
  moreover have "\<not> is_absolute ''news.m3u''" and "show_nat (Suc 0) = ''1''" by code_simp+
  ultimately show ?thesis
    using catalog_channel_accepted [of "''news.m3u''" 0 demo_paths demo_channels] files by simp
qed


section \<open>Further witnesses\<close>

lemma add_arguments_parse_witness:
  "validate_add_args [''kitchen'', ''--start'', ''--from'', ''tv''] = Inr () \<and>
   \<not> validate_add_args [''kitchen'', ''--from''] = Inr ()"
proof -
  let ?segs = "[[''--start''], [''--from'', ''tv'']]"
  have name: "\<not> is_flag ''kitchen''" by code_simp
  have segs: "list_all add_segment ?segs" "distinct (map hd ?segs)"
    by (simp_all add: add_segment_def is_flag_def starts_with_def)
  have looked_up: "option_value (''kitchen'' # concat ?segs) ''--from'' = Inr (segment_value ?segs ''--from'')"
    "option_value (''kitchen'' # concat ?segs) ''--channel'' = Inr (segment_value ?segs ''--channel'')"
    by code_simp+
  have "validate_add_args (''kitchen'' # concat ?segs) = Inr ()"
    by (rule iffD2 [OF add_arguments_parse [OF name]], intro exI [of _ ?segs] conjI refl segs looked_up)
  then have "validate_add_args [''kitchen'', ''--start'', ''--from'', ''tv''] = Inr ()" by simp
  moreover have "\<not> validate_add_args [''kitchen'', ''--from''] = Inr ()" by code_simp
  ultimately show ?thesis by blast
qed


end
