(* ===== verification/Redeploy.thy ===== *)
theory Redeploy
  imports DeployTree Commands
begin

text \<open>
  What a run of \<^verbatim>\<open>deploy-targets\<close> checks before it removes an existing configuration, and
  what it checks too late.
\<close>

section \<open>When an existing configuration is removed\<close>

definition removes_dir :: "path \<Rightarrow> deploy_step \<Rightarrow> bool" where
  "removes_dir q s \<longleftrightarrow> (case s of Perform (File (RemoveDirAll p)) err cs \<Rightarrow> p = q | _ \<Rightarrow> False)"

lemma removes_dir_simps [simp]:
  "removes_dir q (Check r) = False"
  "removes_dir q (Perform (SetMode p m) err cs) = False"
  "removes_dir q (Perform (Systemctl a) err cs) = False"
  "removes_dir q (Perform (File (RemoveDirAll p)) err cs) = (p = q)"
  "removes_dir q (Perform (File (CreateNew p)) err cs) = False"
  "removes_dir q (Perform (File (CreateDirAll p)) err cs) = False"
  "removes_dir q (Perform (File (WriteOpen p c)) err cs) = False"
  "removes_dir q (Perform (File (SyncFile p)) err cs) = False"
  "removes_dir q (Perform (File (RenamePath a b)) err cs) = False"
  by (simp_all add: removes_dir_def)

lemma atomic_write_removes [simp]: "\<not> list_ex (removes_dir q) (atomic_write pid p c m)"
  by (simp add: atomic_write_def Let_def split: option.splits)

lemma write_target_removes: "\<not> list_ex (removes_dir q) (concat (map (write_target pid p) cfgs))"
  by (induction cfgs) (simp_all add: write_target_def Let_def make_dirs_def)

lemma apply_at_removes: "\<not> list_ex (removes_dir q) (apply_at pid to_toml p unit_path daemon_path logs helper)"
  using write_target_removes
  by (simp add: apply_at_def Let_def make_tree_def make_parent_def make_dirs_def install_unit_def
      install_service_def show_status_def split: option.splits)

lemma apply_steps_removes: "\<not> list_ex (removes_dir q) (apply_steps x p)"
  using apply_at_removes
  by (auto simp: apply_steps_def apply_plan_def try_result_def split: sum.splits)

text \<open>
  C21. A run removes a directory only if it is the configuration directory, is an existing
  directory and no symbolic link, \<^verbatim>\<open>--overwrite\<close> was given, the user confirmed at a
  terminal, and everything the run reads was found in order before: the answer passed its
  check, the daemon's binary was read, and the plan was built.
\<close>

theorem overwrite_is_confirmed:
  assumes "run_deploy x = Inr steps" and "list_ex (removes_dir q) steps"
  shows "config_root (di_vars x) = Inr q \<and> di_exists x q \<and> di_kind x q = Directory \<and>
    (\<exists>a. di_arguments x = [''--overwrite'', a]) \<and>
    di_terminal x \<and> (\<exists>s. di_response x = Inr s \<and> trim_spaces s \<in> {''y'', ''Y''}) \<and>
    (\<exists>given_answer path binary p. validate_answer given_answer = Inr () \<and> load_daemon_binary x = Inr binary \<and>
       build_plan (di_build x) given_answer path q binary = Inr p)"
proof -
  obtain given overwrite where args: "parse_arguments (di_arguments x) = Inr (DeployAnswer given overwrite)"
    using assms by (auto simp: run_deploy_def try_result_def split: sum.splits deploy_arguments.splits)
  obtain answer_path src given_answer base where
    reads: "di_canonical x given = Inr answer_path" "read_input (di_build x) answer_path = Inr src"
      "parse_answer (di_from_toml x) src = Inr given_answer" "config_root (di_vars x) = Inr base"
    using assms(1) args
    by (auto simp: run_deploy_def try_result_def map_err_def split: sum.splits)
  have valid: "validate_answer given_answer = Inr ()"
    using reads(3) by (auto simp: parse_answer_def try_result_def split: sum.splits)
  note rest = assms(1) [unfolded run_deploy_def args reads try_result_def map_err_def, simplified]
  obtain binary p where built: "load_daemon_binary x = Inr binary"
      "build_plan (di_build x) given_answer answer_path base binary = Inr p"
    using rest by (auto simp: Let_def reads split: sum.splits if_splits)
  have exists: "di_exists x base" and confirmed: "confirm_overwrite x = Inr ()" and overwrite
    and steps: "steps = remove_existing_root (di_kind x base) base @ apply_steps x p"
    using rest built assms(2) apply_steps_removes
    by (auto simp: Let_def reads split: sum.splits if_splits)
  have "di_kind x base = Directory \<and> q = base"
    using assms(2) apply_steps_removes unfolding steps
    by (auto simp: remove_existing_root_def split: root_kind.splits)
  moreover have "\<exists>a. di_arguments x = [''--overwrite'', a]"
    using args \<open>overwrite\<close> by (auto simp: parse_arguments_def split: list.splits if_splits)
  moreover have "di_terminal x \<and> (\<exists>s. di_response x = Inr s \<and> trim_spaces s \<in> {''y'', ''Y''})"
    using confirmed by (auto simp: confirm_overwrite_def try_result_def map_err_def
        split: if_splits sum.splits)
  ultimately show ?thesis using reads(4) exists valid built by blast
qed

section \<open>What is checked too late\<close>

lemma removal_steps:
  assumes "run_deploy x = Inr steps" and "list_ex (removes_dir q) steps"
  shows "\<exists>p. steps = Perform (File (RemoveDirAll q)) (OutputFile q) [] # apply_steps x p"
proof -
  obtain base p where steps: "steps = remove_existing_root (di_kind x base) base @ apply_steps x p"
    using assms apply_steps_removes
    by (auto simp: run_deploy_def try_result_def Let_def
        split: sum.splits deploy_arguments.splits if_splits)
  then show ?thesis
    using assms(2) apply_steps_removes
    by (auto simp: remove_existing_root_def split: root_kind.splits)
qed

text \<open>
  C34. A confirmed overwrite without a home directory loses the old deployment and writes no
  new one: \<^verbatim>\<open>HOME\<close> is only asked for after the existing configuration has been removed.
\<close>

theorem overwrite_without_home:
  assumes "run_deploy x = Inr steps" and "list_ex (removes_dir q) steps"
    and "dv_home (di_vars x) = None" and "da_did env n = Inr ()"
  shows "\<exists>d'. perform env n steps d = (Inl MissingHome, [d, d']) \<and>
    dk_files d' = (\<lambda>p. if below q p then None else dk_files d p)"
proof -
  obtain p where "steps = Perform (File (RemoveDirAll q)) (OutputFile q) [] # apply_steps x p"
    using removal_steps [OF assms(1,2)] by blast
  moreover have "apply_steps x p = [Check (Inl MissingHome)]"
    using assms(3) by (simp add: apply_steps_def apply_plan_def user_daemon_path_def try_result_def ok_or_def)
  ultimately show ?thesis using assms(4) by simp
qed

section \<open>Witnesses\<close>

definition demo_answer_file :: answer_file where
  "demo_answer_file =
     \<lparr>af_host_profile = generic_host_profile, af_node = dc_node demo_config,
      af_tls = \<lparr>al_generate_self_signed = True, al_certificate = None, al_private_key = None\<rparr>,
      af_install = False, af_targets = [default_answer_target ''tv'']\<rparr>"

definition demo_tls :: "unit tls_library" where
  "demo_tls =
     \<lparr>tl_certs = (\<lambda>c. Inr [c]), tl_private_key = (\<lambda>k. Inr (Some k)), tl_single_cert = (\<lambda>cs k. Inr ())\<rparr>"

definition demo_build :: "unit build_env" where
  "demo_build =
     \<lparr>be_read = (\<lambda>p. Inr ''data''), be_generate = (\<lambda>names. Inr (''certificate'', ''key'')),
      be_tls = demo_tls, be_show_volume = (\<lambda>v. ''100'')\<rparr>"

definition demo_input :: "unit deploy_input" where
  "demo_input =
     \<lparr>di_arguments = [''--overwrite'', ''/answer.toml''],
      di_canonical = (\<lambda>a. Inr (normal_segments a)), di_from_toml = (\<lambda>s. Inr demo_answer_file),
      di_to_toml = (\<lambda>c. Inr ()),
      di_vars = \<lparr>dv_home = None, dv_config_home = Some ''/etc'', dv_state_home = None\<rparr>,
      di_exists = (\<lambda>p. True), di_kind = (\<lambda>p. Directory),
      di_executable = Inr [''opt'', ''deploy-targets''], di_is_file = (\<lambda>p. True),
      di_build = demo_build, di_terminal = True, di_response = Inr (''y'' @ [newline]), di_pid = 7\<rparr>"

definition demo_root :: path where
  "demo_root = [''etc'', ''mpv-targets'']"

lemma demo_answer_valid: "validate_answer demo_answer_file = Inr ()"
proof -
  have "nc_id (dc_node demo_config) \<noteq> []" and "parse_socket_addr (nc_listen (dc_node demo_config)) \<noteq> None"
    using demo_valid by (auto simp: validate_config_iff good_header_def)
  moreover have "validate_target_name ''tv'' = Inr ()" by (rule demo_names)
  ultimately show ?thesis
    by (simp add: validate_answer_iff demo_answer_file_def generic_host_profile_def tls_choice_ok_def
        good_answer_target_def default_answer_target_def)
qed

definition demo_plan :: plan where
  "demo_plan =
     \<lparr>pl_host_profile = Generic, pl_install_service = False, pl_config = planned_config demo_answer_file,
      pl_config_root = demo_root,
      pl_target_configs = [(''tv'', base_mpv_conf True True ''100'')],
      pl_certificate = ''certificate'', pl_private_key = ''key'', pl_daemon_binary = ''data''\<rparr>"

lemma demo_plan_built:
  "build_plan demo_build demo_answer_file path demo_root ''data'' = Inr demo_plan"
  using planned_config_valid [OF demo_answer_valid]
  by (simp add: build_plan_def demo_plan_def key_material_def certificate_pair_def
      generate_certificate_def server_tls_config_def demo_build_def demo_tls_def demo_answer_file_def
      parse_host_profile_def generic_host_profile_def default_answer_target_def generated_mpv_conf_def)

lemma plan_of_valid_answer_witness:
  "validate_config (pl_config demo_plan) = Inr ()"
  using plan_of_valid_answer [OF demo_answer_valid, where env = demo_build and dest = demo_root
      and daemon_binary = "''data''"]
  by (simp add: demo_plan_built)

lemma demo_layout: "layout_ok 7 demo_root [''u'', ''x.service''] [''b'', ''mpv-targetsd''] [''b'', ''helper'']"
  by code_simp

definition demo_deploy_answers :: deploy_answers where
  "demo_deploy_answers =
     \<lparr>da_did = (\<lambda>n. Inr ()), da_cleaned = (\<lambda>n. Inr ()), da_garbage = (\<lambda>n q. None)\<rparr>"

definition demo_disk :: disk where
  "demo_disk = \<lparr>dk_files = (\<lambda>q. None), dk_modes = (\<lambda>q. None)\<rparr>"

definition demo_steps :: "deploy_step list" where
  "demo_steps = apply_at 7 (\<lambda>c. Inr ()) demo_plan [''u'', ''x.service''] [''b'', ''mpv-targetsd'']
     [''logs''] [''b'', ''helper'']"

definition all_succeed :: "deploy_step \<Rightarrow> bool" where
  "all_succeed s \<longleftrightarrow> (case s of Check (Inl e) \<Rightarrow> False | _ \<Rightarrow> True)"

lemma perform_succeeds:
  "list_all all_succeed steps \<Longrightarrow> (\<And>n. da_did env n = Inr ()) \<Longrightarrow> fst (perform env n steps d) = Inr ()"
  by (induction env n steps d rule: perform.induct)
    (auto simp: all_succeed_def Let_def split: sum.splits prod.splits)

lemma atomic_write_succeeds: "list_all all_succeed (atomic_write pid p c m)"
  by (simp add: atomic_write_def Let_def all_succeed_def split: option.splits)

lemma demo_steps_succeed: "list_all all_succeed demo_steps"
  using atomic_write_succeeds
  by (simp add: demo_steps_def apply_at_def Let_def make_tree_def make_parent_def make_dirs_def
      install_unit_def write_target_def demo_plan_def parent_def all_succeed_def)

lemma demo_run: "perform demo_deploy_answers 0 demo_steps demo_disk =
    (Inr (), snd (perform demo_deploy_answers 0 demo_steps demo_disk))"
  using perform_succeeds [OF demo_steps_succeed, of demo_deploy_answers 0 demo_disk]
  by (simp add: demo_deploy_answers_def prod_eq_iff)


lemma key_exposed_in_temporary_witness:
  "\<exists>d' \<in> set (snd (perform demo_deploy_answers 0 demo_steps demo_disk)).
     held d' [''etc'', ''mpv-targets'', ''tls'', ''server.tmp-7''] = (Some (Bytes ''key''), None)"
proof -
  have "write_temporary 7 (path_join (pl_config_root demo_plan) ''tls/server.key'') =
      [''etc'', ''mpv-targets'', ''tls'', ''server.tmp-7'']"
    by code_simp
  then show ?thesis
    using key_exposed_in_temporary [OF demo_run [unfolded demo_steps_def]]
    by (simp add: demo_steps_def demo_plan_def)
qed

lemma demo_read: "be_read demo_build p = Inr ''data''"
  by (simp add: demo_build_def)

lemma demo_redeploy:
  "run_deploy demo_input = Inr (Perform (File (RemoveDirAll demo_root)) (OutputFile demo_root) []
     # apply_steps demo_input demo_plan)"
proof -
  have c: "config_root (di_vars demo_input) = Inr demo_root"
    by code_simp
  have y: "trim_spaces (''y'' @ [newline]) = ''y''" by code_simp
  have b: "load_daemon_binary demo_input = Inr ''data''"
    by (simp add: load_daemon_binary_def demo_input_def parent_def Let_def read_input_def demo_read)
  have r: "parse_arguments (di_arguments demo_input) = Inr (DeployAnswer ''/answer.toml'' True)"
    by code_simp
  show ?thesis
    unfolding run_deploy_def r c b
    using demo_answer_valid demo_plan_built y
    by (simp add: demo_input_def parse_answer_def read_input_def demo_read confirm_overwrite_def
        remove_existing_root_def)
qed

lemma overwrite_is_confirmed_witness:
  "di_kind demo_input demo_root = Directory \<and> (\<exists>s. di_response demo_input = Inr s \<and> trim_spaces s \<in> {''y'', ''Y''})"
  using overwrite_is_confirmed [OF demo_redeploy, of demo_root] by simp

lemma overwrite_without_home_witness:
  "\<exists>steps d'. run_deploy demo_input = Inr steps \<and>
     perform demo_deploy_answers 0 steps demo_disk = (Inl MissingHome, [demo_disk, d'])"
proof -
  have "dv_home (di_vars demo_input) = None" and "da_did demo_deploy_answers 0 = Inr ()"
    by (simp_all add: demo_input_def demo_deploy_answers_def)
  then show ?thesis
    using overwrite_without_home [OF demo_redeploy, of demo_root demo_deploy_answers 0 demo_disk]
      demo_redeploy by auto
qed

end
