(* ===== verification/Wire.thy ===== *)
theory Wire
  imports Server
begin

text \<open>
  The wire form of requests and responses, as \<^verbatim>\<open>serde\<close> derives it from the attributes in
  \<^verbatim>\<open>crates/mpv-targets/src/protocol.rs\<close>: tagged enums in snake case, options that are
  left out or written as null, defaults for fields that are missing. Values are read from
  JSON objects, which is how both sides write them; unknown fields are ignored.
\<close>

section \<open>Fields\<close>

definition string_field :: "json \<Rightarrow> string \<Rightarrow> string option" where
  "string_field j k = Option.bind (json_get j k) as_str"

definition bool_field :: "json \<Rightarrow> string \<Rightarrow> bool option" where
  "bool_field j k = Option.bind (json_get j k) as_bool"

text \<open>An \<^verbatim>\<open>Option\<close> may be missing or null.\<close>

definition option_field :: "json \<Rightarrow> string \<Rightarrow> string option option" where
  "option_field j k =
     (case json_get j k of
        None \<Rightarrow> Some None
      | Some v \<Rightarrow> if is_null v then Some None else map_option Some (as_str v))"

text \<open>\<^verbatim>\<open>#[serde(default = "default_true")]\<close>.\<close>

definition true_field :: "json \<Rightarrow> string \<Rightarrow> bool option" where
  "true_field j k = (case json_get j k of None \<Rightarrow> Some True | Some v \<Rightarrow> as_bool v)"

definition array_field :: "json \<Rightarrow> string \<Rightarrow> json list option" where
  "array_field j k = (case json_get j k of None \<Rightarrow> Some [] | Some v \<Rightarrow> as_array v)"

text \<open>\<^verbatim>\<open>skip_serializing_if = "is_true"\<close> and \<^verbatim>\<open>"Option::is_none"\<close>.\<close>

definition unless_true :: "string \<Rightarrow> bool \<Rightarrow> (string \<times> json) list" where
  "unless_true k b = (if b then [] else [(k, JBool b)])"

definition if_some :: "string \<Rightarrow> string option \<Rightarrow> (string \<times> json) list" where
  "if_some k v = (case v of None \<Rightarrow> [] | Some s \<Rightarrow> [(k, JStr s)])"

section \<open>Requests\<close>

fun operation_kind :: "operation \<Rightarrow> string" where
  "operation_kind (TargetAdd _ _ _ _) = ''target_add''"
| "operation_kind TargetRemove = ''target_remove''"
| "operation_kind TargetStart = ''target_start''"
| "operation_kind TargetStop = ''target_stop''"
| "operation_kind TargetRestart = ''target_restart''"
| "operation_kind TargetEnable = ''target_enable''"
| "operation_kind TargetDisable = ''target_disable''"
| "operation_kind (TargetRename _) = ''target_rename''"
| "operation_kind (TargetSetChannel _ _) = ''target_set_channel''"
| "operation_kind (TargetSaveChannel _ _) = ''target_save_channel''"
| "operation_kind NodeListChannels = ''node_list_channels''"
| "operation_kind (Mpv _ _) = ''mpv''"

fun operation_members :: "operation \<Rightarrow> (string \<times> json) list" where
  "operation_members (TargetAdd source enable_now start_paused start_muted) =
     [(''from'', opt_json JStr source), (''enable'', JBool enable_now)]
     @ unless_true ''start_paused'' start_paused @ unless_true ''start_muted'' start_muted"
| "operation_members (TargetRename name) = [(''name'', JStr name)]"
| "operation_members (TargetSetChannel channel restart_too) =
     [(''channel'', opt_json JStr channel), (''restart'', JBool restart_too)]"
| "operation_members (TargetSaveChannel channel overwrite) =
     [(''channel'', JStr channel), (''overwrite'', JBool overwrite)]"
| "operation_members (Mpv command args) = [(''command'', JStr command), (''args'', JArr args)]"
| "operation_members _ = []"

definition operation_json :: "operation \<Rightarrow> json" where
  "operation_json op = json_obj ((''kind'', JStr (operation_kind op)) # operation_members op)"

definition operation_of_json :: "json \<Rightarrow> operation option" where
  "operation_of_json j =
     Option.bind (string_field j ''kind'') (\<lambda>kind.
       if kind = ''target_add'' then
         Option.bind (option_field j ''from'') (\<lambda>source.
         Option.bind (bool_field j ''enable'') (\<lambda>enable_now.
         Option.bind (true_field j ''start_paused'') (\<lambda>start_paused.
         Option.bind (true_field j ''start_muted'') (\<lambda>start_muted.
           Some (TargetAdd source enable_now start_paused start_muted)))))
       else if kind = ''target_remove'' then Some TargetRemove
       else if kind = ''target_start'' then Some TargetStart
       else if kind = ''target_stop'' then Some TargetStop
       else if kind = ''target_restart'' then Some TargetRestart
       else if kind = ''target_enable'' then Some TargetEnable
       else if kind = ''target_disable'' then Some TargetDisable
       else if kind = ''target_rename'' then map_option TargetRename (string_field j ''name'')
       else if kind = ''target_set_channel'' then
         Option.bind (option_field j ''channel'') (\<lambda>channel.
         map_option (TargetSetChannel channel) (bool_field j ''restart''))
       else if kind = ''target_save_channel'' then
         Option.bind (string_field j ''channel'') (\<lambda>channel.
         map_option (TargetSaveChannel channel) (bool_field j ''overwrite''))
       else if kind = ''node_list_channels'' then Some NodeListChannels
       else if kind = ''mpv'' then
         Option.bind (string_field j ''command'') (\<lambda>command.
         map_option (Mpv command) (array_field j ''args''))
       else None)"

definition request_json :: "request \<Rightarrow> json" where
  "request_json r = json_obj ((''id'', JStr (rq_id r)) # if_some ''target'' (rq_target r)
     @ [(''operation'', operation_json (rq_operation r))])"

definition request_of_json :: "json \<Rightarrow> request option" where
  "request_of_json j =
     Option.bind (string_field j ''id'') (\<lambda>i.
     Option.bind (option_field j ''target'') (\<lambda>target.
     Option.bind (Option.bind (json_get j ''operation'') operation_of_json) (\<lambda>operation.
       Some \<lparr>rq_id = i, rq_target = target, rq_operation = operation\<rparr>)))"

section \<open>Responses\<close>

fun error_code_name :: "error_code \<Rightarrow> string" where
  "error_code_name CodeInvalidRequest = ''invalid_request''"
| "error_code_name CodeUnknownTarget = ''unknown_target''"
| "error_code_name CodeTargetAlreadyStopped = ''target_already_stopped''"
| "error_code_name CodeTargetNotRunning = ''target_not_running''"
| "error_code_name CodeTargetDisabled = ''target_disabled''"
| "error_code_name CodeConfigRejected = ''config_rejected''"
| "error_code_name CodeTargetOffline = ''target_offline''"
| "error_code_name CodeMpvRejected = ''mpv_rejected''"
| "error_code_name CodeTimeout = ''timeout''"
| "error_code_name CodeIpcLost = ''ipc_lost''"
| "error_code_name CodeShuttingDown = ''shutting_down''"

definition error_codes :: "error_code list" where
  "error_codes =
     [CodeInvalidRequest, CodeUnknownTarget, CodeTargetAlreadyStopped, CodeTargetNotRunning,
      CodeTargetDisabled, CodeConfigRejected, CodeTargetOffline, CodeMpvRejected, CodeTimeout,
      CodeIpcLost, CodeShuttingDown]"

text \<open>The code is read from its name.\<close>

definition error_code_of_name :: "string \<Rightarrow> error_code option" where
  "error_code_of_name s = find (\<lambda>c. error_code_name c = s) error_codes"

fun response_json :: "string response \<Rightarrow> json" where
  "response_json (Success i data) =
     json_obj [(''result'', JStr ''success''), (''id'', JStr i), (''data'', data)]"
| "response_json (Failure i code message) =
     json_obj [(''result'', JStr ''error''), (''id'', JStr i),
       (''error'', json_obj [(''code'', JStr (error_code_name code)), (''message'', JStr message)])]"

definition error_of_json :: "json \<Rightarrow> (error_code \<times> string) option" where
  "error_of_json j =
     Option.bind (Option.bind (string_field j ''code'') error_code_of_name) (\<lambda>code.
     Option.bind (string_field j ''message'') (\<lambda>message. Some (code, message)))"

definition response_of_json :: "json \<Rightarrow> string response option" where
  "response_of_json j =
     Option.bind (string_field j ''result'') (\<lambda>tag.
     Option.bind (string_field j ''id'') (\<lambda>i.
       if tag = ''success'' then
         Some (Success i (case json_get j ''data'' of None \<Rightarrow> JNull | Some v \<Rightarrow> v))
       else if tag = ''error'' then
         Option.bind (Option.bind (json_get j ''error'') error_of_json)
           (\<lambda>(code, message). Some (Failure i code message))
       else None))"

section \<open>Round trips\<close>

lemmas field_defs = string_field_def bool_field_def option_field_def true_field_def array_field_def

text \<open>The contract of a writer and its reader.\<close>

locale codec =
  fixes encode :: "'a \<Rightarrow> 'b" and decode :: "'b \<Rightarrow> 'a option"
  assumes decode_encode: "decode (encode x) = Some x"
begin

lemma encode_inj: "encode x = encode y \<longleftrightarrow> x = y"
  by (metis decode_encode option.inject)

end

interpretation end_reason_codec: codec end_reason_json end_reason_of_json
proof
  fix r
  show "end_reason_of_json (end_reason_json r) = Some r"
    by (cases r) (simp_all add: end_reason_json_def end_reason_of_name_def)
qed

interpretation error_code_codec: codec error_code_name error_code_of_name
proof
  fix c
  show "error_code_of_name (error_code_name c) = Some c"
    by (cases c) (simp_all add: error_code_of_name_def error_codes_def)
qed

interpretation operation_codec: codec operation_json operation_of_json
proof
  fix op
  show "operation_of_json (operation_json op) = Some op"
    by (cases op)
      (auto simp: operation_of_json_def operation_json_def field_defs unless_true_def opt_json_def
        split: option.splits)
qed

interpretation request_codec: codec request_json request_of_json
proof
  fix r
  show "request_of_json (request_json r) = Some r"
    by (cases "rq_target r")
      (simp_all add: request_of_json_def request_json_def field_defs if_some_def
        operation_codec.decode_encode)
qed

interpretation response_codec: codec response_json response_of_json
proof
  fix m
  show "response_of_json (response_json m) = Some m"
    by (cases m)
      (simp_all add: response_of_json_def error_of_json_def field_defs error_code_codec.decode_encode)
qed

end
