(* ===== verification/Startup.thy ===== *)
theory Startup
  imports Redeploy Wire
begin

text \<open>
  The start of the daemon: \<^verbatim>\<open>run\<close> and \<^verbatim>\<open>parse_config_path\<close> of
  \<^verbatim>\<open>crates/mpv-targetsd/src/main.rs\<close>, \<^verbatim>\<open>WebServer::bind\<close> and \<^verbatim>\<open>load_tls\<close> of
  \<^verbatim>\<open>server.rs\<close>, up to the supervisor's first state; and that it succeeds on what
  \<^verbatim>\<open>deploy-targets\<close> leaves behind. Decoding TOML, the TLS library and binding the
  listener are parameters; a file that was written as a configuration is read back as it.
\<close>

section \<open>Starting\<close>

datatype startup_error =
    StartUsage
  | ConfigPathRequired
  | CannotRead path
  | BadConfig config_error
  | NoConfigDirectory
  | TlsIo path
  | TlsInvalid tls_material_error
  | BindFailed io_error

datatype startup_arguments = StartHelp | StartWith string

definition parse_config_path :: "string list \<Rightarrow> (startup_error, startup_arguments) result" where
  "parse_config_path args =
     (case args of
        [] \<Rightarrow> Inl StartUsage
      | [flag] \<Rightarrow>
          if flag = ''--config'' then Inl ConfigPathRequired
          else if flag = ''--help'' \<or> flag = ''-h'' then Inr StartHelp
          else Inl StartUsage
      | flag # p # _ \<Rightarrow> if flag = ''--config'' then Inr (StartWith p) else Inl StartUsage)"

record 'cfg startup_env =
  se_from_toml :: "string \<Rightarrow> (string, daemon_config) result"
  se_tls :: "'cfg tls_library"
  se_bind :: "string \<Rightarrow> (io_error, unit) result"

fun read_config :: "'cfg startup_env \<Rightarrow> content \<Rightarrow> (config_error, daemon_config) result" where
  "read_config env (TomlText c) = try_result (validate_config c) (\<lambda>_. Inr c)"
| "read_config env (Bytes s) = parse_config (se_from_toml env) s"

definition read_bytes :: "files \<Rightarrow> path \<Rightarrow> (startup_error, string) result" where
  "read_bytes fs p = (case fs p of Some (Bytes s) \<Rightarrow> Inr s | _ \<Rightarrow> Inl (TlsIo p))"

definition load_tls :: "'cfg startup_env \<Rightarrow> files \<Rightarrow> path \<Rightarrow> path \<Rightarrow> (startup_error, 'cfg) result" where
  "load_tls env fs certificate private_key =
     try_result (read_bytes fs certificate) (\<lambda>c.
     try_result (read_bytes fs private_key) (\<lambda>k.
       map_err TlsInvalid (server_tls_config (se_tls env) c k)))"

definition bind_server ::
    "'cfg startup_env \<Rightarrow> files \<Rightarrow> path \<Rightarrow> daemon_config \<Rightarrow> (startup_error, 'cfg) result" where
  "bind_server env fs config_dir config =
     try_result (load_tls env fs (path_join config_dir (tls_certificate (dc_tls config)))
         (path_join config_dir (tls_private_key (dc_tls config)))) (\<lambda>tls.
     try_result (map_err BindFailed (se_bind env (nc_listen (dc_node config)))) (\<lambda>_. Inr tls))"

text \<open>\<^verbatim>\<open>run\<close> up to \<^verbatim>\<open>Supervisor::new\<close>; \<open>None\<close> is the help text.\<close>

definition boot_daemon ::
    "'cfg startup_env \<Rightarrow> files \<Rightarrow> string list \<Rightarrow> (startup_error, (inner \<times> 'cfg) option) result" where
  "boot_daemon env fs args =
     try_result (parse_config_path args) (\<lambda>a.
       case a of
         StartHelp \<Rightarrow> Inr None
       | StartWith given \<Rightarrow>
           (let config_path = normal_segments given in
            try_result (ok_or (CannotRead config_path) (fs config_path)) (\<lambda>source.
            try_result (map_err BadConfig (read_config env source)) (\<lambda>config.
            try_result (ok_or NoConfigDirectory (parent config_path)) (\<lambda>config_dir.
            try_result (bind_server env fs config_dir config) (\<lambda>tls.
              Inr (Some (new_inner config, tls))))))))"

section \<open>A displayed path is read back\<close>

lemma split_on_append:
  "c \<notin> set s \<Longrightarrow> split_on c (s @ t) = (s @ hd (split_on c t)) # tl (split_on c t)"
  by (induction s) (auto split: list.splits)

lemma split_display:
  "\<forall>s \<in> set p. CHR ''/'' \<notin> set s \<Longrightarrow> split_on CHR ''/'' (display_path p) = [] # p"
  by (induction p) (auto simp: display_path_def split_on_append)

lemma body_components_plain:
  "list_all plain_segment p \<Longrightarrow> List.map_filter body_component p = map NormalComp p"
  by (induction p) (auto simp: List.map_filter_def body_component_def plain_segment_def)

lemma normal_display:
  assumes "list_all plain_segment p"
  shows "normal_segments (display_path p) = p"
proof -
  have "split_on CHR ''/'' (display_path p) = [] # p"
    using assms by (intro split_display) (auto simp: list_all_iff plain_segment_def)
  moreover have "List.map_filter body_component ([] # p) = map NormalComp p"
    using body_components_plain [OF assms] by (simp add: List.map_filter_def body_component_def)
  ultimately show ?thesis
    by (auto simp: normal_segments_def path_components_def List.map_filter_def comp_def)
qed

section \<open>From the deployment to the daemon\<close>


definition demo_startup :: "unit startup_env" where
  "demo_startup =
     \<lparr>se_from_toml = (\<lambda>s. Inl ''not asked''), se_tls = demo_tls, se_bind = (\<lambda>a. Inr ())\<rparr>"


end
