(* ===== verification/RuntimeLimits.thy ===== *)
theory RuntimeLimits
  imports Outcomes
begin

text \<open>
  Bounds of the waiting loops, the round trip of a saved playlist, the places on disk that
  belong to a target, and the health both sides compute.
\<close>

section \<open>Waiting\<close>

text \<open>
  C40. Waiting for a socket ends, whatever the socket does and however slow a round is: with
  the socket in the wanted state at the end, or after the deadline; and at most one round
  later than the deadline.
\<close>

theorem socket_wait_ends:
  "case poll_socket live delay wanted (now + ipc_wait) now of (ok, t) \<Rightarrow>
     now \<le> t \<and> (ok \<longleftrightarrow> live t = wanted) \<and> (ok \<or> now + 5000 \<le> t) \<and>
     (t = now \<or> (\<exists>s. s < now + 5000 \<and> t = s + 50 + delay s))"
proof -
  have late: "t = now \<or> (\<exists>s. s < deadline \<and> t = s + 50 + delay s)"
    if "poll_socket live delay wanted deadline now = (ok, t)" for deadline now ok t
    using that
  proof (induction live delay wanted deadline now rule: poll_socket.induct)
    case (1 live delay wanted deadline now)
    show ?case
    proof (cases "live now = wanted \<or> deadline \<le> now")
      case True
      with "1.prems" show ?thesis
        by (subst (asm) poll_socket.simps) (auto split: if_splits)
    next
      case False
      with "1.prems" have "poll_socket live delay wanted deadline (now + 50 + delay now) = (ok, t)"
        by (subst (asm) poll_socket.simps) auto
      with "1.IH" False have "t = now + 50 + delay now \<or> (\<exists>s<deadline. t = s + 50 + delay s)" by blast
      moreover have "now < deadline" using False by simp
      ultimately show ?thesis by blast
    qed
  qed
  show ?thesis
    using poll_socket_result [of live delay wanted "now + ipc_wait" now] late [of "now + ipc_wait" now]
    by (auto simp: ipc_wait_def split: prod.splits)
qed

text \<open>
  The pauses between the attempts to bring a target back double from one second and never
  exceed thirty seconds; no number of attempts overflows the duration.
\<close>

lemma recovery_pauses:
  "(next_recovery_delay ^^ n) recovery_first_delay = min (2 ^ n) 30 * 1000000000"
proof (induction n)
  case (Suc n)
  have "(2::int) ^ Suc n = 2 * 2 ^ n" by simp
  with Suc show ?case
    by (simp add: next_recovery_delay_def recovery_max_delay_def duration_max_def min_def del: power_Suc)
qed (simp add: recovery_first_delay_def)

section \<open>Playlists\<close>

lemma playlist_entries_names: "playlist_entries es = Some fs \<Longrightarrow> map entry_filename es = map Some fs"
  by (induction es arbitrary: fs) (auto split: option.splits)

lemma entry_filename_line: "entry_filename e = Some f \<Longrightarrow> newline \<notin> set f"
  by (auto simp: entry_filename_def newline_def split: option.splits json.splits if_splits)

text \<open>
  A saved playlist is read back as it was: the lines of the file are the header and then
  the file names of the entries in order, and as many of them as the daemon reports.
\<close>

lemma playlist_round_trip:
  assumes "playlist_m3u playlist = Some (contents, items)"
  shows "\<exists>entries names. playlist = JArr entries \<and> map entry_filename entries = map Some names \<and>
    split_on newline contents = ''#EXTM3U'' # names @ [[]] \<and> length names = items"
proof -
  obtain entries names where p: "playlist = JArr entries" "playlist_entries entries = Some names"
      "contents = ''#EXTM3U'' @ [newline] @ unlines_on newline names" "items = length entries"
    using assms by (auto simp: playlist_m3u_def split: option.splits)
  have named: "map entry_filename entries = map Some names" by (rule playlist_entries_names [OF p(2)])
  have "\<forall>f \<in> set names. newline \<notin> set f"
  proof
    fix f
    assume "f \<in> set names"
    then have "Some f \<in> set (map entry_filename entries)" by (simp add: named)
    then show "newline \<notin> set f" by (auto dest: entry_filename_line [OF sym])
  qed
  moreover have "newline \<notin> set ''#EXTM3U''" by code_simp
  ultimately have "split_on newline contents = ''#EXTM3U'' # names @ [[]]"
    unfolding p(3) using concat_split_on [of newline "''#EXTM3U''"] split_on_unlines_on [of names newline]
    by simp
  moreover have "length names = items" using named p(4) by (metis length_map)
  ultimately show ?thesis using p(1) named by blast
qed

lemma playlist_round_trip_witness:
  "\<exists>contents. playlist_m3u (JArr [JObj [(''filename'', JStr ''a.mkv'')]]) = Some (contents, 1) \<and>
     split_on newline contents = [''#EXTM3U'', ''a.mkv'', []]"
proof -
  let ?p = "JArr [JObj [(''filename'', JStr ''a.mkv'')]]"
  have run: "playlist_m3u ?p = Some (''#EXTM3U'' @ [newline] @ ''a.mkv'' @ [newline], 1)" by code_simp
  from playlist_round_trip [OF run] have
    "split_on newline (''#EXTM3U'' @ [newline] @ ''a.mkv'' @ [newline]) = [''#EXTM3U'', ''a.mkv'', []]"
    by (auto simp: entry_filename_def bt_get_def split: if_splits)
  with run show ?thesis by blast
qed

section \<open>Places on disk\<close>

text \<open>
  Two targets share no place on disk: the directory of a target lies directly in the
  directory of all targets, no directory of a target lies in that of another, and their
  sockets differ.
\<close>

lemma target_places_apart:
  assumes "validate_target_name a = Inr ()" and "validate_target_name b = Inr ()" and "a \<noteq> b"
  shows "target_directory pt a = pt_config_root pt @ [''targets'', a] \<and>
    \<not> below (target_directory pt a) (target_directory pt b) \<and>
    \<not> below (target_directory pt a) (remove_directory pt b) \<and>
    \<not> below (target_directory pt a) (channels_directory pt) \<and>
    socket_path pt a = pt_runtime pt @ [a @ ''.sock''] \<and> socket_path pt a \<noteq> socket_path pt b"
proof -
  have plain: "plain_segment a" "plain_segment b" "plain_segment ''targets''" "plain_segment ''channels''"
      "plain_segment (a @ ''.sock'')" "plain_segment (b @ ''.sock'')"
    using valid_name_plain assms(1,2) valid_name_suffix_plain plain_literals by simp_all
  have "plain_segment (''.remove-'' @ b @ ''-'' @ show_nat (pt_pid pt))"
    using plain(2) show_nat_chars by (auto simp: plain_segment_def)
  moreover have "''.remove-'' @ s \<noteq> a" for s
    using assms(1) by (auto simp: validate_target_name_def is_ascii_lowercase_def is_ascii_digit_def
        Let_def split: if_splits)
  ultimately show ?thesis
    using plain assms(3)
    by (simp add: target_directory_def remove_directory_def channels_directory_def socket_path_def
        plain_join below_def)
qed

lemma target_places_apart_witness:
  "\<not> below (target_directory demo_paths ''tv'') (target_directory demo_paths ''cam'')"
  using target_places_apart [OF demo_names, of demo_paths] by blast

section \<open>Health\<close>

text \<open>
  The client computes the health the daemon computes: over the targets of a snapshot of the
  daemon it replaces any health by the one that the daemon put into the snapshot.
\<close>

lemma client_health_agrees:
  "refresh_health (snapshot_from i\<lparr>sn_health := h\<rparr>) = snapshot_from i"
  by (simp add: refresh_health_def snapshot_from_def expected_count_def online_count_def Let_def)

end
