(* ===== verification/CopyTree.thy ===== *)
theory CopyTree
  imports Outcomes
begin

text \<open>
  \<^verbatim>\<open>copy_directory\<close> of \<^verbatim>\<open>supervisor.rs\<close>, which \<^verbatim>\<open>add\<close> uses as one operation: its recursion over
  the entries of the source, and that the operations it performs together have the effect
  of that one operation, or of its failure.
\<close>

section \<open>The recursion\<close>

text \<open>What \<^verbatim>\<open>read_dir\<close> lists, directory by directory: a directory, or anything else, which is
  copied as a file.\<close>

datatype entry = Leaf content | Dir "(string \<times> entry) list"

fun copy_entries :: "path \<Rightarrow> path \<Rightarrow> (string \<times> entry) list \<Rightarrow> io_op list" where
  "copy_entries source destination [] = []"
| "copy_entries source destination ((n, Leaf c) # es) =
     CopyFile (source @ [n]) (destination @ [n]) # copy_entries source destination es"
| "copy_entries source destination ((n, Dir ds) # es) =
     CreateDirAll (destination @ [n]) # copy_entries (source @ [n]) (destination @ [n]) ds
     @ copy_entries source destination es"

text \<open>\<open>None\<close> where the source does not exist.\<close>

definition copy_directory :: "path \<Rightarrow> path \<Rightarrow> (string \<times> entry) list option \<Rightarrow> io_op list" where
  "copy_directory source destination listing =
     (case listing of None \<Rightarrow> [] | Some es \<Rightarrow> copy_entries source destination es)"

text \<open>Operations one after the other, up to the first failure; \<open>res\<close> and \<open>g\<close> are the answers and
  what failed operations leave behind.\<close>

fun do_all :: "(nat \<Rightarrow> (io_error, unit) result) \<Rightarrow> files \<Rightarrow> nat \<Rightarrow> io_op list \<Rightarrow> files \<Rightarrow>
    (io_error, unit) result \<times> files" where
  "do_all res g i [] fs = (Inr (), fs)"
| "do_all res g i (op # ops) fs =
     (case res i of
        Inl e \<Rightarrow> (Inl e, io_failed op g fs)
      | Inr _ \<Rightarrow> do_all res g (Suc i) ops (io_done op fs))"

section \<open>Its effect\<close>

fun found :: "(string \<times> entry) list \<Rightarrow> path \<Rightarrow> content option" where
  "found es [] = None"
| "found es (n # q) =
     (case map_of es n of
        None \<Rightarrow> None
      | Some (Leaf c) \<Rightarrow> (if q = [] then Some c else None)
      | Some (Dir ds) \<Rightarrow> found ds q)"

fun distinct_names :: "(string \<times> entry) list \<Rightarrow> bool" where
  "distinct_names [] \<longleftrightarrow> True"
| "distinct_names ((n, Leaf c) # es) \<longleftrightarrow> n \<notin> fst ` set es \<and> distinct_names es"
| "distinct_names ((n, Dir ds) # es) \<longleftrightarrow> n \<notin> fst ` set es \<and> distinct_names ds \<and> distinct_names es"

text \<open>The files after copying: those of the source, at their places below the destination.\<close>

definition copied :: "path \<Rightarrow> (string \<times> entry) list \<Rightarrow> files \<Rightarrow> files" where
  "copied destination es fs =
     (\<lambda>q. if below destination q \<and> found es (drop (length destination) q) \<noteq> None
          then found es (drop (length destination) q) else fs q)"

lemma found_Nil [simp]: "found es [] = None"
  by (cases es) simp_all

lemma copied_below: "copied b es fs (b @ q) = (if found es q \<noteq> None then found es q else fs (b @ q))"
  by (simp add: copied_def)

lemma copied_root [simp]: "copied b es fs b = fs b"
  by (simp add: copied_def)

lemma copied_nothing [simp]: "copied b [] fs = fs"
proof
  show "copied b [] fs q = fs q" for q
    by (cases "drop (length b) q") (simp_all add: copied_def)
qed

lemma copied_outside: "\<not> below b q \<Longrightarrow> copied b es fs q = fs q"
  by (simp add: copied_def)

lemma belowE: "below b q \<Longrightarrow> (\<And>r. q = b @ r \<Longrightarrow> P) \<Longrightarrow> P"
  by (metis append_take_drop_id below_def)

lemma copied_eqI:
  assumes "\<And>q. fs' (b @ q) = (if found es q \<noteq> None then found es q else fs (b @ q))"
    and "\<And>q. \<not> below b q \<Longrightarrow> fs' q = fs q"
  shows "fs' = copied b es fs"
proof
  fix q
  show "fs' q = copied b es fs q"
    by (cases "below b q") (auto elim!: belowE simp: copied_below copied_outside assms)
qed

lemma apart_extend: "\<not> below a b \<Longrightarrow> \<not> below b a \<Longrightarrow> \<not> below (a @ x) (b @ y) \<and> \<not> below (b @ y) (a @ x)"
  by (metis append_eq_append_conv2 below_append below_def belowE take_append)

lemma found_absent: "n \<notin> fst ` set es \<Longrightarrow> found es (n # q) = None"
  by (simp add: map_of_eq_None_iff [THEN iffD2])

lemma found_later:
  assumes "found es q = Some c" and "n \<notin> fst ` set es"
  shows "found ((n, e) # es) q = Some c"
  using assms found_absent [OF assms(2)] by (cases q) auto

lemma copied_Leaf:
  assumes "n \<notin> fst ` set es"
  shows "copied b es (fs(b @ [n] \<mapsto> c)) = copied b ((n, Leaf c) # es) fs"
proof (rule copied_eqI)
  show "copied b es (fs(b @ [n] \<mapsto> c)) (b @ q) =
      (if found ((n, Leaf c) # es) q \<noteq> None then found ((n, Leaf c) # es) q else fs (b @ q))" for q
    using found_absent [OF assms] by (cases q) (auto simp: copied_below)
  show "\<not> below b q \<Longrightarrow> copied b es (fs(b @ [n] \<mapsto> c)) q = fs q" for q
    by (auto simp: copied_outside)
qed

lemma copied_Dir:
  assumes "n \<notin> fst ` set es"
  shows "copied b es (copied (b @ [n]) ds fs) = copied b ((n, Dir ds) # es) fs"
proof (rule copied_eqI)
  show "copied b es (copied (b @ [n]) ds fs) (b @ q) =
      (if found ((n, Dir ds) # es) q \<noteq> None then found ((n, Dir ds) # es) q else fs (b @ q))" for q
  proof (cases q)
    case Nil
    have "\<not> below (b @ [n]) b" by (simp add: below_def)
    then show ?thesis by (simp add: Nil copied_def)
  next
    case (Cons m r)
    show ?thesis
    proof (cases "m = n")
      case True
      then show ?thesis
        using found_absent [OF assms] copied_below [of "b @ [n]" ds fs r] by (simp add: Cons copied_below)
    next
      case False
      then have "\<not> below (b @ [n]) (b @ m # r)" by (simp add: below_def)
      then show ?thesis
        using False copied_below [of b es _ "m # r"] by (simp add: Cons copied_outside)
    qed
  qed
  show "copied b es (copied (b @ [n]) ds fs) q = fs q" if "\<not> below b q" for q
  proof -
    have "\<not> below (b @ [n]) q" using that by (metis append_assoc below_append belowE)
    with that show ?thesis by (simp add: copied_outside)
  qed
qed

lemma copy_effect:
  "distinct_names es \<Longrightarrow> (\<And>q c. found es q = Some c \<Longrightarrow> fs (a @ q) = Some c) \<Longrightarrow>
   \<not> below a b \<Longrightarrow> \<not> below b a \<Longrightarrow> fold io_done (copy_entries a b es) fs = copied b es fs"
proof (induction a b es arbitrary: fs rule: copy_entries.induct)
  case (1 a b)
  show ?case by simp
next
  case (2 a b n c es)
  have "fs (a @ [n]) = Some c" using "2.prems"(2) [of "[n]" c] by simp
  moreover have "fold io_done (copy_entries a b es) (fs(b @ [n] \<mapsto> c)) = copied b es (fs(b @ [n] \<mapsto> c))"
  proof (rule "2.IH")
    fix q x
    assume "found es q = Some x"
    then have "fs (a @ q) = Some x"
      using found_later "2.prems"(1,2) by simp
    moreover have "a @ q \<noteq> b @ [n]"
      using apart_extend [OF "2.prems"(3,4), of q "[n]"] by (metis below_append append_Nil2)
    ultimately show "(fs(b @ [n] \<mapsto> c)) (a @ q) = Some x" by simp
  qed (use "2.prems" in simp_all)
  ultimately show ?case using "2.prems"(1) by (simp add: copied_Leaf)
next
  case (3 a b n ds es)
  have sub: "fold io_done (copy_entries (a @ [n]) (b @ [n]) ds) fs = copied (b @ [n]) ds fs"
  proof (rule "3.IH"(1))
    show "fs ((a @ [n]) @ q) = Some x" if "found ds q = Some x" for q x
      using that "3.prems"(2) [of "n # q" x] by simp
  qed (use "3.prems" apart_extend in simp_all)
  have "fold io_done (copy_entries a b es) (copied (b @ [n]) ds fs) = copied b es (copied (b @ [n]) ds fs)"
  proof (rule "3.IH"(2))
    fix q x
    assume "found es q = Some x"
    then have "fs (a @ q) = Some x"
      using found_later "3.prems"(1,2) by simp
    moreover have "\<not> below (b @ [n]) (a @ q)" using apart_extend [OF "3.prems"(3,4)] by blast
    ultimately show "copied (b @ [n]) ds fs (a @ q) = Some x" by (simp add: copied_outside)
  qed (use "3.prems" in simp_all)
  then show ?case using "3.prems"(1) by (simp add: sub copied_Dir)
qed

text \<open>Every operation writes only below the destination.\<close>

lemma copy_touches: "op \<in> set (copy_entries a b es) \<Longrightarrow> touches op q \<Longrightarrow> below b q"
proof (induction a b es rule: copy_entries.induct)
  case (3 a b n ds es)
  then show ?case by (auto elim!: belowE)
qed auto

section \<open>One operation\<close>

lemma done_all: "do_all res g i ops fs = (Inr (), fs') \<Longrightarrow> fs' = fold io_done ops fs"
  by (induction res g i ops fs rule: do_all.induct) (auto split: sum.splits)

lemma do_all_outside:
  "do_all res g i ops fs = (r, fs') \<Longrightarrow> \<forall>op \<in> set ops. \<not> touches op q \<Longrightarrow> fs' q = fs q"
proof (induction res g i ops fs rule: do_all.induct)
  case (2 res g i op ops fs)
  have "\<not> touches op q" using 2(3) by simp
  then have "io_done op fs q = fs q" "io_failed op g fs q = fs q"
    using io_after_other [of op q "Inr ()" g fs] io_after_other [of op q "Inl NotFound" g fs]
    by (simp_all add: io_after_def)
  then show ?case using 2 by (cases "res i") simp_all
qed simp

text \<open>The source and the destination of \<^verbatim>\<open>add\<close>.\<close>

definition scripts_directory :: "paths \<Rightarrow> string \<Rightarrow> path" where
  "scripts_directory pt name = path_join (target_directory pt name) ''scripts''"

lemma scripts_apart:
  assumes "validate_target_name m = Inr ()" and "validate_target_name n = Inr ()" and "m \<noteq> n"
  shows "\<not> below (scripts_directory pt m) (scripts_directory pt n)"
  using assms by (simp add: scripts_directory_def target_directory_plain plain_join plain_literals below_def)

lemma preparation_copies:
  "CopyDirectory (scripts_directory pt source) (scripts_directory pt name)
     \<in> set (preparation pt name (Some source) start_paused start_muted)"
  by (simp add: preparation_def scripts_directory_def Let_def)

text \<open>
  C27. Copying the scripts of a target for a new one, entry by entry and directory by directory,
  does what the one operation does that stands for it in \<^verbatim>\<open>add\<close>: if all succeeds, each file of
  the source is at its place below the destination and every other file is as it was; and
  if an operation fails, only files below the destination have changed.
\<close>

theorem copy_directory_refines:
  assumes names: "validate_target_name source = Inr ()" "validate_target_name name = Inr ()" "source \<noteq> name"
    and listing: "distinct_names (case listing of None \<Rightarrow> [] | Some es \<Rightarrow> es)"
      "\<And>q. fs (scripts_directory pt source @ q) = found (case listing of None \<Rightarrow> [] | Some es \<Rightarrow> es) q"
    and run: "do_all res g i (copy_directory (scripts_directory pt source) (scripts_directory pt name) listing) fs
      = (r, fs')"
  shows "\<exists>g'. fs' = io_after (CopyDirectory (scripts_directory pt source) (scripts_directory pt name)) r g' fs"
proof -
  let ?a = "scripts_directory pt source" and ?b = "scripts_directory pt name"
  let ?es = "case listing of None \<Rightarrow> [] | Some es \<Rightarrow> es"
  have run: "do_all res g i (copy_entries ?a ?b ?es) fs = (r, fs')"
    using run by (simp add: copy_directory_def split: option.splits)
  have apart: "\<not> below ?a ?b" "\<not> below ?b ?a" using scripts_apart names by simp_all
  show ?thesis
  proof (cases r)
    case (Inr u)
    then have "fs' = fold io_done (copy_entries ?a ?b ?es) fs" using done_all run by simp
    also have "\<dots> = copied ?b ?es fs"
      by (rule copy_effect [OF listing(1) _ apart]) (simp add: listing(2))
    also have "\<dots> = io_done (CopyDirectory ?a ?b) fs"
      by (auto simp: copied_def fun_eq_iff listing(2) split: option.split)
    finally show ?thesis by (simp add: Inr io_after_def)
  next
    case (Inl e)
    have "fs' q = fs q" if "\<not> below ?b q" for q
      using do_all_outside [OF run] copy_touches that by blast
    then have "fs' = io_failed (CopyDirectory ?a ?b) fs' fs" by auto
    then show ?thesis by (auto simp: Inl io_after_def)
  qed
qed

definition demo_listing :: "(string \<times> entry) list" where
  "demo_listing = [(''main.lua'', Leaf (Bytes ''m'')), (''lib'', Dir [(''util.lua'', Leaf (Bytes ''u''))])]"

definition demo_files :: files where
  "demo_files = (\<lambda>q. if below (scripts_directory demo_paths ''tv'') q
     then found demo_listing (drop (length (scripts_directory demo_paths ''tv'')) q) else None)"

theorem copy_directory_refines_witness:
  "\<exists>fs' g'. do_all (\<lambda>_. Inr ()) g' 0 (copy_directory (scripts_directory demo_paths ''tv'')
       (scripts_directory demo_paths ''cam'') (Some demo_listing)) demo_files = (Inr (), fs') \<and>
     fs' = io_done (CopyDirectory (scripts_directory demo_paths ''tv'') (scripts_directory demo_paths ''cam''))
       demo_files"
proof -
  let ?ops = "copy_directory (scripts_directory demo_paths ''tv'') (scripts_directory demo_paths ''cam'')
    (Some demo_listing)"
  have "do_all (\<lambda>_. Inr ()) g i ops fs = (Inr (), fold io_done ops fs)" for g i ops fs
    by (induction ops arbitrary: i fs) simp_all
  then obtain fs' where run: "do_all (\<lambda>_. Inr ()) demo_files 0 ?ops demo_files = (Inr (), fs')" by blast
  have "distinct_names demo_listing" by (simp add: demo_listing_def)
  moreover have "demo_files (scripts_directory demo_paths ''tv'' @ q) = found demo_listing q" for q
    by (simp add: demo_files_def)
  ultimately have "\<exists>g'. fs' = io_after (CopyDirectory (scripts_directory demo_paths ''tv'')
      (scripts_directory demo_paths ''cam'')) (Inr ()) g' demo_files"
    using copy_directory_refines [OF demo_names(1,2) _ _ _ run] by simp
  then show ?thesis using run by (auto simp: io_after_def)
qed

end
