(* ===== verification/WireEvents.thy ===== *)
theory WireEvents
  imports Wire Connection
begin

text \<open>
  The wire form of snapshots and events, as \<^verbatim>\<open>serde\<close> derives it from the attributes in
  \<^verbatim>\<open>crates/mpv-targets/src/protocol.rs\<close>, and how a client tells the two kinds of frames
  apart. An event carries its tag in the member \<^verbatim>\<open>event\<close>; the members of a snapshot are
  flattened into it. A member that serde reads as an integer must be one in range, a
  \<^verbatim>\<open>f64\<close> may be written as an integer, and an \<^verbatim>\<open>Option\<close> may be missing or null.
\<close>

section \<open>Fields\<close>

definition json_u64 :: "u64 \<Rightarrow> json" where
  "json_u64 n = JNum (PosInt n)"

definition u64_field :: "json \<Rightarrow> string \<Rightarrow> u64 option" where
  "u64_field j k = Option.bind (json_get j k) as_u64"

definition as_u32 :: "json \<Rightarrow> u32 option" where
  "as_u32 v = Option.bind (as_u64 v) u32_of_u64"

definition u32_field :: "json \<Rightarrow> string \<Rightarrow> u32 option" where
  "u32_field j k = Option.bind (json_get j k) as_u32"

definition opt_field :: "(json \<Rightarrow> 'a option) \<Rightarrow> json \<Rightarrow> string \<Rightarrow> 'a option option" where
  "opt_field f j k =
     (case json_get j k of
        None \<Rightarrow> Some None
      | Some v \<Rightarrow> if is_null v then Some None else map_option Some (f v))"

definition list_field :: "(json \<Rightarrow> 'a option) \<Rightarrow> json \<Rightarrow> string \<Rightarrow> 'a list option" where
  "list_field f j k =
     Option.bind (Option.bind (json_get j k) as_array) (\<lambda>vs. those (map f vs))"

section \<open>Observed state\<close>

definition target_state_of_json :: "json \<Rightarrow> target_state option" where
  "target_state_of_json j =
     Option.bind (if is_object j then Some () else None) (\<lambda>_.
     Option.bind (opt_field as_bool j ''paused'') (\<lambda>paused.
     Option.bind (opt_field as_bool j ''muted'') (\<lambda>muted.
     Option.bind (opt_field as_f64 j ''volume'') (\<lambda>volume.
     Option.bind (opt_field as_str j ''title'') (\<lambda>title.
     Option.bind (opt_field as_u32 j ''playlist_position'') (\<lambda>playlist_position.
     Option.bind (opt_field as_u32 j ''playlist_count'') (\<lambda>playlist_count.
     Option.bind (opt_field as_bool j ''idle_active'') (\<lambda>idle_active.
     Option.bind (opt_field as_f64 j ''duration'') (\<lambda>duration.
     Option.bind (opt_field as_f64 j ''position'') (\<lambda>position.
     Option.bind (opt_field as_str j ''loop_file'') (\<lambda>loop_file.
     Option.bind (opt_field as_str j ''loop_playlist'') (\<lambda>loop_playlist.
     Option.bind (opt_field as_str j ''audio_track'') (\<lambda>audio_track.
     Option.bind (opt_field as_str j ''subtitle_track'') (\<lambda>subtitle_track.
     Option.bind (opt_field as_bool j ''subtitles_visible'') (\<lambda>subtitles_visible.
     Option.bind (opt_field end_reason_of_json j ''last_end_reason'') (\<lambda>last_end_reason.
     Option.bind (opt_field as_str j ''last_end_error'') (\<lambda>last_end_error.
       Some \<lparr>ts_paused = paused, ts_muted = muted, ts_volume = volume, ts_title = title,
         ts_playlist_position = playlist_position, ts_playlist_count = playlist_count,
         ts_idle_active = idle_active, ts_duration = duration, ts_position = position,
         ts_loop_file = loop_file, ts_loop_playlist = loop_playlist,
         ts_audio_track = audio_track, ts_subtitle_track = subtitle_track,
         ts_subtitles_visible = subtitles_visible, ts_last_end_reason = last_end_reason,
         ts_last_end_error = last_end_error\<rparr>)))))))))))))))))"

section \<open>Snapshots\<close>

fun health_state_name :: "health_state \<Rightarrow> string" where
  "health_state_name Ready = ''ready''"
| "health_state_name Idle = ''idle''"
| "health_state_name Degraded = ''degraded''"

definition health_state_of_name :: "string \<Rightarrow> health_state option" where
  "health_state_of_name s =
     (if s = ''ready'' then Some Ready
      else if s = ''idle'' then Some Idle
      else if s = ''degraded'' then Some Degraded
      else None)"

fun health_state_of_json :: "json \<Rightarrow> health_state option" where
  "health_state_of_json (JStr s) = health_state_of_name s"
| "health_state_of_json (JObj [(k, JNull)]) = health_state_of_name k"
| "health_state_of_json _ = None"

definition health_json :: "health \<Rightarrow> json" where
  "health_json h = json_obj
     [(''state'', JStr (health_state_name (h_state h))),
      (''targets_configured'', json_u32 (h_configured h)),
      (''targets_expected_online'', json_u32 (h_expected h)),
      (''targets_online'', json_u32 (h_online h))]"

definition health_of_json :: "json \<Rightarrow> health option" where
  "health_of_json j =
     Option.bind (Option.bind (json_get j ''state'') health_state_of_json) (\<lambda>state.
     Option.bind (u32_field j ''targets_configured'') (\<lambda>configured.
     Option.bind (u32_field j ''targets_expected_online'') (\<lambda>expected.
     Option.bind (u32_field j ''targets_online'') (\<lambda>online.
       Some \<lparr>h_state = state, h_configured = configured, h_expected = expected,
         h_online = online\<rparr>))))"

definition record_json :: "target_record \<Rightarrow> json" where
  "record_json t = json_obj
     [(''name'', JStr (tr_name t)), (''disabled'', JBool (tr_disabled t)),
      (''stopped'', JBool (tr_stopped t)), (''online'', JBool (tr_online t)),
      (''channel'', opt_json JStr (tr_channel t)),
      (''state'', JObj (target_state_json (tr_state t))),
      (''revision'', json_u64 (tr_revision t))]"

definition record_of_json :: "json \<Rightarrow> target_record option" where
  "record_of_json j =
     Option.bind (string_field j ''name'') (\<lambda>name.
     Option.bind (bool_field j ''disabled'') (\<lambda>disabled.
     Option.bind (bool_field j ''stopped'') (\<lambda>stopped.
     Option.bind (bool_field j ''online'') (\<lambda>online.
     Option.bind (option_field j ''channel'') (\<lambda>channel.
     Option.bind (Option.bind (json_get j ''state'') target_state_of_json) (\<lambda>state.
     Option.bind (u64_field j ''revision'') (\<lambda>revision.
       Some \<lparr>tr_name = name, tr_disabled = disabled, tr_stopped = stopped,
         tr_online = online, tr_channel = channel, tr_state = state,
         tr_revision = revision\<rparr>)))))))"

definition snapshot_members :: "snapshot \<Rightarrow> (string \<times> json) list" where
  "snapshot_members s =
     [(''protocol_version'', json_u32 (sn_version s)), (''node_id'', JStr (sn_node s)),
      (''health'', health_json (sn_health s)),
      (''targets'', JArr (map record_json (sn_targets s)))]"

definition snapshot_of_json :: "json \<Rightarrow> snapshot option" where
  "snapshot_of_json j =
     Option.bind (u32_field j ''protocol_version'') (\<lambda>version.
     Option.bind (string_field j ''node_id'') (\<lambda>node.
     Option.bind (Option.bind (json_get j ''health'') health_of_json) (\<lambda>health.
     Option.bind (list_field record_of_json j ''targets'') (\<lambda>targets.
       Some \<lparr>sn_version = version, sn_node = node, sn_health = health,
         sn_targets = targets\<rparr>))))"

section \<open>Events\<close>

fun event_json :: "event \<Rightarrow> json" where
  "event_json (SnapshotEvent s) = json_obj ((''event'', JStr ''snapshot'') # snapshot_members s)"
| "event_json (TargetChangedEvent c) =
     json_obj [(''event'', JStr ''target_changed''), (''target'', JStr (ch_target c)),
       (''revision'', json_u64 (ch_revision c)), (''changed'', ch_changed c)]"

definition event_of_json :: "json \<Rightarrow> event option" where
  "event_of_json j =
     Option.bind (string_field j ''event'') (\<lambda>tag.
       if tag = ''snapshot'' then map_option SnapshotEvent (snapshot_of_json j)
       else if tag = ''target_changed'' then
         Option.bind (string_field j ''target'') (\<lambda>target.
         Option.bind (u64_field j ''revision'') (\<lambda>revision.
         Option.bind (json_get j ''changed'') (\<lambda>changed.
           Some (TargetChangedEvent
             \<lparr>ch_target = target, ch_revision = revision, ch_changed = changed\<rparr>))))
       else None)"

section \<open>Round trips\<close>

lemma as_u32_json [simp]: "as_u32 (json_u32 n) = Some n"
proof -
  have small: "uint n < 2 ^ 32" using uint_bounded [of n] by simp
  then have "uint (ucast n :: u64) = uint n" by (simp add: uint_up_ucast is_up_def source_size_def target_size_def word_size)
  then show ?thesis using small by (simp add: as_u32_def json_u32_def u32_of_u64_def)
qed

lemma as_f64_json [simp]: "as_f64 (json_f64 x) = Some x"
  by (simp add: json_f64_def)

lemma as_u64_json [simp]: "as_u64 (json_u64 x) = Some x"
  by (simp add: json_u64_def)

lemma json_not_null [simp]: "json_u32 n \<noteq> JNull" "json_u64 m \<noteq> JNull" "json_f64 x \<noteq> JNull"
    "end_reason_json r \<noteq> JNull"
  by (simp_all add: json_u32_def json_u64_def json_f64_def end_reason_json_def)

text \<open>An option that is written is read.\<close>

lemma opt_read [simp]:
  "(\<And>x. enc x \<noteq> JNull) \<Longrightarrow> (\<And>x. f (enc x) = Some x) \<Longrightarrow>
   (if opt_json enc v = JNull then Some None else map_option Some (f (opt_json enc v))) = Some v"
  by (cases v) (simp_all add: opt_json_def)

lemmas read_simps = field_defs u64_field_def u32_field_def opt_field_def list_field_def

interpretation target_state_codec: codec "\<lambda>s. JObj (target_state_json s)" target_state_of_json
proof
  fix s
  have get: "json_get (JObj (target_state_json s)) k = map_of (rev (target_state_fields s)) k" for k
    by (simp add: target_state_json_def bt_get_of_list)
  show "target_state_of_json (JObj (target_state_json s)) = Some s"
    by (simp add: target_state_of_json_def opt_field_def get target_state_fields_def
        end_reason_codec.decode_encode del: json_get.simps)
qed

interpretation health_codec: codec health_json health_of_json
proof
  fix h :: health
  have "health_state_of_name (health_state_name (h_state h)) = Some (h_state h)"
    by (cases "h_state h") (simp_all add: health_state_of_name_def)
  then show "health_of_json (health_json h) = Some h"
    by (simp add: health_of_json_def health_json_def read_simps)
qed

interpretation record_codec: codec record_json record_of_json
proof
  fix t
  show "record_of_json (record_json t) = Some t"
    by (simp add: record_of_json_def record_json_def read_simps target_state_codec.decode_encode)
qed

lemma record_list: "those (map (record_of_json \<circ> record_json) ts) = Some ts"
  by (induction ts) (simp_all add: record_codec.decode_encode)

interpretation event_codec: codec event_json event_of_json
proof
  fix e
  show "event_of_json (event_json e) = Some e"
    by (cases e)
      (simp_all add: event_of_json_def snapshot_of_json_def snapshot_members_def read_simps
        health_codec.decode_encode record_list)
qed

section \<open>Frames\<close>

text \<open>What a client makes of a frame: the parsers of the two kinds of messages are tried in
  this order.\<close>

definition classify_frame :: "json \<Rightarrow> incoming" where
  "classify_frame = classify_message event_of_json response_of_json"

lemma response_no_event: "event_of_json (response_json m) = None"
  by (cases m) (simp_all add: event_of_json_def read_simps)

lemma event_no_response: "response_of_json (event_json e) = None"
  by (cases e) (simp_all add: response_of_json_def snapshot_members_def read_simps)

lemma classify_event: "classify_frame (event_json e) = IncomingEvent e"
  by (simp add: classify_frame_def classify_message_def event_codec.decode_encode)

lemma classify_response: "classify_frame (response_json m) = IncomingResponse m"
  by (simp add: classify_frame_def classify_message_def response_no_event response_codec.decode_encode)

text \<open>
  C30. The wire form loses nothing: every request, response and event is read back as it was
  written, the fields that are left out because they have their default included, so that
  different messages have different forms; a client tells events and responses apart; and the
  daemon handles a frame with the wire form of a request as that request.
\<close>

theorem wire_round_trip:
  "request_of_json (request_json r) = Some r \<and> response_of_json (response_json m) = Some m \<and>
   event_of_json (event_json e) = Some e \<and> (request_json r = request_json r' \<longleftrightarrow> r = r') \<and>
   (response_json m = response_json m' \<longleftrightarrow> m = m') \<and> (event_json e = event_json e' \<longleftrightarrow> e = e') \<and>
   classify_frame (event_json e) = IncomingEvent e \<and>
   classify_frame (response_json m) = IncomingResponse m \<and>
   dispatch_request (\<lambda>text. Some (request_json r)) request_of_json pt source = handle_request pt r"
  by (simp add: request_codec.decode_encode response_codec.decode_encode event_codec.decode_encode
      request_codec.encode_inj response_codec.encode_inj event_codec.encode_inj classify_event
      classify_response dispatch_request_def)

end
