(* ===== verification/Serving.thy ===== *)
theory Serving
  imports WireEvents Interleaving
begin

text \<open>
  The daemon with the connections of its clients: \<^verbatim>\<open>WebServer::run\<close>,
  \<^verbatim>\<open>serve_connection\<close> and the two ways it writes a frame (\<^verbatim>\<open>server.rs\<close>), and the end of
  \<^verbatim>\<open>run\<close> in \<^verbatim>\<open>main.rs\<close>. A connection subscribes to the events, greets its client with a
  snapshot and then selects between a message of the client, a response of one of the
  tasks it started, and an event. The set-up of TLS and WebSocket may fail and is otherwise
  left to the libraries; which branch is selected is not determined.
\<close>

section \<open>Connections\<close>

datatype frame =
    EventFrame event
  | ResponseFrame "response_fault response"

datatype serve_error = HandshakeFailed | WriteFailed | ReadFailed | EventGap

datatype serve_phase =
    Handshaking
  | Subscribing
  | Greeting snapshot
  | Serving
  | Over "(serve_error, unit) result"

text \<open>\<open>sv_next\<close> is the position of the receiver in the events that were sent, \<open>sv_responses\<close>
  the channel of the responses; \<open>sv_read\<close> and \<open>sv_written\<close> record the traffic of the
  socket.\<close>

record served =
  sv_phase :: serve_phase
  sv_next :: nat
  sv_responses :: "response_fault response list"
  sv_read :: "string list"
  sv_written :: "frame list"

definition new_served :: served where
  "new_served = \<lparr>sv_phase = Handshaking, sv_next = 0, sv_responses = [], sv_read = [],
     sv_written = []\<rparr>"

text \<open>\<^verbatim>\<open>mpsc::channel(32)\<close> and \<^verbatim>\<open>broadcast::channel(128)\<close>.\<close>

definition response_capacity :: nat where
  "response_capacity = 32"

definition event_capacity :: nat where
  "event_capacity = 128"

definition finish :: "(serve_error, unit) result \<Rightarrow> served \<Rightarrow> served" where
  "finish r c = c\<lparr>sv_phase := Over r\<rparr>"

definition over :: "served \<Rightarrow> bool" where
  "over c = (case sv_phase c of Over _ \<Rightarrow> True | _ \<Rightarrow> False)"

text \<open>Whether the socket accepts a frame is up to the environment.\<close>

definition send_frame :: "bool \<Rightarrow> frame \<Rightarrow> served \<Rightarrow> served" where
  "send_frame ok f c =
     (if ok then c\<lparr>sv_written := sv_written c @ [f]\<rparr> else finish (Inl WriteFailed) c)"

definition send_event :: "bool \<Rightarrow> event \<Rightarrow> served \<Rightarrow> served" where
  "send_event ok e = send_frame ok (EventFrame e)"

definition send_response :: "bool \<Rightarrow> response_fault response \<Rightarrow> served \<Rightarrow> served" where
  "send_response ok m = send_frame ok (ResponseFrame m)"

text \<open>The text of a frame, as a value; \<open>shown\<close> is the text of an error.\<close>

fun frame_json :: "(response_fault \<Rightarrow> string) \<Rightarrow> frame \<Rightarrow> json" where
  "frame_json shown (EventFrame e) = event_json e"
| "frame_json shown (ResponseFrame m) = response_json (map_response shown m)"

section \<open>The steps of a connection\<close>

definition handshake :: "bool \<Rightarrow> served \<Rightarrow> served" where
  "handshake ok c =
     (if ok then c\<lparr>sv_phase := Subscribing\<rparr> else finish (Inl HandshakeFailed) c)"

definition subscribe :: "inner \<Rightarrow> event list \<Rightarrow> served \<Rightarrow> served" where
  "subscribe i sent c = c\<lparr>sv_phase := Greeting (snapshot_from i), sv_next := length sent\<rparr>"

definition greet :: "bool \<Rightarrow> snapshot \<Rightarrow> served \<Rightarrow> served" where
  "greet ok s c = send_event ok (SnapshotEvent s) (c\<lparr>sv_phase := Serving\<rparr>)"

datatype socket_message =
    TextMessage string
  | CloseMessage
  | OtherMessage
  | BrokenMessage
  | NoMessage

text \<open>What becomes of the connection, and the text for which a task is started.\<close>

fun on_message :: "socket_message \<Rightarrow> served \<Rightarrow> served \<times> string option" where
  "on_message (TextMessage text) c = (c\<lparr>sv_read := sv_read c @ [text]\<rparr>, Some text)"
| "on_message CloseMessage c = (finish (Inr ()) c, None)"
| "on_message NoMessage c = (finish (Inr ()) c, None)"
| "on_message OtherMessage c = (c, None)"
| "on_message BrokenMessage c = (finish (Inl ReadFailed) c, None)"

datatype received = Received event | Lagged | EventsClosed

text \<open>A receiver that is further behind than the capacity has lost events; one that is up to
  date waits.\<close>

definition broadcast_recv :: "event list \<Rightarrow> nat \<Rightarrow> received option" where
  "broadcast_recv sent next =
     (if event_capacity < length sent - next then Some Lagged
      else if next < length sent then Some (Received (sent ! next))
      else None)"

fun on_event :: "bool \<Rightarrow> received \<Rightarrow> served \<Rightarrow> served" where
  "on_event ok (Received e) c = send_event ok e (c\<lparr>sv_next := Suc (sv_next c)\<rparr>)"
| "on_event ok Lagged c = finish (Inl EventGap) c"
| "on_event ok EventsClosed c = finish (Inr ()) c"

definition respond :: "bool \<Rightarrow> served \<Rightarrow> served" where
  "respond ok c =
     send_response ok (hd (sv_responses c)) (c\<lparr>sv_responses := tl (sv_responses c)\<rparr>)"

text \<open>The send of a task waits while the channel is full and fails when the connection is
  over; its result is ignored.\<close>

definition can_deliver :: "served \<Rightarrow> bool" where
  "can_deliver c \<longleftrightarrow> over c \<or> length (sv_responses c) < response_capacity"

definition deliver :: "response_fault response \<Rightarrow> served \<Rightarrow> served" where
  "deliver m c = (if over c then c else c\<lparr>sv_responses := sv_responses c @ [m]\<rparr>)"

section \<open>The daemon\<close>

text \<open>What a task of the daemon leaves when it is done: nothing, the error of the start, or a
  response for a connection.\<close>

datatype reply = Quiet | BootFailed supervisor_error | Reply nat "response_fault response"

datatype run_error = InitFailed supervisor_error | AcceptFailed io_error | SignalFailed

record node = "reply machine" +
  nd_conns :: "served list"
  nd_exit :: "(run_error, unit) result option"

definition boot_run :: "paths \<Rightarrow> reply task" where
  "boot_run pt = bind_task (start_configured_targets pt)
     (\<lambda>r. Return (case r of Inl e \<Rightarrow> BootFailed e | Inr _ \<Rightarrow> Quiet))"

definition spawned_job :: "paths \<Rightarrow> job \<Rightarrow> reply task" where
  "spawned_job pt job = map_task (\<lambda>_. Quiet) (job_task pt job)"

definition serve_text :: "(string \<Rightarrow> json option) \<Rightarrow> paths \<Rightarrow> nat \<Rightarrow> string \<Rightarrow> reply task" where
  "serve_text parse pt c text =
     bind_task (dispatch_request parse request_of_json pt text) (\<lambda>m. Return (Reply c m))"

definition node_init :: "paths \<Rightarrow> daemon_config \<Rightarrow> node" where
  "node_init pt config =
     \<lparr>sy_inner = new_inner config, sy_inner_owner = None, sy_mutation_owner = None,
      sy_tasks = [boot_run pt], sy_log = [], nd_conns = [], nd_exit = None\<rparr>"

definition listening :: "node \<Rightarrow> bool" where
  "listening n \<longleftrightarrow> sy_tasks n ! 0 = Return Quiet"

definition on_conn :: "nat \<Rightarrow> (served \<Rightarrow> served) \<Rightarrow> node \<Rightarrow> node" where
  "on_conn c f n = n\<lparr>nd_conns := (nd_conns n)[c := f (nd_conns n ! c)]\<rparr>"

definition at_phase :: "node \<Rightarrow> nat \<Rightarrow> serve_phase \<Rightarrow> bool" where
  "at_phase n c p \<longleftrightarrow> c < length (nd_conns n) \<and> sv_phase (nd_conns n ! c) = p"

definition hear :: "(string \<Rightarrow> json option) \<Rightarrow> paths \<Rightarrow> nat \<Rightarrow> socket_message \<Rightarrow> node \<Rightarrow> node" where
  "hear parse pt c msg n =
     (let n' = on_conn c (\<lambda>s. fst (on_message msg s)) n in
      case snd (on_message msg (nd_conns n ! c)) of
        None \<Rightarrow> n'
      | Some text \<Rightarrow> n'\<lparr>sy_tasks := sy_tasks n @ [serve_text parse pt c text]\<rparr>)"

text \<open>The accept loop of \<^verbatim>\<open>WebServer::run\<close>: a stream that is accepted gets a task of its own,
  and an error ends the loop and with it the daemon.\<close>

fun accept_client :: "(io_error, unit) result \<Rightarrow> node \<Rightarrow> node" where
  "accept_client (Inr _) n = n\<lparr>nd_conns := nd_conns n @ [new_served]\<rparr>"
| "accept_client (Inl e) n = n\<lparr>nd_exit := Some (Inl (AcceptFailed e))\<rparr>"

text \<open>The other branch of the last selection of \<^verbatim>\<open>run\<close>: the signal, or an error in waiting
  for it.\<close>

fun end_by_signal :: "bool \<Rightarrow> node \<Rightarrow> node" where
  "end_by_signal ok n = n\<lparr>nd_exit := Some (if ok then Inr () else Inl SignalFailed)\<rparr>"

datatype node_label = TaskMoves nat | ConnMoves nat | Outside

inductive node_step ::
    "(string \<Rightarrow> json option) \<Rightarrow> paths \<Rightarrow> node \<Rightarrow> node_label \<Rightarrow> node \<Rightarrow> bool" for parse pt n where
  node_task: "task_step (spawned_job pt) n j n' \<Longrightarrow> node_step parse pt n (TaskMoves j) n'"
| node_boot_failed:
    "sy_tasks n ! 0 = Return (BootFailed e) \<Longrightarrow>
     node_step parse pt n (TaskMoves 0) (n\<lparr>nd_exit := Some (Inl (InitFailed e))\<rparr>)"
| node_deliver:
    "j < length (sy_tasks n) \<Longrightarrow> sy_tasks n ! j = Return (Reply c m) \<Longrightarrow>
     c < length (nd_conns n) \<Longrightarrow> can_deliver (nd_conns n ! c) \<Longrightarrow>
     node_step parse pt n (TaskMoves j) (on_conn c (deliver m) (resume j (Return Quiet) n))"
| node_accept:
    "listening n \<Longrightarrow>
     node_step parse pt n Outside (accept_client (Inr ()) n)"
| node_accept_failed:
    "listening n \<Longrightarrow>
     node_step parse pt n Outside (accept_client (Inl e) n)"
| node_interrupt:
    "listening n \<Longrightarrow> node_step parse pt n Outside (end_by_signal ok n)"
| node_handshake:
    "at_phase n c Handshaking \<Longrightarrow>
     node_step parse pt n Outside (on_conn c (handshake ok) n)"
| node_subscribe:
    "at_phase n c Subscribing \<Longrightarrow> sy_inner_owner n = None \<Longrightarrow>
     node_step parse pt n (ConnMoves c) (on_conn c (subscribe (sy_inner n) (sy_log n)) n)"
| node_greet:
    "at_phase n c (Greeting s) \<Longrightarrow>
     node_step parse pt n (ConnMoves c) (on_conn c (greet ok s) n)"
| node_hear:
    "at_phase n c Serving \<Longrightarrow>
     node_step parse pt n Outside (hear parse pt c msg n)"
| node_respond:
    "at_phase n c Serving \<Longrightarrow> sv_responses (nd_conns n ! c) \<noteq> [] \<Longrightarrow>
     node_step parse pt n (ConnMoves c) (on_conn c (respond ok) n)"
| node_event:
    "at_phase n c Serving \<Longrightarrow>
     broadcast_recv (sy_log n) (sv_next (nd_conns n ! c)) = Some r \<Longrightarrow>
     node_step parse pt n (ConnMoves c) (on_conn c (on_event ok r) n)"

text \<open>Runs whose steps are all allowed.\<close>

inductive node_run ::
    "(node \<Rightarrow> node_label \<Rightarrow> bool) \<Rightarrow> (string \<Rightarrow> json option) \<Rightarrow> paths \<Rightarrow> node \<Rightarrow> node \<Rightarrow> bool"
  for allowed parse pt n where
  node_refl: "node_run allowed parse pt n n"
| node_next: "node_run allowed parse pt n m \<Longrightarrow> nd_exit m = None \<Longrightarrow> allowed m l \<Longrightarrow>
    node_step parse pt m l m' \<Longrightarrow> node_run allowed parse pt n m'"

abbreviation node_reaches :: "(string \<Rightarrow> json option) \<Rightarrow> paths \<Rightarrow> node \<Rightarrow> node \<Rightarrow> bool" where
  "node_reaches \<equiv> node_run (\<lambda>_ _. True)"

text \<open>An event that a task has still to send is sent before anything else happens.\<close>

definition node_prompt :: "node \<Rightarrow> node_label \<Rightarrow> bool" where
  "node_prompt n l \<longleftrightarrow>
     (\<forall>j < length (sy_tasks n). sends (sy_tasks n ! j) \<longrightarrow> l = TaskMoves j)"

lemma node_run_mono:
  "node_run p parse pt n m \<Longrightarrow> (\<And>n l. p n l \<Longrightarrow> q n l) \<Longrightarrow> node_run q parse pt n m"
  by (induction rule: node_run.induct) (auto intro: node_run.intros)

section \<open>The tasks of the daemon\<close>

lemma on_conn_simps [simp]:
  "sy_inner (on_conn c f n) = sy_inner n" "sy_tasks (on_conn c f n) = sy_tasks n"
  "sy_inner_owner (on_conn c f n) = sy_inner_owner n"
  "sy_mutation_owner (on_conn c f n) = sy_mutation_owner n"
  "sy_log (on_conn c f n) = sy_log n" "nd_exit (on_conn c f n) = nd_exit n"
  "nd_conns (on_conn c f n) = (nd_conns n)[c := f (nd_conns n ! c)]"
  "erase (on_conn c f n) = erase n"
  by (simp_all add: on_conn_def erase_def)

lemma resume_simps [simp]:
  "sy_tasks (resume j p s) = (sy_tasks s)[j := p]" "sy_inner (resume j p s) = sy_inner s"
  "sy_inner_owner (resume j p s) = sy_inner_owner s" "sy_log (resume j p s) = sy_log s"
  "sy_mutation_owner (resume j p s) = sy_mutation_owner s"
  "nd_conns (resume j p n) = nd_conns n" "nd_exit (resume j p n) = nd_exit n"
  by (simp_all add: resume_def)

lemma erase_spawned [simp]: "map_task (\<lambda>_. ()) (spawned_job pt job) = job_task pt job"
  by (simp add: spawned_job_def task.map_comp comp_def)

lemma erase_boot: "map_task (\<lambda>_. ()) (boot_run pt) = boot_task pt"
  by (simp add: boot_run_def boot_task_def erase_bind)

lemma erase_init: "erase (node_init pt config) = sys_init pt config"
  by (simp add: erase_def node_init_def sys_init_def erase_boot)

text \<open>To the rest of the daemon a text that is no request is a request that is not valid.\<close>

lemma erase_serve_text: "\<exists>r. map_task (\<lambda>_. ()) (serve_text parse pt c text) = request_task pt r"
proof -
  have "\<exists>r. bind_task (dispatch_request parse request_of_json pt text) (\<lambda>_. Return ()) =
    request_task pt r"
  proof (cases "\<exists>v r. parse text = Some v \<and> request_of_json v = Some r")
    case True
    then show ?thesis by (auto simp: dispatch_request_def request_task_def)
  next
    case False
    have "request_task pt \<lparr>rq_id = [], rq_target = None, rq_operation = NodeListChannels\<rparr> = Return ()"
      by (simp add: request_task_def handle_request_def validate_request_def)
    then show ?thesis
      using False by (intro exI [of _ "\<lparr>rq_id = [], rq_target = None, rq_operation = NodeListChannels\<rparr>"])
        (auto simp: dispatch_request_def split: option.splits)
  qed
  then show ?thesis by (simp add: serve_text_def erase_bind)
qed

lemma task_step_node:
  "task_step spawned (n :: node) j n' \<Longrightarrow> nd_conns n' = nd_conns n \<and> nd_exit n' = nd_exit n"
  by (cases rule: task_step.cases) (auto simp: resume_def)

section \<open>A run of the served daemon is a run of its tasks\<close>

text \<open>What the abstract system makes of a step.\<close>

definition abstract_step :: "paths \<Rightarrow> node \<Rightarrow> node_label \<Rightarrow> node \<Rightarrow> bool" where
  "abstract_step pt n l n' \<longleftrightarrow>
     erase n' = erase n \<or>
     (\<exists>j. l = TaskMoves j \<and> sys_step pt (erase n) (Some j) (erase n')) \<or>
     (l = Outside \<and> sys_step pt (erase n) None (erase n'))"

lemma listening_not_booting: "sy_tasks n \<noteq> [] \<Longrightarrow> listening n \<Longrightarrow> \<not> booting (erase n)"
  by (cases "sy_tasks n") (auto simp: listening_def booting_def)

lemma erase_deliver:
  assumes "j < length (sy_tasks (n :: node))" and "sy_tasks n ! j = Return x"
  shows "erase (resume j (Return y) n) = erase n"
proof -
  have "map_task (\<lambda>_. ()) (sy_tasks n ! j) = Return ()" using assms by simp
  then have "(map (map_task (\<lambda>_. ())) (sy_tasks n))[j := Return ()] = map (map_task (\<lambda>_. ())) (sy_tasks n)"
    using assms(1) by (metis list_update_id nth_map)
  then show ?thesis by (simp add: erase_def map_update)
qed

text \<open>Clients are accepted only after the start.\<close>

definition node_ok :: "node \<Rightarrow> bool" where
  "node_ok n \<longleftrightarrow> sy_tasks n \<noteq> [] \<and> (nd_conns n = [] \<or> listening n)"

lemma listening_step:
  assumes "node_step parse pt n l n'" and "sy_tasks n \<noteq> []"
  shows "sy_tasks n' \<noteq> [] \<and> (listening n \<longrightarrow> listening n')"
  using assms(1)
proof cases
  case (node_task j)
  then show ?thesis
    using task_step_results [OF node_task(2)] assms(2)
    by (cases "j = 0") (auto simp: listening_def nth_append)
next
  case (node_deliver j c m)
  then show ?thesis using assms(2) by (cases "j = 0") (auto simp: listening_def)
next
  case (node_hear c msg)
  then show ?thesis
    using assms(2) by (auto simp: listening_def hear_def Let_def nth_append split: option.splits)
qed (use assms(2) in \<open>auto simp: listening_def\<close>)

lemma node_step_ok:
  assumes "node_step parse pt n l n'" and "node_ok n"
  shows "node_ok n'"
  using assms(1) listening_step [OF assms(1)] assms(2)
  by cases (auto simp: node_ok_def at_phase_def hear_def Let_def dest: task_step_node
      split: option.splits)

lemma node_step_abstract:
  assumes "node_step parse pt n l n'" and "node_ok n"
  shows "abstract_step pt n l n'"
  using assms(1)
proof cases
  case (node_task j)
  then show ?thesis
    using erase_step [OF node_task(2), of "job_task pt"] by (auto simp: abstract_step_def)
next
  case (node_deliver j c m)
  then show ?thesis by (simp add: abstract_step_def erase_deliver)
next
  case (node_hear c msg)
  have boot: "\<not> booting (erase n)"
    using assms(2) node_hear listening_not_booting by (auto simp: node_ok_def at_phase_def)
  show ?thesis
  proof (cases "snd (on_message msg (nd_conns n ! c))")
    case None
    then show ?thesis using node_hear by (simp add: abstract_step_def hear_def Let_def)
  next
    case (Some t)
    obtain r where "map_task (\<lambda>_. ()) (serve_text parse pt c t) = request_task pt r"
      using erase_serve_text by blast
    then have "erase n' = (erase n)\<lparr>sy_tasks := sy_tasks (erase n) @ [request_task pt r]\<rparr>"
      using node_hear Some by (simp add: hear_def Let_def erase_def)
    then have "sys_step pt (erase n) None (erase n')"
      using step_request [OF boot, of pt r] by simp
    then show ?thesis using node_hear by (simp add: abstract_step_def)
  qed
qed (auto simp: abstract_step_def erase_def)

lemma node_init_ok: "node_ok (node_init pt config)"
  by (simp add: node_ok_def node_init_def)

lemma node_run_ok: "node_run allowed parse pt n m \<Longrightarrow> node_ok n \<Longrightarrow> node_ok m"
  by (induction rule: node_run.induct) (auto intro: node_step_ok)

section \<open>What a client of a connection receives\<close>

definition frame_events :: "frame list \<Rightarrow> event list" where
  "frame_events fs =
     concat (map (\<lambda>f. case f of EventFrame e \<Rightarrow> [e] | ResponseFrame _ \<Rightarrow> []) fs)"

abbreviation written_events :: "served \<Rightarrow> event list" where
  "written_events c \<equiv> frame_events (sv_written c)"

lemma frame_events_simps [simp]:
  "frame_events [] = []" "frame_events (fs @ gs) = frame_events fs @ frame_events gs"
  "frame_events (EventFrame e # fs) = e # frame_events fs"
  "frame_events (ResponseFrame m # fs) = frame_events fs"
  by (simp_all add: frame_events_def)

text \<open>The frames of a connection: a snapshot first, and among the later ones these events.\<close>

definition opens :: "served \<Rightarrow> snapshot \<Rightarrow> event list \<Rightarrow> bool" where
  "opens c s es \<longleftrightarrow>
     (\<exists>fs. sv_written c = EventFrame (SnapshotEvent s) # fs \<and> frame_events fs = es)"

text \<open>The events are all that were sent after the first \<open>b\<close>, up to the position of the
  receiver; \<open>s\<close> and \<open>b\<close> have a common origin.\<close>

definition stream_ok :: "(snapshot \<Rightarrow> nat \<Rightarrow> bool) \<Rightarrow> event list \<Rightarrow> served \<Rightarrow> bool" where
  "stream_ok origin sent c \<longleftrightarrow>
     (case sv_phase c of
        Handshaking \<Rightarrow> sv_written c = []
      | Subscribing \<Rightarrow> sv_written c = []
      | Greeting s \<Rightarrow> sv_written c = [] \<and> origin s (sv_next c) \<and> sv_next c \<le> length sent
      | Serving \<Rightarrow> (\<exists>s b. origin s b \<and> b \<le> sv_next c \<and> sv_next c \<le> length sent \<and>
          opens c s (take (sv_next c - b) (drop b sent)))
      | Over _ \<Rightarrow> sv_written c = [] \<or>
          (\<exists>s b k. origin s b \<and> b + k \<le> length sent \<and> opens c s (take k (drop b sent))))"

lemma opens_events: "opens c s es \<Longrightarrow> written_events c = SnapshotEvent s # es"
  by (auto simp: opens_def)

lemma opens_same: "opens c s es \<Longrightarrow> sv_written c' = sv_written c \<Longrightarrow> opens c' s es"
  by (simp add: opens_def)

lemma opens_event: "opens c s es \<Longrightarrow> sv_written c' = sv_written c @ [EventFrame e] \<Longrightarrow>
   opens c' s (es @ [e])"
  by (auto simp: opens_def)

lemma opens_response: "opens c s es \<Longrightarrow> sv_written c' = sv_written c @ [ResponseFrame m] \<Longrightarrow>
   opens c' s es"
  by (auto simp: opens_def)

lemma segment_longer: "b + k \<le> length xs \<Longrightarrow> take k (drop b (xs @ ys)) = take k (drop b xs)"
  by (simp add: take_drop)

lemma stream_longer:
  assumes "stream_ok origin sent c" and "\<And>s b. origin s b \<Longrightarrow> origin' s b"
  shows "stream_ok origin' (sent @ es) c"
proof (cases "sv_phase c")
  case Serving
  then obtain s b where "origin s b" "b \<le> sv_next c" "sv_next c \<le> length sent"
    "opens c s (take (sv_next c - b) (drop b sent))"
    using assms(1) by (auto simp: stream_ok_def)
  then show ?thesis
    using Serving assms(2) segment_longer [of b "sv_next c - b" sent es]
    by (auto simp: stream_ok_def intro!: exI [of _ s] exI [of _ b])
next
  case (Over r)
  show ?thesis
  proof (cases "sv_written c = []")
    case False
    then obtain s b k where "origin s b" "b + k \<le> length sent" "opens c s (take k (drop b sent))"
      using assms(1) Over by (auto simp: stream_ok_def)
    then have "origin' s b \<and> b + k \<le> length (sent @ es) \<and> opens c s (take k (drop b (sent @ es)))"
      using assms(2) segment_longer [of b k sent es] by simp
    then show ?thesis using Over unfolding stream_ok_def by auto
  qed (simp add: stream_ok_def Over)
qed (use assms in \<open>auto simp: stream_ok_def\<close>)

lemma stream_subscribe: "stream_ok origin sent c \<Longrightarrow> sv_phase c = Subscribing \<Longrightarrow>
   origin (snapshot_from i) (length sent) \<Longrightarrow> stream_ok origin sent (subscribe i sent c)"
  by (simp add: stream_ok_def subscribe_def)

lemmas conn_defs = send_event_def send_response_def send_frame_def finish_def respond_def greet_def
  handshake_def deliver_def over_def

lemma stream_greet: "stream_ok origin sent c \<Longrightarrow> sv_phase c = Greeting s \<Longrightarrow>
   stream_ok origin sent (greet ok s c)"
  by (cases ok) (auto simp: stream_ok_def conn_defs opens_def)

lemma stream_over:
  assumes "stream_ok origin sent c" and "sv_phase c = Serving" and "sv_written c' = sv_written c"
    and "sv_phase c' = Over r"
  shows "stream_ok origin sent c'"
proof -
  obtain s b where "origin s b" "b \<le> sv_next c" "sv_next c \<le> length sent"
    "opens c s (take (sv_next c - b) (drop b sent))"
    using assms(1,2) by (auto simp: stream_ok_def)
  then have "origin s b \<and> b + (sv_next c - b) \<le> length sent \<and>
      opens c' s (take (sv_next c - b) (drop b sent))"
    using opens_same assms(3) by auto
  then show ?thesis using assms(4) unfolding stream_ok_def by auto
qed

lemma stream_serving:
  assumes "stream_ok origin sent c" and "sv_phase c = Serving" and "sv_phase c' = Serving"
    and "sv_next c' = sv_next c" and "\<And>s es. opens c s es \<Longrightarrow> opens c' s es"
  shows "stream_ok origin sent c'"
  using assms by (auto simp: stream_ok_def)

lemma stream_message:
  assumes "stream_ok origin sent c" and "sv_phase c = Serving"
  shows "stream_ok origin sent (fst (on_message msg c))"
  using stream_over [OF assms] stream_serving [OF assms] assms opens_same
  by (cases msg) (simp_all add: finish_def opens_def)

lemma stream_respond:
  assumes "stream_ok origin sent c" and "sv_phase c = Serving"
  shows "stream_ok origin sent (respond ok c)"
proof (cases ok)
  case True
  then show ?thesis
    by (intro stream_serving [OF assms]) (auto simp: conn_defs assms(2) elim: opens_response)
next
  case False
  then show ?thesis by (intro stream_over [OF assms]) (simp_all add: conn_defs)
qed

lemma stream_deliver: "stream_ok origin sent c \<Longrightarrow> stream_ok origin sent (deliver m c)"
  by (simp add: deliver_def stream_ok_def opens_def split: serve_phase.splits)

lemma stream_event:
  assumes ok: "stream_ok origin sent c" and p: "sv_phase c = Serving"
    and recv: "broadcast_recv sent (sv_next c) = Some r"
  shows "stream_ok origin sent (on_event ok r c)"
proof (cases "ok \<and> (\<exists>e. r = Received e)")
  case True
  then obtain e where e: "r = Received e" "ok" by blast
  then have pos: "sv_next c < length sent" "sent ! sv_next c = e"
    using recv by (auto simp: broadcast_recv_def split: if_splits)
  obtain s b where sb: "origin s b" "b \<le> sv_next c"
    "opens c s (take (sv_next c - b) (drop b sent))"
    using ok p by (auto simp: stream_ok_def)
  have "take (Suc (sv_next c) - b) (drop b sent) = take (sv_next c - b) (drop b sent) @ [e]"
    using pos sb(2) by (simp add: Suc_diff_le take_Suc_conv_app_nth)
  then have "opens (on_event ok r c) s (take (Suc (sv_next c) - b) (drop b sent))"
    using opens_event [OF sb(3)] e by (simp add: conn_defs)
  then show ?thesis
    using sb pos e p by (auto simp: stream_ok_def conn_defs intro!: exI [of _ s] exI [of _ b])
next
  case False
  have "\<exists>q. sv_phase (on_event ok r c) = Over q"
    using False by (cases r) (auto simp: conn_defs)
  moreover have "sv_written (on_event ok r c) = sv_written c"
    using False by (cases r) (auto simp: conn_defs)
  ultimately show ?thesis using stream_over [OF ok p] by blast
qed

section \<open>Runs and their abstraction\<close>

text \<open>A snapshot \<open>s\<close> and a number \<open>b\<close> of events that belong to one state on the way to \<open>n\<close>.\<close>

definition origin_of ::
    "(paths \<Rightarrow> system \<Rightarrow> system \<Rightarrow> bool) \<Rightarrow> (system \<Rightarrow> bool) \<Rightarrow> paths \<Rightarrow> daemon_config \<Rightarrow> node \<Rightarrow>
     snapshot \<Rightarrow> nat \<Rightarrow> bool" where
  "origin_of reaches still pt config n s b \<longleftrightarrow>
     (\<exists>m. reaches pt (sys_init pt config) m \<and> still m \<and> s = snapshot_from (sy_inner m) \<and>
        b = length (sy_log m) \<and> reaches pt m (erase n))"

text \<open>
  A way to restrict the runs of the served daemon: the steps that are allowed, what they are
  in the abstract system, and what holds of it when a client subscribes.
\<close>

locale restricted_runs =
  fixes allowed :: "node \<Rightarrow> node_label \<Rightarrow> bool"
    and reaches :: "paths \<Rightarrow> system \<Rightarrow> system \<Rightarrow> bool"
    and still :: "system \<Rightarrow> bool"
  assumes reaches_refl: "reaches pt s s"
    and reaches_step: "reaches pt s (erase n) \<Longrightarrow> allowed n l \<Longrightarrow> abstract_step pt n l n' \<Longrightarrow>
      reaches pt s (erase n')"
    and subscribes_still: "allowed n (ConnMoves c) \<Longrightarrow> still (erase n)"
begin

lemma run_abstract:
  assumes "node_run allowed parse pt (node_init pt config) n"
  shows "reaches pt (sys_init pt config) (erase n)"
  using assms
proof (induction rule: node_run.induct)
  case node_refl
  show ?case by (simp add: erase_init reaches_refl)
next
  case (node_next m l m')
  have "abstract_step pt m l m'"
    using node_run_ok [OF node_next.hyps(1) node_init_ok] node_step_abstract node_next.hyps(4) by blast
  then show ?case using node_next reaches_step by blast
qed

lemma streams_step:
  assumes "node_step parse pt n l n'" and "allowed n l" and "node_ok n"
    and "reaches pt (sys_init pt config) (erase n)"
    and "\<forall>c \<in> set (nd_conns n). stream_ok (origin_of reaches still pt config n) (sy_log n) c"
  shows "\<forall>c \<in> set (nd_conns n'). stream_ok (origin_of reaches still pt config n') (sy_log n') c"
proof -
  have abs: "abstract_step pt n l n'" using node_step_abstract assms(1,3) by blast
  have mono: "origin_of reaches still pt config n s b \<Longrightarrow> origin_of reaches still pt config n' s b" for s b
    using reaches_step assms(2) abs unfolding origin_of_def by blast
  have old: "stream_ok (origin_of reaches still pt config n') (sy_log n @ es) c" if "c \<in> set (nd_conns n)" for c es
    using stream_longer [of "origin_of reaches still pt config n" "sy_log n" c] assms(5) that mono by blast
  have keep: "\<forall>c \<in> set ((nd_conns n)[i := c']). stream_ok (origin_of reaches still pt config n') (sy_log n) c"
    if "stream_ok (origin_of reaches still pt config n') (sy_log n) c'" for i c'
    using that old [of _ "[]"] set_update_subset_insert by fastforce
  have at: "stream_ok (origin_of reaches still pt config n') (sy_log n) (nd_conns n ! i)"
    if "at_phase n i p" for i p
    using that old [of _ "[]"] by (simp add: at_phase_def)
  have phase: "sv_phase (nd_conns n ! i) = p" if "at_phase n i p" for i p
    using that by (simp add: at_phase_def)
  have put: "?thesis" if "n' = on_conn i f n"
    and "stream_ok (origin_of reaches still pt config n') (sy_log n) (f (nd_conns n ! i))" for i f
    using keep [OF that(2), of i] by (simp only: that(1) on_conn_simps)
  show ?thesis
    using assms(1)
  proof cases
    case (node_task j)
    then show ?thesis
      using old task_step_log [OF node_task(2)] task_step_node [OF node_task(2)] by auto
  next
    case (node_deliver j c m)
    then have "stream_ok (origin_of reaches still pt config n') (sy_log n) (deliver m (nd_conns n ! c))"
      using stream_deliver old [of _ "[]"] by (metis append_Nil2 nth_mem)
    then show ?thesis using keep node_deliver by simp
  next
    case node_accept
    then show ?thesis
      using old [of _ "[]"] by (auto simp: stream_ok_def new_served_def)
  next
    case (node_handshake c ok)
    have "stream_ok (origin_of reaches still pt config n') (sy_log n) (handshake ok (nd_conns n ! c))"
      using at [OF node_handshake(3)] node_handshake(3)
      by (auto simp: stream_ok_def conn_defs at_phase_def)
    with node_handshake(2) show ?thesis by (rule put)
  next
    case (node_subscribe c)
    have "origin_of reaches still pt config n (snapshot_from (sy_inner n)) (length (sy_log n))"
      using assms(2,4) node_subscribe(1) subscribes_still reaches_refl unfolding origin_of_def
      by (intro exI [of _ "erase n"]) auto
    then have "stream_ok (origin_of reaches still pt config n') (sy_log n)
        (subscribe (sy_inner n) (sy_log n) (nd_conns n ! c))"
      using stream_subscribe [OF at [OF node_subscribe(3)]] mono node_subscribe(3)
      by (simp only: at_phase_def)
    with node_subscribe(2) show ?thesis by (rule put)
  next
    case (node_greet c s ok)
    show ?thesis
      by (rule put [OF node_greet(2) stream_greet [OF at phase]]) (rule node_greet(3))+
  next
    case (node_hear c msg)
    have "stream_ok (origin_of reaches still pt config n') (sy_log n)
        (fst (on_message msg (nd_conns n ! c)))"
      by (rule stream_message [OF at phase]) (rule node_hear(3))+
    then show ?thesis
      using keep node_hear by (simp add: hear_def Let_def split: option.splits)
  next
    case (node_respond c ok)
    show ?thesis
      by (rule put [OF node_respond(2) stream_respond [OF at phase]]) (rule node_respond(3))+
  next
    case (node_event c r ok)
    show ?thesis
      by (rule put [OF node_event(2) stream_event [OF at phase node_event(4)]]) (rule node_event(3))+
  qed (use old [of _ "[]"] in simp_all)
qed

lemma streams:
  assumes "node_run allowed parse pt (node_init pt config) n"
  shows "\<forall>c \<in> set (nd_conns n). stream_ok (origin_of reaches still pt config n) (sy_log n) c"
  using assms
proof (induction rule: node_run.induct)
  case node_refl
  show ?case by (simp add: node_init_def)
next
  case (node_next m l m')
  show ?case
    using streams_step [OF node_next.hyps(4,3) node_run_ok [OF node_next.hyps(1) node_init_ok]
        run_abstract [OF node_next.hyps(1)] node_next.IH] .
qed

end

interpretation any: restricted_runs "\<lambda>_ _. True" sys_reaches "\<lambda>_. True"
  by unfold_locales (auto simp: abstract_step_def simp del: sys_step_task intro: sys_reaches.intros)

lemma node_prompt_abstract:
  assumes "prompt_reaches pt s (erase n)" and "node_prompt n l" and "abstract_step pt n l n'"
  shows "prompt_reaches pt s (erase n')"
proof -
  have "prompt (erase n) (Some j)" if "l = TaskMoves j" for j
    using assms(2) that by (auto simp: prompt_def node_prompt_def)
  moreover have "prompt (erase n) None" if "l = Outside"
    using assms(2) that by (auto simp: prompt_def node_prompt_def)
  ultimately show ?thesis
    using assms(1,3) unfolding abstract_step_def by (metis prompt_step)
qed

interpretation prompted: restricted_runs node_prompt prompt_reaches no_pending
proof
  fix n c
  assume "node_prompt n (ConnMoves c)"
  then show "no_pending (erase n)"
    by (auto simp: node_prompt_def no_pending_def in_set_conv_nth)
qed (auto intro: prompt_refl node_prompt_abstract)

end
