(* ===== verification/Served.thy ===== *)
theory Served
  imports Serving "HOL-Library.Multiset"
begin

text \<open>
  What the served daemon keeps: every response answers a text that was read, at most once,
  and until nothing is left to do some task or some connection can move.
\<close>

section \<open>Identifiers of responses\<close>

text \<open>The id that the response to a text carries.\<close>

definition frame_id :: "(string \<Rightarrow> json option) \<Rightarrow> string \<Rightarrow> string" where
  "frame_id parse text =
     (case parse text of
        None \<Rightarrow> []
      | Some v \<Rightarrow> (case request_of_json v of None \<Rightarrow> request_id_of v | Some r \<Rightarrow> rq_id r))"

lemma outcome_response_id [simp]: "response_id (outcome_response i r) = i"
  by (cases r) (simp_all add: outcome_response_def)

definition replies_to :: "nat \<Rightarrow> string \<Rightarrow> reply set" where
  "replies_to c i = {Reply c m |m. response_id m = i}"

lemma serve_text_results:
  "set_task (serve_text parse pt c text) \<subseteq> replies_to c (frame_id parse text)"
  by (auto simp: replies_to_def serve_text_def dispatch_request_def handle_request_def frame_id_def
      split: option.splits sum.splits)

lemma spawned_results: "set_task (spawned_job pt job) \<subseteq> {Quiet}"
  by (auto simp: spawned_job_def task.set_map)

lemma boot_results: "set_task (boot_run pt) \<subseteq> {Quiet} \<union> range BootFailed"
  by (auto simp: boot_run_def split: sum.splits)

section \<open>What a connection owes\<close>

definition frame_responses :: "frame list \<Rightarrow> response_fault response list" where
  "frame_responses fs =
     concat (map (\<lambda>f. case f of EventFrame _ \<Rightarrow> [] | ResponseFrame m \<Rightarrow> [m]) fs)"

lemma frame_responses_simps [simp]:
  "frame_responses [] = []" "frame_responses (fs @ gs) = frame_responses fs @ frame_responses gs"
  "frame_responses (EventFrame e # fs) = frame_responses fs"
  "frame_responses (ResponseFrame m # fs) = m # frame_responses fs"
  by (simp_all add: frame_responses_def)

definition answered_ids :: "served \<Rightarrow> string multiset" where
  "answered_ids s = mset (map response_id (frame_responses (sv_written s)))"

definition queued_ids :: "served \<Rightarrow> string multiset" where
  "queued_ids s = mset (map response_id (sv_responses s))"

definition asked_ids :: "(string \<Rightarrow> json option) \<Rightarrow> served \<Rightarrow> string multiset" where
  "asked_ids parse s = mset (map (frame_id parse) (sv_read s))"

text \<open>A task that serves a text: its number, its connection, the id of its response.\<close>

type_synonym pending = "nat \<times> nat \<times> string"

definition pending_ids :: "nat \<Rightarrow> pending list \<Rightarrow> string multiset" where
  "pending_ids c ps = mset (map (\<lambda>p. snd (snd p)) (filter (\<lambda>p. fst (snd p) = c) ps))"

lemma pending_ids_simps [simp]:
  "pending_ids c [] = {#}"
  "pending_ids c ((j, d, i) # ps) = (if d = c then add_mset i (pending_ids c ps) else pending_ids c ps)"
  by (simp_all add: pending_ids_def)

definition started :: "served \<Rightarrow> bool" where
  "started s \<longleftrightarrow> sv_phase s = Serving \<or> over s"

definition balanced :: "(string \<Rightarrow> json option) \<Rightarrow> string multiset \<Rightarrow> served \<Rightarrow> bool" where
  "balanced parse ids s \<longleftrightarrow>
     (started s \<or> sv_read s = []) \<and>
     (if over s then answered_ids s \<subseteq># asked_ids parse s
      else answered_ids s + queued_ids s + ids = asked_ids parse s)"

definition results_of :: "nat \<Rightarrow> reply set" where
  "results_of j = {Quiet} \<union> (if j = 0 then range BootFailed else {})"

definition jobs_ok :: "node \<Rightarrow> pending list \<Rightarrow> bool" where
  "jobs_ok n ps \<longleftrightarrow>
     distinct (map fst ps) \<and>
     (\<forall>(j, c, i) \<in> set ps. j < length (sy_tasks n) \<and> c < length (nd_conns n) \<and>
        set_task (sy_tasks n ! j) \<subseteq> replies_to c i) \<and>
     (\<forall>j < length (sy_tasks n). j \<notin> fst ` set ps \<longrightarrow>
        set_task (sy_tasks n ! j) \<subseteq> results_of j)"

definition answers_ok :: "(string \<Rightarrow> json option) \<Rightarrow> node \<Rightarrow> pending list \<Rightarrow> bool" where
  "answers_ok parse n ps \<longleftrightarrow>
     sy_tasks n \<noteq> [] \<and> jobs_ok n ps \<and>
     (\<forall>c < length (nd_conns n). balanced parse (pending_ids c ps) (nd_conns n ! c))"

lemma balanced_same:
  assumes "balanced parse ids s" and "started s \<longrightarrow> started s'" and "over s' = over s"
    and "sv_read s' = sv_read s" and "frame_responses (sv_written s') = frame_responses (sv_written s)"
    and "sv_responses s' = sv_responses s"
  shows "balanced parse ids s'"
proof -
  have "answered_ids s' = answered_ids s" "queued_ids s' = queued_ids s"
    "asked_ids parse s' = asked_ids parse s"
    using assms(4-6) by (simp_all add: answered_ids_def queued_ids_def asked_ids_def)
  then show ?thesis using assms(1-4) by (auto simp: balanced_def split: if_splits)
qed

lemma balanced_over:
  assumes "balanced parse ids s" and "over s'" and "sv_read s' = sv_read s"
    and "frame_responses (sv_written s') = frame_responses (sv_written s)"
  shows "balanced parse ids' s'"
proof -
  have "answered_ids s \<subseteq># asked_ids parse s"
    using assms(1) unfolding balanced_def
    by (metis mset_subset_eq_add_left union_assoc)
  then show ?thesis using assms by (simp add: balanced_def started_def answered_ids_def asked_ids_def)
qed

lemma over_simps [simp]:
  "over (s\<lparr>sv_phase := p\<rparr>) = (case p of Over _ \<Rightarrow> True | _ \<Rightarrow> False)"
  "over (s\<lparr>sv_next := k\<rparr>) = over s" "over (s\<lparr>sv_responses := ms\<rparr>) = over s"
  "over (s\<lparr>sv_read := ts\<rparr>) = over s" "over (s\<lparr>sv_written := fs\<rparr>) = over s"
  by (simp_all add: over_def)

lemma over_phase: "sv_phase s = p \<Longrightarrow> over s = (case p of Over _ \<Rightarrow> True | _ \<Rightarrow> False)"
  by (simp add: over_def)

lemmas send_defs = send_event_def send_response_def send_frame_def finish_def

lemma balanced_handshake: "balanced parse ids s \<Longrightarrow> sv_phase s = Handshaking \<Longrightarrow>
   balanced parse ids (handshake ok s)"
  by (cases ok; simp add: handshake_def finish_def; erule balanced_same balanced_over)
    (auto simp: started_def over_phase)

lemma balanced_subscribe: "balanced parse ids s \<Longrightarrow> sv_phase s = Subscribing \<Longrightarrow>
   balanced parse ids (subscribe i sent s)"
  unfolding subscribe_def by (erule balanced_same) (auto simp: started_def over_phase)

lemma balanced_greet: "balanced parse ids s \<Longrightarrow> sv_phase s = Greeting sn \<Longrightarrow>
   balanced parse ids (greet ok sn s)"
  by (cases ok; simp add: greet_def send_defs; erule balanced_same balanced_over)
    (auto simp: started_def over_phase)

lemma balanced_event: "balanced parse ids s \<Longrightarrow> sv_phase s = Serving \<Longrightarrow>
   balanced parse ids (on_event ok r s)"
  by (cases r; cases ok; simp add: send_defs; erule balanced_same balanced_over)
    (auto simp: started_def over_phase)

lemma balanced_silent: "balanced parse ids s \<Longrightarrow> sv_phase s = Serving \<Longrightarrow>
   snd (on_message msg s) = None \<Longrightarrow> balanced parse ids (fst (on_message msg s))"
  by (cases msg; simp add: finish_def; erule balanced_over) simp_all

lemma balanced_respond:
  assumes "balanced parse ids s" and "sv_phase s = Serving" and "sv_responses s \<noteq> []"
  shows "balanced parse ids (respond ok s)"
proof (cases ok)
  case True
  obtain m ms where "sv_responses s = m # ms" using assms(3) by (cases "sv_responses s") auto
  then show ?thesis
    using assms(1,2) True
    by (simp add: balanced_def respond_def send_defs started_def over_phase answered_ids_def queued_ids_def
        asked_ids_def)
next
  case False
  then show ?thesis
    using assms(1) unfolding respond_def send_defs by (simp, elim balanced_over) simp_all
qed

lemma balanced_text:
  assumes "balanced parse ids s" and "sv_phase s = Serving"
  shows "balanced parse (add_mset (frame_id parse text) ids) (s\<lparr>sv_read := sv_read s @ [text]\<rparr>)"
  using assms by (simp add: balanced_def started_def over_phase answered_ids_def queued_ids_def asked_ids_def)

lemma balanced_deliver:
  assumes "balanced parse (add_mset (response_id m) ids) s"
  shows "balanced parse ids (deliver m s)"
  using assms
  by (auto simp: balanced_def deliver_def started_def answered_ids_def queued_ids_def asked_ids_def)

lemma balanced_new: "balanced parse {#} new_served"
  by (simp add: balanced_def new_served_def started_def over_def answered_ids_def queued_ids_def asked_ids_def)

section \<open>Each step keeps the balance\<close>

lemma jobs_okI:
  assumes "distinct (map fst ps)"
    and "\<And>j c i. (j, c, i) \<in> set ps \<Longrightarrow> j < length (sy_tasks n) \<and> c < length (nd_conns n) \<and>
      set_task (sy_tasks n ! j) \<subseteq> replies_to c i"
    and "\<And>j. j < length (sy_tasks n) \<Longrightarrow> j \<notin> fst ` set ps \<Longrightarrow> set_task (sy_tasks n ! j) \<subseteq> results_of j"
  shows "jobs_ok n ps"
  using assms unfolding jobs_ok_def by blast

lemma jobs_okD:
  assumes "jobs_ok n ps"
  shows "distinct (map fst ps)"
    and "(j, c, i) \<in> set ps \<Longrightarrow> j < length (sy_tasks n) \<and> c < length (nd_conns n) \<and>
      set_task (sy_tasks n ! j) \<subseteq> replies_to c i"
    and "j < length (sy_tasks n) \<Longrightarrow> j \<notin> fst ` set ps \<Longrightarrow> set_task (sy_tasks n ! j) \<subseteq> results_of j"
  using assms unfolding jobs_ok_def by blast+

lemma jobs_task:
  assumes ok: "jobs_ok n ps" and step: "task_step (spawned_job pt) n j n'"
    and same: "nd_conns n' = nd_conns n"
  shows "jobs_ok n' ps"
proof (rule jobs_okI)
  obtain p new where tasks: "sy_tasks n' = (sy_tasks n)[j := p] @ new" "j < length (sy_tasks n)"
    and p: "set_task p \<subseteq> set_task (sy_tasks n ! j)"
    and jobs: "\<forall>q \<in> set new. \<exists>job. q = spawned_job pt job"
    using task_step_results [OF step] by blast
  have new: "set_task q \<subseteq> {Quiet}" if "q \<in> set new" for q
    using jobs that spawned_results by metis
  have old: "set_task (sy_tasks n' ! k) \<subseteq> set_task (sy_tasks n ! k)" if "k < length (sy_tasks n)" for k
    using that tasks p by (cases "k = j") (simp_all add: nth_append)
  show "distinct (map fst ps)" by (rule jobs_okD(1) [OF ok])
  show "k < length (sy_tasks n') \<and> c < length (nd_conns n') \<and>
      set_task (sy_tasks n' ! k) \<subseteq> replies_to c i" if "(k, c, i) \<in> set ps" for k c i
    using jobs_okD(2) [OF ok that] old [of k] tasks(1) same by auto
  show "set_task (sy_tasks n' ! k) \<subseteq> results_of k"
    if "k < length (sy_tasks n')" "k \<notin> fst ` set ps" for k
  proof (cases "k < length (sy_tasks n)")
    case True
    then show ?thesis using jobs_okD(3) [OF ok True that(2)] old [OF True] by (rule_tac subset_trans)
  next
    case False
    then have "sy_tasks n' ! k \<in> set new" using that(1) tasks(1) by (simp add: nth_append)
    then show ?thesis using new unfolding results_of_def by blast
  qed
qed

lemma jobs_reply:
  assumes "jobs_ok n ps" and "j < length (sy_tasks n)" and "sy_tasks n ! j = Return (Reply c m)"
  shows "(j, c, response_id m) \<in> set ps"
proof -
  have "\<not> set_task (sy_tasks n ! j) \<subseteq> results_of j"
    using assms(3) by (auto simp: results_of_def)
  then have "j \<in> fst ` set ps" using jobs_okD(3) [OF assms(1,2)] by blast
  then obtain c' i where ps: "(j, c', i) \<in> set ps" by force
  then have "set_task (sy_tasks n ! j) \<subseteq> replies_to c' i" using jobs_okD(2) [OF assms(1)] by blast
  then show ?thesis using ps assms(3) by (auto simp: replies_to_def)
qed

lemma pending_ids_remove:
  assumes "(j, c, i) \<in> set ps"
  shows "pending_ids d ps =
    (if d = c then add_mset i (pending_ids d (remove1 (j, c, i) ps))
     else pending_ids d (remove1 (j, c, i) ps))"
  using assms
proof (induction ps)
  case (Cons p ps)
  then show ?case by (cases p; cases "p = (j, c, i)") auto
qed simp

lemma answers_deliver:
  assumes ok: "answers_ok parse n ps" and j: "j < length (sy_tasks n)"
    and t: "sy_tasks n ! j = Return (Reply c m)"
    and n': "n' = on_conn c (deliver m) (resume j (Return Quiet) n)"
  shows "answers_ok parse n' (remove1 (j, c, response_id m) ps)"
proof -
  let ?p = "(j, c, response_id m)"
  let ?qs = "remove1 ?p ps"
  have jobs: "jobs_ok n ps" using ok by (simp add: answers_ok_def)
  have p: "?p \<in> set ps" using jobs_reply [OF jobs j t] .
  have dist: "distinct (map fst ps)" by (rule jobs_okD(1) [OF jobs])
  then have set: "set ?qs = set ps - {?p}" by (simp add: distinct_map)
  have only: "q = ?p" if "q \<in> set ps" "fst q = j" for q
    using that p dist by (auto simp: distinct_map inj_on_def)
  have tasks: "sy_tasks n' = (sy_tasks n)[j := Return Quiet]"
    and conns: "nd_conns n' = (nd_conns n)[c := deliver m (nd_conns n ! c)]"
    by (simp_all add: n')
  have "jobs_ok n' ?qs"
  proof (rule jobs_okI)
    show "distinct (map fst ?qs)" using dist by (simp add: distinct_map inj_on_def set)
    show "k < length (sy_tasks n') \<and> d < length (nd_conns n') \<and>
        set_task (sy_tasks n' ! k) \<subseteq> replies_to d i" if "(k, d, i) \<in> set ?qs" for k d i
    proof -
      have "(k, d, i) \<in> set ps" "(k, d, i) \<noteq> ?p" using that unfolding set by blast+
      moreover from this have "k \<noteq> j" using only by fastforce
      ultimately show ?thesis using jobs_okD(2) [OF jobs] by (simp add: tasks conns)
    qed
    show "set_task (sy_tasks n' ! k) \<subseteq> results_of k"
      if "k < length (sy_tasks n')" "k \<notin> fst ` set ?qs" for k
    proof (cases "k = j")
      case True
      then show ?thesis using j by (simp add: tasks results_of_def)
    next
      case False
      then have "k \<notin> fst ` set ps" using that(2) unfolding set by force
      then show ?thesis using jobs_okD(3) [OF jobs, of k] that(1) False by (simp add: tasks)
    qed
  qed
  moreover have "balanced parse (pending_ids d ?qs) (nd_conns n' ! d)" if "d < length (nd_conns n)" for d
  proof -
    have old: "balanced parse (pending_ids d ps) (nd_conns n ! d)"
      using ok that by (simp add: answers_ok_def)
    show ?thesis
    proof (cases "d = c")
      case True
      then have "balanced parse (add_mset (response_id m) (pending_ids d ?qs)) (nd_conns n ! d)"
        using old pending_ids_remove [OF p, of d] by simp
      from balanced_deliver [OF this] show ?thesis using True that by (simp add: conns)
    next
      case False
      then show ?thesis using old pending_ids_remove [OF p, of d] by (simp add: conns)
    qed
  qed
  ultimately show ?thesis using ok by (simp add: answers_ok_def tasks conns)
qed

lemma answers_conn:
  assumes ok: "answers_ok parse n ps"
    and "\<And>ids. balanced parse ids (nd_conns n ! c) \<Longrightarrow> balanced parse ids (f (nd_conns n ! c))"
  shows "answers_ok parse (on_conn c f n) ps"
proof -
  have "jobs_ok (on_conn c f n) ps" using ok by (simp add: answers_ok_def jobs_ok_def)
  moreover have "balanced parse (pending_ids d ps) (nd_conns (on_conn c f n) ! d)"
    if "d < length (nd_conns n)" for d
    using ok that assms(2) by (cases "d = c") (simp_all add: answers_ok_def)
  ultimately show ?thesis using ok by (simp add: answers_ok_def)
qed

lemma jobs_append:
  assumes ok: "jobs_ok n ps" and "length (nd_conns n) \<le> length (nd_conns n')"
    and tasks: "sy_tasks n' = sy_tasks n @ ts"
    and new: "\<And>j. j < length ts \<Longrightarrow> set_task (ts ! j) \<subseteq> results_of (length (sy_tasks n) + j)"
  shows "jobs_ok n' ps"
proof (rule jobs_okI)
  show "distinct (map fst ps)" by (rule jobs_okD(1) [OF ok])
  show "j < length (sy_tasks n') \<and> c < length (nd_conns n') \<and>
      set_task (sy_tasks n' ! j) \<subseteq> replies_to c i" if "(j, c, i) \<in> set ps" for j c i
    using jobs_okD(2) [OF ok that] assms(2) by (auto simp: tasks nth_append)
  show "set_task (sy_tasks n' ! j) \<subseteq> results_of j"
    if "j < length (sy_tasks n')" "j \<notin> fst ` set ps" for j
    using that jobs_okD(3) [OF ok, of j] new [of "j - length (sy_tasks n)"]
    by (cases "j < length (sy_tasks n)") (simp_all add: tasks nth_append)
qed

lemma answers_text:
  assumes ok: "answers_ok parse n ps" and c: "at_phase n c Serving"
    and f: "f (nd_conns n ! c) = (nd_conns n ! c)\<lparr>sv_read := sv_read (nd_conns n ! c) @ [tx]\<rparr>"
    and n': "n' = (on_conn c f n)\<lparr>sy_tasks := sy_tasks n @ [serve_text parse pt c tx]\<rparr>"
  shows "answers_ok parse n' ((length (sy_tasks n), c, frame_id parse tx) # ps)"
proof -
  let ?p = "(length (sy_tasks n), c, frame_id parse tx)"
  have jobs: "jobs_ok n ps" using ok by (simp add: answers_ok_def)
  have phase: "c < length (nd_conns n)" "sv_phase (nd_conns n ! c) = Serving"
    using c by (simp_all add: at_phase_def)
  have "jobs_ok n' (?p # ps)"
  proof (rule jobs_okI)
    show "distinct (map fst (?p # ps))"
      using jobs_okD(1) [OF jobs] jobs_okD(2) [OF jobs] by fastforce
    show "j < length (sy_tasks n') \<and> d < length (nd_conns n') \<and>
        set_task (sy_tasks n' ! j) \<subseteq> replies_to d i" if "(j, d, i) \<in> set (?p # ps)" for j d i
      using that jobs_okD(2) [OF jobs, of j d i] phase(1) serve_text_results [of parse pt c tx]
      by (cases "(j, d, i) = ?p") (auto simp: n' nth_append)
    show "set_task (sy_tasks n' ! j) \<subseteq> results_of j"
      if "j < length (sy_tasks n')" "j \<notin> fst ` set (?p # ps)" for j
      using that jobs_okD(3) [OF jobs, of j] by (simp add: n' nth_append)
  qed
  moreover have "balanced parse (pending_ids d (?p # ps)) (nd_conns n' ! d)"
    if "d < length (nd_conns n)" for d
  proof -
    have old: "balanced parse (pending_ids d ps) (nd_conns n ! d)"
      using ok that by (simp add: answers_ok_def)
    show ?thesis
      using balanced_text [OF old, of tx] old phase f by (cases "d = c") (simp_all add: n')
  qed
  ultimately show ?thesis using ok by (simp add: answers_ok_def n')
qed

lemma answers_step:
  assumes step: "node_step parse pt n l n'" and ok: "answers_ok parse n ps"
  shows "\<exists>ps'. answers_ok parse n' ps'"
  using step
proof cases
  case (node_task j)
  then have "answers_ok parse n' ps"
    using ok jobs_task [OF _ node_task(2)] task_step_node [OF node_task(2)]
      task_step_results [OF node_task(2)] by (auto simp: answers_ok_def)
  then show ?thesis by blast
next
  case (node_deliver j c m)
  then show ?thesis using answers_deliver [OF ok] by blast
next
  case node_accept
  have jobs: "jobs_ok n ps" using ok by (simp add: answers_ok_def)
  have none: "pending_ids (length (nd_conns n)) ps = {#}"
    using jobs_okD(2) [OF jobs] by (fastforce simp: pending_ids_def filter_empty_conv)
  have "jobs_ok n' ps"
    by (rule jobs_append [OF jobs, where ts = "[]"]) (simp_all add: node_accept)
  moreover have "balanced parse (pending_ids d ps) (nd_conns n' ! d)" if "d < length (nd_conns n')" for d
    using that ok none balanced_new [of parse]
    by (cases "d = length (nd_conns n)") (simp_all add: node_accept answers_ok_def nth_append)
  ultimately have "answers_ok parse n' ps" using ok by (simp add: answers_ok_def node_accept)
  then show ?thesis by blast
next
  case (node_hear c msg)
  show ?thesis
  proof (cases "snd (on_message msg (nd_conns n ! c))")
    case None
    then have n': "n' = on_conn c (\<lambda>s. fst (on_message msg s)) n"
      using node_hear by (simp add: hear_def Let_def)
    have "answers_ok parse n' ps"
      using node_hear(3) None unfolding n' at_phase_def
      by (intro answers_conn [OF ok] balanced_silent) simp_all
    then show ?thesis by blast
  next
    case (Some tx)
    let ?f = "\<lambda>s. s\<lparr>sv_read := sv_read s @ [tx]\<rparr>"
    have "msg = TextMessage tx" using Some by (cases msg) auto
    then have "n' = (on_conn c ?f n)\<lparr>sy_tasks := sy_tasks n @ [serve_text parse pt c tx]\<rparr>"
      using node_hear(2) by (simp add: hear_def Let_def)
    from answers_text [OF ok node_hear(3) refl this] show ?thesis by blast
  qed
next
  case (node_handshake c ok')
  have "answers_ok parse n' ps"
    using node_handshake unfolding at_phase_def
    by (simp only:, intro answers_conn [OF ok] balanced_handshake) simp_all
  then show ?thesis by blast
next
  case (node_subscribe c)
  have "answers_ok parse n' ps"
    using node_subscribe unfolding at_phase_def
    by (simp only:, intro answers_conn [OF ok] balanced_subscribe) simp_all
  then show ?thesis by blast
next
  case (node_greet c s ok')
  have "answers_ok parse n' ps"
    using node_greet unfolding at_phase_def
    by (simp only:, intro answers_conn [OF ok] balanced_greet) simp_all
  then show ?thesis by blast
next
  case (node_respond c ok')
  have "answers_ok parse n' ps"
    using node_respond unfolding at_phase_def
    by (simp only:, intro answers_conn [OF ok] balanced_respond) simp_all
  then show ?thesis by blast
next
  case (node_event c r ok')
  have "answers_ok parse n' ps"
    using node_event unfolding at_phase_def
    by (simp only:, intro answers_conn [OF ok] balanced_event) simp_all
  then show ?thesis by blast
qed (use ok in \<open>auto simp: answers_ok_def jobs_ok_def intro!: exI [of _ ps]\<close>)

lemma answers_run:
  assumes "node_run allowed parse pt (node_init pt config) n"
  shows "\<exists>ps. answers_ok parse n ps"
  using assms
proof (induction rule: node_run.induct)
  case node_refl
  have "answers_ok parse (node_init pt config) []"
    using boot_results [of pt] by (auto simp: answers_ok_def jobs_ok_def node_init_def results_of_def)
  then show ?case by blast
next
  case (node_next m l m')
  then show ?case using answers_step by blast
qed

section \<open>Progress\<close>

text \<open>Nothing is left to do: no task runs or has a response to deliver, and every connection
  has written what it has.\<close>

definition quiet_conn :: "event list \<Rightarrow> served \<Rightarrow> bool" where
  "quiet_conn sent s \<longleftrightarrow>
     (case sv_phase s of
        Handshaking \<Rightarrow> True
      | Subscribing \<Rightarrow> False
      | Greeting _ \<Rightarrow> False
      | Serving \<Rightarrow> sv_responses s = [] \<and> sv_next s = length sent
      | Over _ \<Rightarrow> True)"

definition node_idle :: "node \<Rightarrow> bool" where
  "node_idle n \<longleftrightarrow>
     (\<forall>p \<in> set (sy_tasks n). p = Return Quiet) \<and>
     (\<forall>s \<in> set (nd_conns n). quiet_conn (sy_log n) s)"

definition can_move :: "(string \<Rightarrow> json option) \<Rightarrow> paths \<Rightarrow> node \<Rightarrow> bool" where
  "can_move parse pt n \<longleftrightarrow> (\<exists>l n'. l \<noteq> Outside \<and> node_step parse pt n l n')"

lemma can_moveI: "node_step parse pt n l n' \<Longrightarrow> l \<noteq> Outside \<Longrightarrow> can_move parse pt n"
  unfolding can_move_def by blast

lemma running_moves:
  assumes "sys_ok hf (erase n)" and j: "j < length (sy_tasks n)" "\<nexists>x. sy_tasks n ! j = Return x"
  shows "can_move parse pt n"
proof -
  have "\<exists>k s'. sys_step pt (erase n) (Some k) s'"
    using progress [OF assms(1), of j] j by simp
  then obtain k s' where "task_step (job_task pt) (erase n) k s'" by auto
  then have "k < length (sy_tasks n)" "enabled n k (sy_tasks n ! k)"
    using task_step_enabled [of "job_task pt" "erase n" k s'] by auto
  then obtain n' where "task_step (spawned_job pt) n k n'" using enabled_task_step by blast
  from can_moveI [OF node_task [OF this]] show ?thesis by simp
qed

lemma queue_started:
  "balanced parse ids s \<Longrightarrow> sv_responses s \<noteq> [] \<Longrightarrow> \<not> over s \<Longrightarrow> sv_phase s = Serving"
  by (auto simp: balanced_def started_def queued_ids_def asked_ids_def)

lemma reply_moves:
  assumes ok: "answers_ok parse n ps" and j: "j < length (sy_tasks n)"
    and t: "sy_tasks n ! j = Return (Reply c m)"
  shows "can_move parse pt n"
proof -
  have "(j, c, response_id m) \<in> set ps" using jobs_reply ok j t by (auto simp: answers_ok_def)
  then have c: "c < length (nd_conns n)" using ok jobs_okD(2) by (fastforce simp: answers_ok_def)
  let ?s = "nd_conns n ! c"
  show ?thesis
  proof (cases "can_deliver ?s")
    case True
    then show ?thesis using can_moveI [OF node_deliver [OF j t c]] by simp
  next
    case False
    then have full: "\<not> over ?s" "sv_responses ?s \<noteq> []"
      by (auto simp: can_deliver_def response_capacity_def)
    moreover have "balanced parse (pending_ids c ps) ?s" using ok c by (simp add: answers_ok_def)
    ultimately have "at_phase n c Serving" using queue_started c by (simp add: at_phase_def)
    from can_moveI [OF node_respond [OF this full(2)]] show ?thesis by simp
  qed
qed

lemma returned_moves:
  assumes ok: "answers_ok parse n ps" and j: "j < length (sy_tasks n)"
    and t: "sy_tasks n ! j = Return x" "x \<noteq> Quiet"
  shows "can_move parse pt n"
proof (cases x)
  case (BootFailed e)
  have "j \<notin> fst ` set ps"
    using ok jobs_okD(2) t BootFailed by (fastforce simp: answers_ok_def replies_to_def)
  then have "j = 0"
    using ok jobs_okD(3) [of n ps j] j t BootFailed
    by (auto simp: answers_ok_def results_of_def split: if_splits)
  then show ?thesis
    using can_moveI [OF node_boot_failed] t BootFailed by auto
next
  case (Reply c m)
  then show ?thesis using reply_moves [OF ok j] t by simp
qed (use t in simp)

lemma conn_moves:
  assumes c: "c < length (nd_conns n)" and busy: "\<not> quiet_conn (sy_log n) (nd_conns n ! c)"
    and stream: "stream_ok origin (sy_log n) (nd_conns n ! c)" and free: "sy_inner_owner n = None"
  shows "can_move parse pt n"
proof (cases "sv_phase (nd_conns n ! c)")
  case Subscribing
  then show ?thesis using c can_moveI [OF node_subscribe [OF _ free]] by (auto simp: at_phase_def)
next
  case (Greeting s)
  then show ?thesis using c can_moveI [OF node_greet] by (auto simp: at_phase_def)
next
  case Serving
  then have at: "at_phase n c Serving" using c by (simp add: at_phase_def)
  show ?thesis
  proof (cases "sv_responses (nd_conns n ! c) = []")
    case True
    then have "sv_next (nd_conns n ! c) < length (sy_log n)"
      using busy Serving stream by (auto simp: quiet_conn_def stream_ok_def)
    then have "\<exists>r. broadcast_recv (sy_log n) (sv_next (nd_conns n ! c)) = Some r"
      by (simp add: broadcast_recv_def)
    then show ?thesis using can_moveI [OF node_event [OF at]] by auto
  next
    case False
    from can_moveI [OF node_respond [OF at False]] show ?thesis by simp
  qed
qed (use busy in \<open>auto simp: quiet_conn_def\<close>)

lemma node_progress:
  assumes valid: "validate_config config = Inr ()"
    and run: "node_reaches parse pt (node_init pt config) n" and busy: "\<not> node_idle n"
  shows "can_move parse pt n"
proof -
  obtain hf where hf: "sys_ok hf (erase n)"
    using reachable_ok [OF valid any.run_abstract [OF run]] by blast
  obtain ps where ps: "answers_ok parse n ps" using answers_run [OF run] by blast
  show ?thesis
  proof (cases "\<forall>p \<in> set (sy_tasks n). p = Return Quiet")
    case False
    then obtain j where j: "j < length (sy_tasks n)" "sy_tasks n ! j \<noteq> Return Quiet"
      by (metis in_set_conv_nth)
    then show ?thesis
      using running_moves [OF hf j(1)] returned_moves [OF ps j(1)] by blast
  next
    case True
    have "sy_inner_owner n = None"
    proof (rule ccontr)
      assume "sy_inner_owner n \<noteq> None"
      then obtain k where k: "sy_inner_owner (erase n) = Some k" by auto
      then have "k < length (sy_tasks n)" using hf by (auto simp: sys_ok_def not_less [symmetric])
      then show False using enabled_owner [OF hf, of k] k True by (auto simp: all_set_conv_all_nth)
    qed
    moreover obtain s where "s \<in> set (nd_conns n)" "\<not> quiet_conn (sy_log n) s"
      using busy True by (auto simp: node_idle_def)
    moreover from this(1) obtain c where "c < length (nd_conns n)" "s = nd_conns n ! c"
      by (metis in_set_conv_nth)
    ultimately show ?thesis using conn_moves any.streams [OF run] by blast
  qed
qed

section \<open>Properties\<close>

text \<open>
  C8. The served daemon does not get stuck: as long as a task is not done, a response waits to
  be delivered, or a connection has something to write, a task or a connection can move
  without any new input from a client.
\<close>

theorem served_progress:
  assumes "validate_config config = Inr ()"
    and "node_reaches parse pt (node_init pt config) n" and "\<not> node_idle n"
  shows "\<exists>l n'. l \<noteq> Outside \<and> node_step parse pt n l n'"
  using node_progress [OF assms] by (simp add: can_move_def)

text \<open>
  C9. Each response that a connection writes answers a text frame that it read, under the id of
  that frame, and no frame is answered twice; when nothing is left to do, every frame that an
  open connection read has been answered exactly once.
\<close>

theorem responses_answer_frames:
  assumes run: "node_run allowed parse pt (node_init pt config) n" and s: "s \<in> set (nd_conns n)"
  shows "answered_ids s \<subseteq># asked_ids parse s \<and>
    (node_idle n \<longrightarrow> sv_phase s = Serving \<longrightarrow> answered_ids s = asked_ids parse s)"
proof -
  obtain ps where ps: "answers_ok parse n ps" using answers_run [OF run] by blast
  obtain c where c: "c < length (nd_conns n)" "s = nd_conns n ! c" using s by (metis in_set_conv_nth)
  then have bal: "balanced parse (pending_ids c ps) s" using ps by (simp add: answers_ok_def)
  then have "answered_ids s \<subseteq># asked_ids parse s"
    unfolding balanced_def by (metis mset_subset_eq_add_left union_assoc)
  moreover have "answered_ids s = asked_ids parse s" if idle: "node_idle n" "sv_phase s = Serving"
  proof -
    have none: "ps = []"
    proof (rule ccontr)
      assume "ps \<noteq> []"
      then obtain j d i where "(j, d, i) \<in> set ps" by (metis list.set_intros(1) neq_Nil_conv prod_cases3)
      moreover have "jobs_ok n ps" using ps by (simp add: answers_ok_def)
      ultimately have "j < length (sy_tasks n)" "set_task (sy_tasks n ! j) \<subseteq> replies_to d i"
        using jobs_okD(2) by blast+
      moreover from this(1) have "sy_tasks n ! j = Return Quiet"
        using idle(1) by (simp add: node_idle_def)
      ultimately show False by (auto simp: replies_to_def)
    qed
    have "sv_responses s = []" using idle s by (auto simp: node_idle_def quiet_conn_def)
    then show ?thesis
      using bal idle(2) none by (simp add: balanced_def over_phase queued_ids_def)
  qed
  ultimately show ?thesis by blast
qed

text \<open>
  C10. What a connection writes begins with a snapshot of the daemon, before any response, and
  its events are then exactly those that were sent since that snapshot was taken, in order and
  without a gap; a connection that would have to leave one out ends instead.
\<close>

theorem connection_stream:
  assumes run: "node_reaches parse pt (node_init pt config) n" and s: "s \<in> set (nd_conns n)"
    and written: "sv_written s \<noteq> []"
  shows "\<exists>m k fs. sys_reaches pt (sys_init pt config) m \<and> sys_reaches pt m (erase n) \<and>
    sv_written s = EventFrame (SnapshotEvent (snapshot_from (sy_inner m))) # fs \<and>
    frame_events fs = take k (drop (length (sy_log m)) (sy_log n)) \<and>
    (sv_phase s = Serving \<longrightarrow> length (sy_log m) + k = sv_next s)"
proof -
  let ?o = "origin_of sys_reaches (\<lambda>_. True) pt config n"
  have ok: "stream_ok ?o (sy_log n) s" using any.streams [OF run] s by blast
  obtain sn b k where "?o sn b" "opens s sn (take k (drop b (sy_log n)))"
    "sv_phase s = Serving \<longrightarrow> b + k = sv_next s"
  proof (cases "sv_phase s")
    case Serving
    then obtain sn b where "?o sn b" "b \<le> sv_next s" "opens s sn (take (sv_next s - b) (drop b (sy_log n)))"
      using ok by (auto simp: stream_ok_def)
    then show ?thesis using that [of sn b "sv_next s - b"] by simp
  next
    case (Over r)
    then show ?thesis using ok written that by (auto simp: stream_ok_def)
  qed (use ok written in \<open>auto simp: stream_ok_def\<close>)
  then show ?thesis unfolding origin_of_def opens_def by blast
qed

end
