(* ===== verification/Patience.thy ===== *)
theory Patience
  imports Served
begin

text \<open>
  Which tasks wait for a line of mpv. A target that plays nothing may leave its observer
  waiting for ever; this theory shows that nobody else waits like that: not the start, not a
  request, and no task that holds one of the two mutexes.
\<close>

section \<open>Tasks that read lines\<close>

fun waits_for_line :: "'r task \<Rightarrow> bool" where
  "waits_for_line (ReadLine _ _) = True"
| "waits_for_line _ = False"

text \<open>Whether a task ever reads a line.\<close>

primrec reads_lines :: "'r task \<Rightarrow> bool" where
  "reads_lines (Return r) = False"
| "reads_lines (Panic m) = False"
| "reads_lines (Acquire k) = (\<exists>i. reads_lines (k i))"
| "reads_lines (Release i es p) = reads_lines p"
| "reads_lines (Send e p) = reads_lines p"
| "reads_lines (LockMutations p) = reads_lines p"
| "reads_lines (UnlockMutations p) = reads_lines p"
| "reads_lines (Connect n k) = (\<exists>x. reads_lines (k x))"
| "reads_lines (Exchange n c k) = (\<exists>x. reads_lines (k x))"
| "reads_lines (WriteLines n c k) = (\<exists>x. reads_lines (k x))"
| "reads_lines (ReadLine n k) = True"
| "reads_lines (Poll n b k) = (\<exists>x. reads_lines (k x))"
| "reads_lines (PathExists p k) = (\<exists>x. reads_lines (k x))"
| "reads_lines (Io x k) = (\<exists>r. reads_lines (k r))"
| "reads_lines (ReadDir p k) = (\<exists>r. reads_lines (k r))"
| "reads_lines (Sleep d p) = reads_lines p"
| "reads_lines (Spawn j p) = reads_lines p"

text \<open>Reads a line at most as the first thing it does.\<close>

definition reads_first :: "'r task \<Rightarrow> bool" where
  "reads_first p \<longleftrightarrow>
     (case p of ReadLine n k \<Rightarrow> \<forall>x. \<not> reads_lines (k x) | _ \<Rightarrow> \<not> reads_lines p)"

lemma waits_reads: "waits_for_line p \<Longrightarrow> reads_lines p"
  by (cases p) auto

lemma reads_firstI: "\<not> reads_lines p \<Longrightarrow> reads_first p"
  by (cases p) (auto simp: reads_first_def)

lemma reads_map [simp]: "reads_lines (map_task f p) = reads_lines p"
  by (induction p) auto

lemma reads_first_map [simp]: "reads_first (map_task f p) = reads_first p"
  by (cases p) (auto simp: reads_first_def)

lemma reads_bind: "reads_lines (bind_task p g) \<longleftrightarrow> reads_lines p \<or> (\<exists>r \<in> set_task p. reads_lines (g r))"
  by (induction p) auto

section \<open>The operations that read no line\<close>

named_theorems no_line

lemma no_line_bind [no_line]:
  "\<not> reads_lines p \<Longrightarrow> (\<And>x. \<not> reads_lines (g x)) \<Longrightarrow> \<not> reads_lines (bind_task p g)"
  by (auto simp: reads_bind)

lemma no_line_then [no_line]:
  "\<not> reads_lines p \<Longrightarrow> (\<And>x. \<not> reads_lines (g x)) \<Longrightarrow> \<not> reads_lines (then_task p g)"
  by (auto simp: then_task_def reads_bind split: sum.splits)

lemma no_line_locked [no_line]: "(\<And>a. \<not> reads_lines (g a)) \<Longrightarrow> \<not> reads_lines (locked body g)"
  by (auto simp: locked_def split: prod.splits)

lemma no_line_mutations [no_line]: "\<not> reads_lines p \<Longrightarrow> \<not> reads_lines (with_mutations p)"
  by (auto simp: with_mutations_def reads_bind)

lemma no_line_steps [no_line]:
  "\<not> reads_lines (Return r)" "\<not> reads_lines (Panic m)"
  "(\<And>i. \<not> reads_lines (k0 i)) \<Longrightarrow> \<not> reads_lines (Acquire k0)"
  "\<not> reads_lines p \<Longrightarrow> \<not> reads_lines (Release i es p)"
  "(\<And>x. \<not> reads_lines (k1 x)) \<Longrightarrow> \<not> reads_lines (Connect n k1)"
  "(\<And>x. \<not> reads_lines (k2 x)) \<Longrightarrow> \<not> reads_lines (Exchange n c k2)"
  "(\<And>x. \<not> reads_lines (k1 x)) \<Longrightarrow> \<not> reads_lines (WriteLines n cs k1)"
  "(\<And>x. \<not> reads_lines (k1 x)) \<Longrightarrow> \<not> reads_lines (Poll n b k1)"
  "(\<And>x. \<not> reads_lines (k1 x)) \<Longrightarrow> \<not> reads_lines (PathExists q k1)"
  "(\<And>x. \<not> reads_lines (k4 x)) \<Longrightarrow> \<not> reads_lines (Io op k4)"
  "(\<And>x. \<not> reads_lines (k5 x)) \<Longrightarrow> \<not> reads_lines (ReadDir q k5)"
  "\<not> reads_lines p \<Longrightarrow> \<not> reads_lines (Sleep d p)"
  "\<not> reads_lines p \<Longrightarrow> \<not> reads_lines (Spawn j p)"
  "\<not> reads_lines p \<Longrightarrow> \<not> reads_lines (Send e p)"
  by auto

lemma no_line_cases [no_line]:
  "(b \<Longrightarrow> \<not> reads_lines p) \<Longrightarrow> (\<not> b \<Longrightarrow> \<not> reads_lines q) \<Longrightarrow> \<not> reads_lines (if b then p else q)"
  "(\<And>e. \<not> reads_lines (f1 e)) \<Longrightarrow> (\<And>x. \<not> reads_lines (g1 x)) \<Longrightarrow>
   \<not> reads_lines (case s of Inl e \<Rightarrow> f1 e | Inr x \<Rightarrow> g1 x)"
  "\<not> reads_lines p \<Longrightarrow> (\<And>x. \<not> reads_lines (g2 x)) \<Longrightarrow>
   \<not> reads_lines (case y of None \<Rightarrow> p | Some x \<Rightarrow> g2 x)"
  "(\<And>x y. \<not> reads_lines (f3 x y)) \<Longrightarrow> \<not> reads_lines (case z of (x, y) \<Rightarrow> f3 x y)"
  by (auto split: sum.splits option.splits prod.splits)

lemma no_line_files [no_line]:
  "\<not> reads_lines (try_io err op)" "\<not> reads_lines (try_all err ops)"
  "\<not> reads_lines p \<Longrightarrow> \<not> reads_lines (ignore_io op p)"
  "\<not> reads_lines (replace_file tmp contents dest)" "\<not> reads_lines (persist_config pt config)"
  "\<not> reads_lines (validate_and_persist pt config)"
proof -
  show io: "\<not> reads_lines (try_io err op)" for err :: "io_error \<Rightarrow> 'e" and op by (simp add: try_io_def)
  show all: "\<not> reads_lines (try_all err ops)" for err :: "io_error \<Rightarrow> 'e" and ops
    by (induction err ops rule: try_all.induct) (simp, simp add: no_line_then io)
  show ign: "\<not> reads_lines p \<Longrightarrow> \<not> reads_lines (ignore_io op p)" for p :: "'r task"
    by (simp add: ignore_io_def)
  show rep: "\<not> reads_lines (replace_file tmp contents dest)" for tmp contents dest
    unfolding replace_file_def ignore_io_def try_io_def
    by (intro no_line) (simp add: then_task_def reads_bind try_io_def split: sum.splits)
  show per: "\<not> reads_lines (persist_config pt config)"
    unfolding persist_config_def try_io_def by (intro no_line rep)
  show "\<not> reads_lines (validate_and_persist pt config)"
    unfolding validate_and_persist_def by (intro no_line per)
qed

lemma no_line_queries [no_line]:
  "\<not> reads_lines (get_target_record name)" "\<not> reads_lines (get_target_config name)"
  "\<not> reads_lines (target_disabled name)" "\<not> reads_lines (target_stopped name)"
  "\<not> reads_lines (target_online name)"
  unfolding get_target_record_def get_target_config_def target_disabled_def target_stopped_def
    target_online_def query_target_def
  by (intro no_line)+

lemma no_line_sockets [no_line]:
  "\<not> reads_lines (socket_is_live name)" "\<not> reads_lines (wait_for_socket name)"
  "\<not> reads_lines (wait_for_socket_gone name)" "\<not> reads_lines (ipc_command name c)"
  "\<not> reads_lines (schedule_recovery name)"
  unfolding socket_is_live_def wait_for_socket_def wait_for_socket_gone_def ipc_command_def
    schedule_recovery_def
  by (intro no_line)+

lemma no_line_marks [no_line]:
  "\<not> reads_lines (deferred e)" "\<not> reads_lines (clear_observed name)"
  "\<not> reads_lines (mark_online name)" "\<not> reads_lines (mark_offline name)"
  "\<not> reads_lines (clear_launching name)"
  unfolding clear_observed_def mark_online_def mark_offline_def clear_launching_def deferred_def
  by (intro no_line)+

lemma no_line_lifecycle [no_line]:
  "\<not> reads_lines (launch pt name)" "\<not> reads_lines (start pt name)"
  "\<not> reads_lines (quit_mpv name)" "\<not> reads_lines (stop name)"
  "\<not> reads_lines (ensure_disabled_off name)" "\<not> reads_lines (restart pt name)"
  "\<not> reads_lines (mpv_command name command args)"
  unfolding launch_def start_def quit_mpv_def stop_def ensure_disabled_off_def restart_def mpv_command_def
  by (intro no_line)+

lemma no_line_persist [no_line]:
  "\<not> reads_lines (persist_target_change pt name mutate)"
  unfolding persist_target_change_def persist_section_def Let_def
  by (intro no_line)

lemma no_line_config [no_line]:
  "\<not> reads_lines (enable pt name)" "\<not> reads_lines (disable pt name)"
  "\<not> reads_lines (set_channel pt name channel)"
  unfolding enable_def disable_def set_channel_def
  by (intro no_line)+

lemma no_line_registry [no_line]:
  "\<not> reads_lines (add pt name from e p m)"
  "\<not> reads_lines (remove pt name)" "\<not> reads_lines (rename pt name replacement)"
  unfolding add_def add_section_def add_finish_def remove_def remove_section_def remove_finish_def
    rename_def rename_section_def rename_finish_def
  by (intro no_line)+

lemma no_line_channels [no_line]:
  "\<not> reads_lines (list_channels pt)" "\<not> reads_lines (save_channel pt target channel overwrite)"
  unfolding list_channels_def save_channel_def save_channel_section_def
  by (intro no_line)+

lemma no_line_answer [no_line]: "\<not> reads_lines p \<Longrightarrow> \<not> reads_lines (answer p f)"
  unfolding answer_def by (intro no_line)

lemma no_line_target [no_line]:
  "(\<And>name. \<not> reads_lines (p name)) \<Longrightarrow> \<not> reads_lines (on_target target p)"
  unfolding on_target_def by (intro no_line)

lemma no_line_dispatch [no_line]: "\<not> reads_lines (dispatch_operation pt target op)"
  by (cases op) (simp_all only: dispatch_operation.simps, (intro no_line)+)

lemma no_line_text: "\<not> reads_lines (serve_text parse pt c text)"
  unfolding serve_text_def dispatch_request_def handle_request_def
  by (intro no_line)

lemma no_line_boot: "\<not> reads_lines (boot_run pt)"
proof -
  have "\<not> reads_lines (start_targets pt names)" for names
    by (induction names) (simp_all only: start_targets.simps, (intro no_line; assumption?)+)
  then show ?thesis
    unfolding boot_run_def start_configured_targets_def by (intro no_line)
qed

lemma no_line_lost [no_line]: "\<not> reads_lines (on_target_lost name)"
  unfolding on_target_lost_def by (intro no_line)

lemma no_line_observe [no_line]:
  "\<not> reads_lines (observe_target name)" "\<not> reads_lines (observe_message name message)"
  unfolding observe_target_def observe_message_def update_observed_def update_media_end_def
    clear_media_end_def
  by (intro no_line)+

lemma no_line_recovery [no_line]:
  "\<not> reads_lines (recovery_task name)" "\<not> reads_lines (recovery_round pt name delay)"
  unfolding recovery_task_def recovery_round_def
  by (intro no_line)+

lemma round_reads_first: "reads_first (observe_round name)"
proof -
  have "\<not> reads_lines (case line of None \<Rightarrow> on_target_lost name
     | Some None \<Rightarrow> Spawn (ObserveLoop name) (Return ())
     | Some (Some message) \<Rightarrow>
         bind_task (observe_message name message) (\<lambda>_. Spawn (ObserveLoop name) (Return ())))" for line
    by (intro no_line)
  then show ?thesis by (simp add: reads_first_def observe_round_def)
qed

lemma job_reads_first: "reads_first (job_task pt job)"
  by (cases job) (simp_all add: reads_firstI no_line round_reads_first)

section \<open>What a step leaves of a task\<close>

text \<open>\<open>continues q p\<close>: a task \<open>p\<close> that moves becomes \<open>q\<close>.\<close>

inductive continues :: "'r task \<Rightarrow> 'r task \<Rightarrow> bool" where
  continues_env: "env_next p q \<Longrightarrow> continues q p"
| continues_spawn: "continues p (Spawn job p)"
| continues_acquire: "continues (k i) (Acquire k)"
| continues_release: "continues p (Release i es p)"
| continues_send: "continues p (Send e p)"
| continues_lock: "continues p (LockMutations p)"
| continues_unlock: "continues p (UnlockMutations p)"

inductive_cases continuesE [elim!]:
  "continues q (Return r)" "continues q (Panic m)" "continues q (Acquire k)"
  "continues q (Release i es p)" "continues q (Send e p)" "continues q (LockMutations p)"
  "continues q (UnlockMutations p)" "continues q (Spawn job p)"
  "continues q (Connect n k1)" "continues q (Exchange n c k2)" "continues q (WriteLines n cs k1)"
  "continues q (ReadLine n k3)" "continues q (Poll n b k1)" "continues q (PathExists a k1)"
  "continues q (Io op k4)" "continues q (ReadDir a k5)" "continues q (Sleep d p)"

lemma continues_wf: "wfp (continues :: 'r task \<Rightarrow> 'r task \<Rightarrow> bool)"
proof (rule accp_wfpI, rule allI)
  fix p :: "'r task"
  show "Wellfounded.accp continues p"
    by (induction p) (rule accp.accI, force)+
qed

lemma continues_reads_first: "continues q p \<Longrightarrow> reads_first p \<Longrightarrow> \<not> reads_lines q"
  by (cases p) (auto simp: reads_first_def)

lemma continues_reads: "continues q p \<Longrightarrow> \<not> reads_lines p \<Longrightarrow> \<not> reads_lines q"
  by (cases p) auto

lemma continues_results: "continues q p \<Longrightarrow> set_task q \<subseteq> set_task p"
  by (cases p) auto

lemma task_step_continues:
  assumes "task_step spawned s j t"
  shows "\<exists>p new. sy_tasks t = (sy_tasks s)[j := p] @ new \<and> j < length (sy_tasks s) \<and>
    continues p (sy_tasks s ! j) \<and> (\<forall>q \<in> set new. \<exists>job. q = spawned job)"
  using assms
proof cases
  case (task_env p)
  then show ?thesis
    by (intro exI [of _ p] exI [of _ "[]"]) (simp add: resume_def continues_env)
next
  case (task_spawn job p)
  then show ?thesis
    by (intro exI [of _ p] exI [of _ "[spawned job]"]) (auto simp: continues_spawn)
qed (force simp: resume_def intro: continues.intros)+

text \<open>A mutex goes from its owner to nobody and from nobody to the task that moves.\<close>

lemma task_step_owners:
  assumes "task_step spawned s j t"
  shows "sy_inner_owner t = sy_inner_owner s \<or>
      sy_inner_owner s = None \<and> sy_inner_owner t = Some j \<or>
      sy_inner_owner s = Some j \<and> sy_inner_owner t = None"
    and "sy_mutation_owner t = sy_mutation_owner s \<or>
      sy_mutation_owner s = None \<and> sy_mutation_owner t = Some j \<or>
      sy_mutation_owner s = Some j \<and> sy_mutation_owner t = None"
  using assms by (cases; auto simp: resume_def)+

section \<open>A task that waits for a line holds no mutex\<close>

definition observers_ok :: "node \<Rightarrow> bool" where
  "observers_ok n \<longleftrightarrow>
     (\<forall>j < length (sy_tasks n). reads_first (sy_tasks n ! j) \<and>
        (waits_for_line (sy_tasks n ! j) \<longrightarrow>
           sy_inner_owner n \<noteq> Some j \<and> sy_mutation_owner n \<noteq> Some j))"

lemma observers_append:
  assumes "observers_ok n" and "sy_tasks n' = sy_tasks n @ ts"
    and "sy_inner_owner n' = sy_inner_owner n" and "sy_mutation_owner n' = sy_mutation_owner n"
    and "\<forall>p \<in> set ts. \<not> reads_lines p"
  shows "observers_ok n'"
proof -
  have "\<not> reads_lines (sy_tasks n' ! j)" if "length (sy_tasks n) \<le> j" "j < length (sy_tasks n')" for j
    using that assms(2,5) by (simp add: nth_append)
  then show ?thesis
    using assms(1-4) waits_reads reads_firstI unfolding observers_ok_def
    by (metis length_append nth_append not_le)
qed

lemma owners_exist:
  assumes "sys_ok hf s" and "length (sy_tasks s) \<le> k"
  shows "sy_inner_owner s \<noteq> Some k" and "sy_mutation_owner s \<noteq> Some k"
  using assms unfolding sys_ok_def by (blast, metis not_less)

lemma observers_task:
  assumes ok: "observers_ok n" and sys: "sys_ok hf (erase n)"
    and step: "task_step (spawned_job pt) n j n'"
  shows "observers_ok n'"
proof -
  obtain p new where p: "sy_tasks n' = (sy_tasks n)[j := p] @ new" "j < length (sy_tasks n)"
    "continues p (sy_tasks n ! j)" and new: "\<forall>q \<in> set new. \<exists>job. q = spawned_job pt job"
    using task_step_continues [OF step] by blast
  have own: "\<not> reads_lines p" using continues_reads_first p(2,3) ok by (auto simp: observers_ok_def)
  have none: "sy_inner_owner n' \<noteq> Some k \<and> sy_mutation_owner n' \<noteq> Some k"
    if "length (sy_tasks n) \<le> k" for k
    using owners_exist [OF sys, of k] that p(2) task_step_owners [OF step] by auto
  show ?thesis
    unfolding observers_ok_def
  proof (intro allI impI)
    fix k assume k: "k < length (sy_tasks n')"
    consider "k = j" | "k < length (sy_tasks n)" "k \<noteq> j" | "length (sy_tasks n) \<le> k" by linarith
    then show "reads_first (sy_tasks n' ! k) \<and> (waits_for_line (sy_tasks n' ! k) \<longrightarrow>
        sy_inner_owner n' \<noteq> Some k \<and> sy_mutation_owner n' \<noteq> Some k)"
    proof cases
      case 1
      then show ?thesis using own p waits_reads by (auto simp: nth_append intro: reads_firstI)
    next
      case 2
      then show ?thesis
        using ok p(1) task_step_owners [OF step] by (auto simp: observers_ok_def nth_append)
    next
      case 3
      then have "sy_tasks n' ! k \<in> set new" using k p(1) by (simp add: nth_append)
      then have "reads_first (sy_tasks n' ! k)" using new job_reads_first by (auto simp: spawned_job_def)
      then show ?thesis using none [OF 3] by simp
    qed
  qed
qed

lemma observers_step:
  assumes "node_step parse pt n l n'" and ok: "observers_ok n" and sys: "sys_ok hf (erase n)"
  shows "observers_ok n'"
  using assms(1)
proof cases
  case (node_task j)
  then show ?thesis using observers_task [OF ok sys] by blast
next
  case (node_deliver j c m)
  then have "reads_first (sy_tasks n' ! k) \<and> (waits_for_line (sy_tasks n' ! k) \<longrightarrow>
      sy_inner_owner n' \<noteq> Some k \<and> sy_mutation_owner n' \<noteq> Some k)"
    if "k < length (sy_tasks n')" for k
    using ok that by (cases "k = j") (simp_all add: observers_ok_def reads_first_def)
  then show ?thesis by (simp add: observers_ok_def)
next
  case (node_hear c msg)
  show ?thesis
    by (rule observers_append [OF ok, where ts = "case snd (on_message msg (nd_conns n ! c)) of
        None \<Rightarrow> [] | Some text \<Rightarrow> [serve_text parse pt c text]"])
      (auto simp: node_hear hear_def Let_def no_line_text split: option.splits)
qed (use ok in \<open>auto simp: observers_ok_def\<close>)

end
