(* ===== verification/Fair.thy ===== *)
theory Fair
  imports Patience "HOL-Library.Sublist"
begin

text \<open>
  What the served daemon does in the end. A run that does not stop is fair when no task and
  no branch of a connection that could go on again and again is passed over for ever; the
  mutexes and the channels of the daemon's runtime are queues, and its selections choose at
  random. So the environment answers each task in the end, and takes or refuses each frame
  that is written. Nothing else is asked of the clients, nor of a target that has nothing to
  report: a task that waits for a line of mpv may wait for ever.
\<close>

section \<open>Fair runs\<close>

text \<open>The branches of the selection of \<^verbatim>\<open>serve_connection\<close> that do not wait for the client,
  and the two steps before it.\<close>

datatype branch = Subscribes | Greets | Responds | Passes

inductive branch_step :: "node \<Rightarrow> nat \<Rightarrow> branch \<Rightarrow> node \<Rightarrow> bool" for n c where
  branch_subscribe: "at_phase n c Subscribing \<Longrightarrow> sy_inner_owner n = None \<Longrightarrow>
    branch_step n c Subscribes (on_conn c (subscribe (sy_inner n) (sy_log n)) n)"
| branch_greet: "at_phase n c (Greeting s) \<Longrightarrow> branch_step n c Greets (on_conn c (greet ok s) n)"
| branch_respond: "at_phase n c Serving \<Longrightarrow> sv_responses (nd_conns n ! c) \<noteq> [] \<Longrightarrow>
    branch_step n c Responds (on_conn c (respond ok) n)"
| branch_pass: "at_phase n c Serving \<Longrightarrow>
    broadcast_recv (sy_log n) (sv_next (nd_conns n ! c)) = Some r \<Longrightarrow>
    branch_step n c Passes (on_conn c (on_event ok r) n)"

lemma branch_node_step: "branch_step n c b n' \<Longrightarrow> node_step parse pt n (ConnMoves c) n'"
  by (cases rule: branch_step.cases)
    (auto intro: node_subscribe node_greet node_respond node_event)

definition often :: "(nat \<Rightarrow> bool) \<Rightarrow> bool" where
  "often P \<longleftrightarrow> (\<forall>k. \<exists>i \<ge> k. P i)"

definition ready :: "(string \<Rightarrow> json option) \<Rightarrow> paths \<Rightarrow> node \<Rightarrow> nat \<Rightarrow> bool" where
  "ready parse pt n j \<longleftrightarrow>
     \<not> waits_for_line (sy_tasks n ! j) \<and> (\<exists>n'. node_step parse pt n (TaskMoves j) n')"

definition fair :: "(string \<Rightarrow> json option) \<Rightarrow> paths \<Rightarrow> (nat \<Rightarrow> node) \<Rightarrow> (nat \<Rightarrow> node_label option) \<Rightarrow> bool" where
  "fair parse pt ns ls \<longleftrightarrow>
     (\<forall>j. often (\<lambda>i. ready parse pt (ns i) j) \<longrightarrow> often (\<lambda>i. ls i = Some (TaskMoves j))) \<and>
     (\<forall>c b. often (\<lambda>i. \<exists>n'. branch_step (ns i) c b n') \<longrightarrow>
        often (\<lambda>i. branch_step (ns i) c b (ns (Suc i))))"

text \<open>A run takes a step of the daemon or waits, and the daemon does not end.\<close>

definition endless ::
    "(string \<Rightarrow> json option) \<Rightarrow> paths \<Rightarrow> daemon_config \<Rightarrow> (nat \<Rightarrow> node) \<Rightarrow> (nat \<Rightarrow> node_label option) \<Rightarrow>
     bool" where
  "endless parse pt config ns ls \<longleftrightarrow>
     ns 0 = node_init pt config \<and> (\<forall>i. nd_exit (ns i) = None) \<and>
     (\<forall>i. case ls i of
        None \<Rightarrow> ns (Suc i) = ns i
      | Some l \<Rightarrow> node_step parse pt (ns i) l (ns (Suc i)))"

definition fair_daemon ::
    "(string \<Rightarrow> json option) \<Rightarrow> paths \<Rightarrow> daemon_config \<Rightarrow> (nat \<Rightarrow> node) \<Rightarrow> (nat \<Rightarrow> node_label option) \<Rightarrow>
     bool" where
  "fair_daemon parse pt config ns ls \<longleftrightarrow>
     validate_config config = Inr () \<and> endless parse pt config ns ls \<and> fair parse pt ns ls"

section \<open>Infinite sequences\<close>

lemma not_often: "\<not> often P \<longleftrightarrow> (\<exists>k. \<forall>i \<ge> k. \<not> P i)"
  by (auto simp: often_def)

lemma often_tail: "(\<And>i. k \<le> i \<Longrightarrow> P i) \<Longrightarrow> often P"
  unfolding often_def by (meson le_cases order_trans nat_le_linear)

text \<open>A sequence whose changes are descents changes no more after some point.\<close>

lemma comes_to_rest:
  assumes "wfp r" and desc: "\<And>i. k \<le> i \<Longrightarrow> f (Suc i) = f i \<or> r (f (Suc i)) (f i)"
  shows "\<exists>K \<ge> k. \<forall>i \<ge> K. f i = f K"
proof -
  have "f k \<in> f ` {k..}" by simp
  then obtain z where z: "z \<in> f ` {k..}" "\<And>y. r y z \<Longrightarrow> y \<notin> f ` {k..}"
    using assms(1) unfolding wfp_iff_ex_minimal by (metis empty_iff)
  then obtain K where K: "k \<le> K" "z = f K" by auto
  have "f i = f K" if "K \<le> i" for i
    using that
  proof (induction rule: dec_induct)
    case (step i)
    then have "\<not> r (f (Suc i)) (f K)" using z(2) [of "f (Suc i)"] K by auto
    then show ?case using desc [of i] step K by auto
  qed simp
  then show ?thesis using K by blast
qed

lemma stays_some:
  assumes some: "\<And>i. k \<le> i \<Longrightarrow> f i \<noteq> None"
    and keep: "\<And>i. f (Suc i) = f i \<or> f i = None \<or> f (Suc i) = None"
  shows "\<exists>x. \<forall>i \<ge> k. f i = Some x"
proof -
  obtain x where x: "f k = Some x" using some [of k] by auto
  have "f i = Some x" if "k \<le> i" for i
    using that
  proof (induction rule: dec_induct)
    case (step i)
    then show ?case using keep [of i] some [of i] some [of "Suc i"] by auto
  qed (rule x)
  then show ?thesis by blast
qed

lemma first_change:
  assumes "P k" and "\<not> P m" and "k \<le> (m :: nat)"
  shows "\<exists>i \<ge> k. P i \<and> \<not> P (Suc i)"
proof (rule ccontr)
  assume "\<not> ?thesis"
  then have step: "\<And>i. k \<le> i \<Longrightarrow> P i \<Longrightarrow> P (Suc i)" by blast
  from assms(3) have "P m" by (induction rule: dec_induct) (use assms(1) step in auto)
  with assms(2) show False by blast
qed

section \<open>The states of a run\<close>

lemma run_step:
  assumes "fair_daemon parse pt config ns ls"
  shows "nd_exit (ns i) = None"
    and "ls i = None \<and> ns (Suc i) = ns i \<or>
      (\<exists>l. ls i = Some l \<and> node_step parse pt (ns i) l (ns (Suc i)))"
proof -
  have e: "endless parse pt config ns ls" using assms by (simp add: fair_daemon_def)
  show "nd_exit (ns i) = None" using e by (simp add: endless_def)
  have "case ls i of None \<Rightarrow> ns (Suc i) = ns i | Some l \<Rightarrow> node_step parse pt (ns i) l (ns (Suc i))"
    using e by (simp add: endless_def)
  then show "ls i = None \<and> ns (Suc i) = ns i \<or>
      (\<exists>l. ls i = Some l \<and> node_step parse pt (ns i) l (ns (Suc i)))"
    by (cases "ls i") simp_all
qed

lemma run_cases:
  assumes run: "fair_daemon parse pt config ns ls"
  obtains "ls i = None" "ns (Suc i) = ns i"
  | l where "ls i = Some l" "node_step parse pt (ns i) l (ns (Suc i))" "nd_exit (ns (Suc i)) = None"
proof (cases "ls i")
  case None
  then show ?thesis using run_step(2) [OF run, of i] that(1) by simp
next
  case (Some l)
  then show ?thesis using run_step(2) [OF run, of i] that(2) run_step(1) [OF run] by simp
qed

lemma run_reaches:
  assumes run: "fair_daemon parse pt config ns ls"
  shows "node_reaches parse pt (node_init pt config) (ns i)"
proof (induction i)
  case 0
  have "ns 0 = node_init pt config" using run by (simp add: fair_daemon_def endless_def)
  then show ?case by (simp add: node_refl)
next
  case (Suc i)
  show ?case
  proof (rule run_cases [OF run, of i])
    fix l
    assume "node_step parse pt (ns i) l (ns (Suc i))"
    then show ?thesis using Suc run_step(1) [OF run] by (intro node_next [OF Suc]) simp_all
  qed (use Suc in simp)
qed

lemma run_sys: "fair_daemon parse pt config ns ls \<Longrightarrow> \<exists>hf. sys_ok hf (erase (ns i))"
  using reachable_ok any.run_abstract [OF run_reaches] by (fastforce simp: fair_daemon_def)

lemma run_answers: "fair_daemon parse pt config ns ls \<Longrightarrow> \<exists>ps. answers_ok parse (ns i) ps"
  using answers_run [OF run_reaches] .

lemma run_observers:
  assumes run: "fair_daemon parse pt config ns ls"
  shows "observers_ok (ns i)"
proof (induction i)
  case 0
  have "ns 0 = node_init pt config" using run by (simp add: fair_daemon_def endless_def)
  moreover have "\<not> waits_for_line (boot_run pt)" using no_line_boot waits_reads by blast
  ultimately show ?case
    using no_line_boot by (simp add: observers_ok_def node_init_def reads_firstI)
next
  case (Suc i)
  obtain hf where "sys_ok hf (erase (ns i))" using run_sys [OF run] by blast
  then show ?case
    using Suc observers_step by (cases rule: run_cases [OF run, of i]) auto
qed

section \<open>What a step changes\<close>

text \<open>A task that moves goes on, or hands over its response.\<close>

definition later :: "reply task \<Rightarrow> reply task \<Rightarrow> bool" where
  "later q p \<longleftrightarrow> continues q p \<or> q = Return Quiet \<and> (\<exists>c m. p = Return (Reply c m))"

lemma later_wf: "wfp later"
proof (rule accp_wfpI, rule allI)
  have quiet: "Wellfounded.accp later (Return Quiet)"
    by (rule accp.accI) (auto simp: later_def)
  have none: "\<not> continues q (Return r)" for q and r :: reply by blast
  have return: "Wellfounded.accp later (Return r)" for r
    by (rule accp.accI) (use quiet none in \<open>auto simp: later_def\<close>)
  fix p :: "reply task"
  show "Wellfounded.accp later p"
    by (induction p) (rule return, (rule accp.accI, force simp: later_def)+)
qed

lemma later_irrefl: "\<not> later p p"
  using later_wf by (metis wfp_iff_ex_minimal insert_not_empty singletonD insertI1)

lemma later_reads: "later q p \<Longrightarrow> reads_first p \<Longrightarrow> \<not> reads_lines q"
  unfolding later_def using continues_reads_first by auto

lemma step_tasks:
  assumes step: "node_step parse pt n l n'" and stays: "nd_exit n' = None"
    and j: "j < length (sy_tasks n)"
  shows "j < length (sy_tasks n') \<and>
    (if l = TaskMoves j then later (sy_tasks n' ! j) (sy_tasks n ! j)
     else sy_tasks n' ! j = sy_tasks n ! j)"
  using step
proof cases
  case (node_task k)
  then show ?thesis
    using task_step_continues [OF node_task(2)] j by (auto simp: later_def nth_append)
next
  case (node_deliver k c m)
  then show ?thesis using j by (cases "k = j") (auto simp: later_def)
next
  case (node_hear c msg)
  then show ?thesis using j by (auto simp: hear_def Let_def nth_append split: option.splits)
qed (use j stays in auto)

lemma step_exists: "node_step parse pt n (TaskMoves j) n' \<Longrightarrow> sy_tasks n \<noteq> [] \<Longrightarrow> j < length (sy_tasks n)"
  by (cases rule: node_step.cases) (auto dest: task_step_enabled)

lemma step_owners:
  assumes "node_step parse pt n l n'"
  shows "sy_inner_owner n' = sy_inner_owner n \<or> sy_inner_owner n = None \<or> sy_inner_owner n' = None"
    and "sy_mutation_owner n' = sy_mutation_owner n \<or> sy_mutation_owner n = None \<or>
      sy_mutation_owner n' = None"
  using assms by (cases; use task_step_owners in \<open>fastforce simp: hear_def Let_def split: option.splits\<close>)+

section \<open>Tasks come to rest\<close>

lemma run_task:
  assumes run: "fair_daemon parse pt config ns ls" and j: "j < length (sy_tasks (ns i))"
  shows "j < length (sy_tasks (ns (Suc i)))"
    and "if ls i = Some (TaskMoves j) then later (sy_tasks (ns (Suc i)) ! j) (sy_tasks (ns i) ! j)
      else sy_tasks (ns (Suc i)) ! j = sy_tasks (ns i) ! j"
  using step_tasks [OF _ _ j] j by (cases rule: run_cases [OF run, of i]; fastforce)+

lemma run_tasks_grow:
  assumes run: "fair_daemon parse pt config ns ls" and "i \<le> m" and "j < length (sy_tasks (ns i))"
  shows "j < length (sy_tasks (ns m))"
  using assms(2) by (induction rule: dec_induct) (use run_task(1) [OF run] assms(3) in auto)

lemma task_rests:
  assumes run: "fair_daemon parse pt config ns ls" and j: "j < length (sy_tasks (ns i))"
  obtains K where "i \<le> K" and "\<And>m. K \<le> m \<Longrightarrow> sy_tasks (ns m) ! j = sy_tasks (ns K) ! j"
    and "\<And>m. K \<le> m \<Longrightarrow> \<not> ready parse pt (ns m) j"
proof -
  have grow: "j < length (sy_tasks (ns m))" if "i \<le> m" for m
    using run_tasks_grow [OF run that j] .
  have "\<exists>K \<ge> i. \<forall>m \<ge> K. sy_tasks (ns m) ! j = sy_tasks (ns K) ! j"
  proof (rule comes_to_rest [OF later_wf])
    fix m assume "i \<le> m"
    then show "sy_tasks (ns (Suc m)) ! j = sy_tasks (ns m) ! j \<or>
        later (sy_tasks (ns (Suc m)) ! j) (sy_tasks (ns m) ! j)"
      using run_task(2) [OF run grow] by (metis (full_types))
  qed
  then obtain K where K: "i \<le> K" "\<And>m. K \<le> m \<Longrightarrow> sy_tasks (ns m) ! j = sy_tasks (ns K) ! j"
    by blast
  have "ls m \<noteq> Some (TaskMoves j)" if "K \<le> m" for m
  proof
    assume l: "ls m = Some (TaskMoves j)"
    have "later (sy_tasks (ns (Suc m)) ! j) (sy_tasks (ns m) ! j)"
      using run_task(2) [OF run grow, of m] l K(1) that by simp
    then show False using K(2) [of m] K(2) [of "Suc m"] that later_irrefl by simp
  qed
  then have "\<not> often (\<lambda>m. ls m = Some (TaskMoves j))" unfolding not_often by blast
  then have "\<not> often (\<lambda>m. ready parse pt (ns m) j)"
    using run by (auto simp: fair_daemon_def fair_def)
  then obtain R where R: "\<And>m. R \<le> m \<Longrightarrow> \<not> ready parse pt (ns m) j" unfolding not_often by blast
  show thesis
  proof (rule that [of "max K R"])
    show "sy_tasks (ns m) ! j = sy_tasks (ns (max K R)) ! j" if "max K R \<le> m" for m
      using K(2) [of m] K(2) [of "max K R"] that by simp
  qed (use K(1) R in auto)
qed

lemma enabled_ready:
  assumes "j < length (sy_tasks n)" and "enabled n j (sy_tasks n ! j)"
    and "\<not> waits_for_line (sy_tasks n ! j)"
  shows "ready parse pt n j"
  using enabled_task_step [OF assms(1,2)] assms(3) node_task unfolding ready_def by metis

section \<open>The mutexes are released\<close>

lemma inner_released:
  assumes run: "fair_daemon parse pt config ns ls"
  shows "often (\<lambda>i. sy_inner_owner (ns i) = None)"
proof (rule ccontr)
  assume "\<not> often (\<lambda>i. sy_inner_owner (ns i) = None)"
  then obtain i where held: "\<And>m. i \<le> m \<Longrightarrow> sy_inner_owner (ns m) \<noteq> None"
    unfolding not_often by blast
  have keep: "sy_inner_owner (ns (Suc m)) = sy_inner_owner (ns m) \<or> sy_inner_owner (ns m) = None \<or>
      sy_inner_owner (ns (Suc m)) = None" for m
    using step_owners by (cases rule: run_cases [OF run, of m]) auto
  obtain j where owner: "\<And>m. i \<le> m \<Longrightarrow> sy_inner_owner (ns m) = Some j"
    using stays_some [of i "\<lambda>m. sy_inner_owner (ns m)", OF held keep] by blast
  have len: "j < length (sy_tasks (ns m))" if "i \<le> m" for m
    using owner [OF that] run_sys [OF run, of m] owners_exist(1) [of _ "erase (ns m)" j]
    by (auto simp: not_less [symmetric])
  obtain K where K: "i \<le> K" "\<not> ready parse pt (ns K) j" by (rule task_rests [OF run len [of i]]) auto
  obtain hf where "sys_ok hf (erase (ns K))" using run_sys [OF run] by blast
  then have "enabled (ns K) j (sy_tasks (ns K) ! j)"
    using enabled_owner [of hf "erase (ns K)" j] owner len K(1) by simp
  moreover have "\<not> waits_for_line (sy_tasks (ns K) ! j)"
    using run_observers [OF run, of K] owner len K(1) by (auto simp: observers_ok_def)
  ultimately show False using enabled_ready len K by blast
qed

text \<open>What a task that has come to rest can be: while the inner mutex is free, only the
  mutation lock keeps it.\<close>

lemma rests_at:
  assumes run: "fair_daemon parse pt config ns ls" and j: "j < length (sy_tasks (ns i))"
  obtains K where "i \<le> K" and "\<And>m. K \<le> m \<Longrightarrow> \<not> ready parse pt (ns m) j"
    and "\<And>m. K \<le> m \<Longrightarrow> sy_tasks (ns m) ! j = sy_tasks (ns K) ! j"
    and "sy_inner_owner (ns K) = None"
proof (rule task_rests [OF run j])
  fix K
  assume K: "i \<le> K" "\<And>m. K \<le> m \<Longrightarrow> sy_tasks (ns m) ! j = sy_tasks (ns K) ! j"
    "\<And>m. K \<le> m \<Longrightarrow> \<not> ready parse pt (ns m) j"
  obtain M where "K \<le> M" "sy_inner_owner (ns M) = None"
    using inner_released [OF run] unfolding often_def by blast
  then show thesis using that [of M] K by (metis order_trans)
qed

lemma mutations_released:
  assumes run: "fair_daemon parse pt config ns ls"
  shows "often (\<lambda>i. sy_mutation_owner (ns i) = None)"
proof (rule ccontr)
  assume "\<not> often (\<lambda>i. sy_mutation_owner (ns i) = None)"
  then obtain i where held: "\<And>m. i \<le> m \<Longrightarrow> sy_mutation_owner (ns m) \<noteq> None"
    unfolding not_often by blast
  have keep: "sy_mutation_owner (ns (Suc m)) = sy_mutation_owner (ns m) \<or>
      sy_mutation_owner (ns m) = None \<or> sy_mutation_owner (ns (Suc m)) = None" for m
    using step_owners by (cases rule: run_cases [OF run, of m]) auto
  obtain j where owner: "\<And>m. i \<le> m \<Longrightarrow> sy_mutation_owner (ns m) = Some j"
    using stays_some [of i "\<lambda>m. sy_mutation_owner (ns m)", OF held keep] by blast
  have len: "j < length (sy_tasks (ns m))" if "i \<le> m" for m
    using owner [OF that] run_sys [OF run, of m] owners_exist(2) [of _ "erase (ns m)" j]
    by (auto simp: not_less [symmetric])
  obtain K where K: "i \<le> K" "\<not> ready parse pt (ns K) j" "sy_inner_owner (ns K) = None"
    by (rule rests_at [OF run len [of i]]) auto
  obtain hf where hf: "sys_ok hf (erase (ns K))" using run_sys [OF run] by blast
  have "enabled (ns K) j (sy_tasks (ns K) ! j)"
    using enabled_free [OF hf, of j] returned_unguarded [OF hf, of j] owner [OF K(1)] len [OF K(1)] K(3)
    by simp
  moreover have "\<not> waits_for_line (sy_tasks (ns K) ! j)"
    using run_observers [OF run, of K] owner len K(1) by (auto simp: observers_ok_def)
  ultimately show False using enabled_ready len K by blast
qed

lemma enabled_otherwise:
  assumes ok: "sys_ok hf s" and j: "j < length (sy_tasks s)" "sy_tasks s ! j \<noteq> Return ()"
    and free: "sy_inner_owner s = None" and "\<And>p. sy_tasks s ! j \<noteq> LockMutations p"
  shows "enabled s j (sy_tasks s ! j)"
proof -
  obtain m where m: "m \<in> modes s j" using modes_nonempty [of s j] by blast
  have "is_guarded m \<longrightarrow> sy_mutation_owner s = Some j"
    using m by (auto simp: modes_def split: if_splits)
  then show ?thesis
    using task_at(1) [OF ok j(1)] task_at(2) [OF ok j(1) m] j(2) free assms(5)
    by (cases "sy_tasks s ! j") (auto simp: hold_ok_def)
qed

lemma rests_returned:
  assumes run: "fair_daemon parse pt config ns ls" and j: "j < length (sy_tasks (ns i))"
  obtains K where "i \<le> K" and "\<And>m. K \<le> m \<Longrightarrow> \<not> ready parse pt (ns m) j"
    and "\<And>m. K \<le> m \<Longrightarrow> sy_tasks (ns m) ! j = sy_tasks (ns K) ! j"
    and "waits_for_line (sy_tasks (ns K) ! j) \<or> (\<exists>x. sy_tasks (ns K) ! j = Return x)"
proof (rule rests_at [OF run j])
  fix K
  assume K: "i \<le> K" "\<And>m. K \<le> m \<Longrightarrow> \<not> ready parse pt (ns m) j"
    "\<And>m. K \<le> m \<Longrightarrow> sy_tasks (ns m) ! j = sy_tasks (ns K) ! j" "sy_inner_owner (ns K) = None"
  have len: "j < length (sy_tasks (ns m))" if "K \<le> m" for m
    using run_tasks_grow [OF run _ j] K(1) that by (meson order_trans)
  have stuck: "\<not> enabled (ns m) j (sy_tasks (ns m) ! j)"
    if "\<not> waits_for_line (sy_tasks (ns K) ! j)" "K \<le> m" for m
    using enabled_ready [OF len] K(2,3) that by metis
  have "waits_for_line (sy_tasks (ns K) ! j) \<or> (\<exists>x. sy_tasks (ns K) ! j = Return x)"
  proof (rule ccontr)
    assume no: "\<not> ?thesis"
    then have stuck: "\<not> enabled (ns m) j (sy_tasks (ns m) ! j)" if "K \<le> m" for m
      using stuck that by blast
    obtain hf where hf: "sys_ok hf (erase (ns K))" using run_sys [OF run] by blast
    have "\<exists>p. sy_tasks (erase (ns K)) ! j = LockMutations p"
      using enabled_otherwise [OF hf, of j] len [of K] no stuck [of K] K(4) by fastforce
    then obtain p where p: "sy_tasks (ns K) ! j = LockMutations p"
      using len [of K] by (cases "sy_tasks (ns K) ! j") auto
    obtain M where "K \<le> M" "sy_mutation_owner (ns M) = None"
      using mutations_released [OF run] unfolding often_def by blast
    then show False using stuck [of M] K(3) [of M] p by simp
  qed
  then show thesis using that K by blast
qed

section \<open>What a step changes of a connection\<close>

text \<open>What is written stays written; the queue of responses grows at its end and shrinks by
  writing its head; a connection that is over stays so.\<close>

definition served_after :: "served \<Rightarrow> served \<Rightarrow> bool" where
  "served_after s s' \<longleftrightarrow>
     prefix (sv_written s) (sv_written s') \<and> (over s \<longrightarrow> over s') \<and>
     (over s' \<or>
      (\<exists>ms. sv_responses s' = sv_responses s @ ms \<and> (ms \<noteq> [] \<longrightarrow> can_deliver s)) \<or>
      (\<exists>m. sv_responses s = m # sv_responses s' \<and> sv_written s' = sv_written s @ [ResponseFrame m]))"

text \<open>The ways a connection changes in a step.\<close>

inductive conn_move :: "served \<Rightarrow> served \<Rightarrow> bool" for s where
  move_none: "conn_move s s"
| move_deliver: "can_deliver s \<Longrightarrow> conn_move s (deliver m s)"
| move_handshake: "sv_phase s = Handshaking \<Longrightarrow> conn_move s (handshake ok s)"
| move_subscribe: "sv_phase s = Subscribing \<Longrightarrow> conn_move s (subscribe i sent s)"
| move_greet: "sv_phase s = Greeting sn \<Longrightarrow> conn_move s (greet ok sn s)"
| move_message: "sv_phase s = Serving \<Longrightarrow> conn_move s (fst (on_message msg s))"
| move_respond: "sv_phase s = Serving \<Longrightarrow> sv_responses s \<noteq> [] \<Longrightarrow> conn_move s (respond ok s)"
| move_event: "sv_phase s = Serving \<Longrightarrow> conn_move s (on_event ok r s)"

lemma step_conn:
  assumes "node_step parse pt n l n'" and c: "c < length (nd_conns n)"
  shows "c < length (nd_conns n') \<and> conn_move (nd_conns n ! c) (nd_conns n' ! c)"
proof -
  have one: "?thesis" if "nd_conns n' = (nd_conns n)[d := f (nd_conns n ! d)]"
    and "conn_move (nd_conns n ! d) (f (nd_conns n ! d))" for d f
    using that c by (cases "d = c") (simp_all add: move_none)
  have put: "?thesis" if "n' = on_conn d f n" and "at_phase n d p"
    and "sv_phase (nd_conns n ! d) = p \<Longrightarrow> conn_move (nd_conns n ! d) (f (nd_conns n ! d))" for d f p
    using one [of d f] that by (simp add: at_phase_def)
  show ?thesis
    using assms(1)
  proof cases
    case (node_task j)
    then show ?thesis using task_step_node [OF node_task(2)] c by (simp add: move_none)
  next
    case (node_deliver j d m)
    then show ?thesis by (intro one [of d "deliver m"] move_deliver) simp_all
  next
    case node_accept
    then show ?thesis using c by (simp add: nth_append move_none)
  next
    case (node_handshake d ok)
    show ?thesis by (rule put [OF node_handshake(2,3) move_handshake])
  next
    case (node_subscribe d)
    show ?thesis by (rule put [OF node_subscribe(2,3) move_subscribe])
  next
    case (node_greet d s ok)
    show ?thesis by (rule put [OF node_greet(2,3) move_greet])
  next
    case (node_hear d msg)
    then show ?thesis
      by (intro one [of d "\<lambda>s. fst (on_message msg s)"] move_message)
        (simp_all add: hear_def Let_def at_phase_def split: option.splits)
  next
    case (node_respond d ok)
    show ?thesis by (rule put [OF node_respond(2,3) move_respond]) (simp_all add: node_respond(4))
  next
    case (node_event d r ok)
    show ?thesis by (rule put [OF node_event(2,3) move_event])
  qed (use c in \<open>simp_all add: move_none\<close>)
qed

lemma move_after: "conn_move s s' \<Longrightarrow> served_after s s'"
proof (induction rule: conn_move.induct)
  case (move_respond ok)
  then show ?case by (cases "sv_responses s") (auto simp: served_after_def respond_def send_defs over_phase)
next
  case (move_message msg)
  then show ?case by (cases msg) (auto simp: served_after_def finish_def over_phase)
next
  case (move_event ok r)
  then show ?case by (cases r) (auto simp: served_after_def send_defs over_phase)
qed (auto simp: served_after_def deliver_def handshake_def subscribe_def greet_def send_defs over_phase)

lemma run_move:
  assumes run: "fair_daemon parse pt config ns ls" and c: "c < length (nd_conns (ns i))"
  shows "c < length (nd_conns (ns (Suc i))) \<and> conn_move (nd_conns (ns i) ! c) (nd_conns (ns (Suc i)) ! c)"
  using step_conn [OF _ c] c by (cases rule: run_cases [OF run, of i]) (auto intro: move_none)

lemma run_conn:
  assumes run: "fair_daemon parse pt config ns ls" and c: "c < length (nd_conns (ns i))"
  shows "c < length (nd_conns (ns (Suc i))) \<and>
    served_after (nd_conns (ns i) ! c) (nd_conns (ns (Suc i)) ! c)"
  using run_move [OF assms] move_after by blast

lemma run_conns:
  assumes run: "fair_daemon parse pt config ns ls" and c: "c < length (nd_conns (ns i))" and "i \<le> m"
  shows "c < length (nd_conns (ns m)) \<and>
    prefix (sv_written (nd_conns (ns i) ! c)) (sv_written (nd_conns (ns m) ! c)) \<and>
    (over (nd_conns (ns i) ! c) \<longrightarrow> over (nd_conns (ns m) ! c))"
  using assms(3)
proof (induction rule: dec_induct)
  case (step m)
  then show ?case
    using run_conn [OF run, of c m] unfolding served_after_def by (meson prefix_order.trans)
qed (simp add: c)

section \<open>Queued responses are written\<close>

lemma queued_serving:
  assumes run: "fair_daemon parse pt config ns ls" and c: "c < length (nd_conns (ns i))"
    and "sv_responses (nd_conns (ns i) ! c) \<noteq> []" and "\<not> over (nd_conns (ns i) ! c)"
  shows "\<exists>n'. branch_step (ns i) c Responds n'"
proof -
  obtain ps where "answers_ok parse (ns i) ps" using run_answers [OF run] by blast
  then have "balanced parse (pending_ids c ps) (nd_conns (ns i) ! c)"
    using c by (simp add: answers_ok_def)
  then have "at_phase (ns i) c Serving" using queue_started assms(3,4) c by (simp add: at_phase_def)
  then show ?thesis using branch_respond assms(3) by blast
qed

lemma fair_branch:
  assumes "fair_daemon parse pt config ns ls" and "often (\<lambda>i. \<exists>n'. branch_step (ns i) c b n')"
  shows "\<exists>i \<ge> k. branch_step (ns i) c b (ns (Suc i))"
  using assms unfolding fair_daemon_def fair_def often_def by meson

text \<open>A queue that is not empty from some point on is taken from.\<close>

lemma queue_moves:
  assumes run: "fair_daemon parse pt config ns ls" and c: "c < length (nd_conns (ns i))"
    and busy: "\<And>m. i \<le> m \<Longrightarrow> sv_responses (nd_conns (ns m) ! c) \<noteq> [] \<and> \<not> over (nd_conns (ns m) ! c)"
  shows "\<exists>m \<ge> i. \<exists>x. sv_responses (nd_conns (ns m) ! c) = x # sv_responses (nd_conns (ns (Suc m)) ! c) \<and>
    sv_written (nd_conns (ns (Suc m)) ! c) = sv_written (nd_conns (ns m) ! c) @ [ResponseFrame x]"
proof -
  have "often (\<lambda>m. \<exists>n'. branch_step (ns m) c Responds n')"
    by (rule often_tail [of i]) (use queued_serving [OF run] run_conns [OF run c] busy in blast)
  then obtain m where m: "i \<le> m" "branch_step (ns m) c Responds (ns (Suc m))"
    using fair_branch [OF run] by blast
  have len: "c < length (nd_conns (ns m))" using run_conns [OF run c m(1)] by blast
  obtain ok where "ns (Suc m) = on_conn c (respond ok) (ns m)"
    using m(2) by (auto elim: branch_step.cases)
  then have s': "nd_conns (ns (Suc m)) ! c = respond ok (nd_conns (ns m) ! c)" using len by simp
  moreover have "\<not> over (nd_conns (ns (Suc m)) ! c)" using busy [of "Suc m"] m(1) by simp
  ultimately have ok by (cases ok) (simp_all add: respond_def send_defs)
  then show ?thesis
    using m(1) s' busy [of m] by (intro exI [of _ m]) (simp add: respond_def send_defs)
qed

lemma queue_moves_first:
  assumes run: "fair_daemon parse pt config ns ls" and c: "c < length (nd_conns (ns i))"
    and going: "\<And>m. i \<le> m \<Longrightarrow> \<not> over (nd_conns (ns m) ! c)"
    and queue: "prefix (x # ms) (sv_responses (nd_conns (ns i) ! c))"
  shows "\<exists>m \<ge> i. prefix ms (sv_responses (nd_conns (ns (Suc m)) ! c)) \<and>
    sv_written (nd_conns (ns (Suc m)) ! c) = sv_written (nd_conns (ns m) ! c) @ [ResponseFrame x]"
proof -
  define rs where "rs m = sv_responses (nd_conns (ns m) ! c)" for m
  define ws where "ws m = sv_written (nd_conns (ns m) ! c)" for m
  define moved where "moved m \<longleftrightarrow> (\<exists>y. rs m = y # rs (Suc m) \<and> ws (Suc m) = ws m @ [ResponseFrame y])" for m
  have step: "moved m \<or> prefix (rs m) (rs (Suc m))" if "i \<le> m" for m
    using run_conn [OF run, of c m] run_conns [OF run c that] going [of "Suc m"] that
    by (auto simp: served_after_def moved_def rs_def ws_def)
  have "\<exists>m \<ge> i. prefix (x # ms) (rs m) \<and> moved m"
  proof (rule ccontr)
    assume no: "\<not> ?thesis"
    have keep: "prefix (x # ms) (rs m)" if "i \<le> m" for m
      using that
    proof (induction rule: dec_induct)
      case (step m)
      then show ?case using no \<open>\<And>m. i \<le> m \<Longrightarrow> moved m \<or> prefix (rs m) (rs (Suc m))\<close>
        by (meson prefix_order.trans)
    qed (use queue in \<open>simp add: rs_def\<close>)
    have "\<exists>m \<ge> i. moved m"
      using queue_moves [OF run c] going keep unfolding moved_def rs_def ws_def
      by (metis Cons_prefix_Cons list.distinct(1) prefix_bot.bot_unique)
    then show False using no keep by blast
  qed
  then obtain m y where "i \<le> m" "prefix (x # ms) (y # rs (Suc m))" "ws (Suc m) = ws m @ [ResponseFrame y]"
    unfolding moved_def by metis
  then show ?thesis unfolding rs_def ws_def by auto
qed

lemma response_written:
  assumes run: "fair_daemon parse pt config ns ls" and c: "c < length (nd_conns (ns i))"
    and going: "\<And>m. i \<le> m \<Longrightarrow> \<not> over (nd_conns (ns m) ! c)"
    and queue: "prefix (ms @ [x]) (sv_responses (nd_conns (ns i) ! c))"
  shows "\<exists>m \<ge> i. \<exists>fs. prefix (sv_written (nd_conns (ns i) ! c) @ fs @ [ResponseFrame x])
    (sv_written (nd_conns (ns m) ! c))"
  using c going queue
proof (induction ms arbitrary: i)
  case Nil
  obtain m where m: "i \<le> m" "sv_written (nd_conns (ns (Suc m)) ! c) =
      sv_written (nd_conns (ns m) ! c) @ [ResponseFrame x]"
    using queue_moves_first [OF run Nil(1) Nil(2), of x "[]"] Nil(3) by auto
  obtain fs where "sv_written (nd_conns (ns m) ! c) = sv_written (nd_conns (ns i) ! c) @ fs"
    using run_conns [OF run Nil(1) m(1)] by (auto simp: prefix_def)
  then show ?case using m by (intro exI [of _ "Suc m"] conjI exI [of _ fs]) simp_all
next
  case (Cons y ms)
  obtain m where m: "i \<le> m" "prefix (ms @ [x]) (sv_responses (nd_conns (ns (Suc m)) ! c))"
    using queue_moves_first [OF run Cons(2) Cons(3), of y "ms @ [x]"] Cons(4) by auto
  then have c': "c < length (nd_conns (ns (Suc m)))"
    and pre: "prefix (sv_written (nd_conns (ns i) ! c)) (sv_written (nd_conns (ns (Suc m)) ! c))"
    using run_conns [OF run Cons(2), of "Suc m"] by auto
  obtain M fs where M: "Suc m \<le> M"
    "prefix (sv_written (nd_conns (ns (Suc m)) ! c) @ fs @ [ResponseFrame x]) (sv_written (nd_conns (ns M) ! c))"
    using Cons.IH [OF c' _ m(2)] Cons(3) m(1) by auto
  obtain gs where "sv_written (nd_conns (ns (Suc m)) ! c) = sv_written (nd_conns (ns i) ! c) @ gs"
    using pre by (auto simp: prefix_def)
  then show ?case using M m(1) by (intro exI [of _ M] conjI exI [of _ "gs @ fs"]) simp_all
qed

section \<open>Responses are delivered\<close>

lemma full_serves:
  "\<not> can_deliver s \<Longrightarrow> \<not> over s \<and> sv_responses s \<noteq> []"
  by (auto simp: can_deliver_def response_capacity_def)

lemma channel_frees:
  assumes run: "fair_daemon parse pt config ns ls" and c: "c < length (nd_conns (ns i))"
  shows "\<exists>m \<ge> i. can_deliver (nd_conns (ns m) ! c)"
proof (rule ccontr)
  assume "\<not> ?thesis"
  then have full: "\<not> can_deliver (nd_conns (ns m) ! c)" if "i \<le> m" for m using that by blast
  define r where "r m = length (sv_responses (nd_conns (ns m) ! c))" for m
  have "r (Suc m) = r m \<or> r (Suc m) < r m" if "i \<le> m" for m
    using run_conn [OF run, of c m] run_conns [OF run c that] full [OF that] full [of "Suc m"] that
      full_serves by (fastforce simp: served_after_def r_def)
  then obtain K where K: "i \<le> K" "\<And>m. K \<le> m \<Longrightarrow> r m = r K"
    using comes_to_rest [of "(<) :: nat \<Rightarrow> nat \<Rightarrow> bool" i r] by auto
  have c': "c < length (nd_conns (ns K))" using run_conns [OF run c K(1)] by blast
  obtain m x where "K \<le> m"
    "sv_responses (nd_conns (ns m) ! c) = x # sv_responses (nd_conns (ns (Suc m)) ! c)"
    using queue_moves [OF run c'] full full_serves K(1) by (meson order_trans)
  then show False using K(2) [of m] K(2) [of "Suc m"] by (simp add: r_def)
qed

section \<open>What tasks come to\<close>

lemma reply_conn:
  assumes "answers_ok parse n ps" and "j < length (sy_tasks n)" and "sy_tasks n ! j = Return (Reply c m)"
  shows "c < length (nd_conns n)"
  using assms jobs_reply [of n ps j c m] jobs_okD(2) [of n ps j c "response_id m"]
  by (simp add: answers_ok_def)

lemma boot_failed_first:
  assumes "answers_ok parse n ps" and "j < length (sy_tasks n)" and "sy_tasks n ! j = Return (BootFailed e)"
  shows "j = 0"
proof -
  have jobs: "jobs_ok n ps" using assms(1) by (simp add: answers_ok_def)
  have "j \<notin> fst ` set ps" using jobs_okD(2) [OF jobs] assms(3) by (fastforce simp: replies_to_def)
  then show ?thesis
    using jobs_okD(3) [OF jobs assms(2)] assms(3) by (auto simp: results_of_def split: if_splits)
qed

lemma task_ends:
  assumes run: "fair_daemon parse pt config ns ls" and j: "j < length (sy_tasks (ns i))"
  shows "\<exists>K \<ge> i. \<forall>m \<ge> K. sy_tasks (ns m) ! j = Return Quiet \<or> waits_for_line (sy_tasks (ns m) ! j)"
proof (rule rests_returned [OF run j])
  fix K
  assume K: "i \<le> K" "\<And>m. K \<le> m \<Longrightarrow> \<not> ready parse pt (ns m) j"
    "\<And>m. K \<le> m \<Longrightarrow> sy_tasks (ns m) ! j = sy_tasks (ns K) ! j"
    and at: "waits_for_line (sy_tasks (ns K) ! j) \<or> (\<exists>x. sy_tasks (ns K) ! j = Return x)"
  have len: "j < length (sy_tasks (ns m))" if "K \<le> m" for m
    using run_tasks_grow [OF run _ j] K(1) that by (meson order_trans)
  obtain ps where ps: "answers_ok parse (ns K) ps" using run_answers [OF run] by blast
  have "sy_tasks (ns K) ! j = Return Quiet" if x: "sy_tasks (ns K) ! j = Return x" for x
  proof (cases x)
    case (BootFailed e)
    then have "j = 0" using boot_failed_first [OF ps] len x by simp
    then have "ready parse pt (ns K) j"
      using x BootFailed node_boot_failed unfolding ready_def by fastforce
    then show ?thesis using K(2) by simp
  next
    case (Reply c m)
    then have c: "c < length (nd_conns (ns K))" using reply_conn [OF ps len [of K]] x by simp
    obtain M where M: "K \<le> M" "can_deliver (nd_conns (ns M) ! c)" using channel_frees [OF run c] by blast
    then have c': "c < length (nd_conns (ns M))" using run_conns [OF run c] by blast
    have t: "sy_tasks (ns M) ! j = Return (Reply c m)" using K(3) [OF M(1)] x Reply by simp
    have "ready parse pt (ns M) j"
      using node_deliver [OF len [OF M(1)] t c' M(2)] t unfolding ready_def by auto
    then show ?thesis using K(2) M(1) by simp
  qed (use x in simp)
  then have "sy_tasks (ns m) ! j = Return Quiet \<or> waits_for_line (sy_tasks (ns m) ! j)" if "K \<le> m" for m
    using at K(3) [OF that] by metis
  then show ?thesis using K(1) by blast
qed

section \<open>Frames are answered\<close>

lemma step_reply:
  assumes step: "node_step parse pt n l n'" and j: "j < length (sy_tasks n)"
    and before: "set_task (sy_tasks n ! j) \<subseteq> replies_to c x"
    and after: "\<not> set_task (sy_tasks n' ! j) \<subseteq> replies_to c x"
  shows "\<exists>m. response_id m = x \<and> c < length (nd_conns n) \<and> nd_conns n' ! c = deliver m (nd_conns n ! c)"
  using step
proof cases
  case (node_task k)
  then show ?thesis
    using task_step_results [OF node_task(2)] j before after
    by (cases "k = j") (auto simp: nth_append)
next
  case (node_deliver k d m)
  then have "k = j" using j before after by (cases "k = j") auto
  then show ?thesis using node_deliver before by (auto simp: replies_to_def)
next
  case (node_hear d msg)
  then show ?thesis
    using j before after by (auto simp: hear_def Let_def nth_append split: option.splits)
qed (use before after in auto)

lemma run_reads_no_line:
  assumes run: "fair_daemon parse pt config ns ls" and j: "j < length (sy_tasks (ns i))"
    and "\<not> reads_lines (sy_tasks (ns i) ! j)" and "i \<le> m"
  shows "\<not> reads_lines (sy_tasks (ns m) ! j)"
  using assms(4)
proof (induction rule: dec_induct)
  case (step m)
  then show ?case
    using run_task(2) [OF run run_tasks_grow [OF run step(1) j]] later_reads reads_firstI
    by (metis (full_types))
qed (rule assms(3))

lemma answer_delivered:
  assumes run: "fair_daemon parse pt config ns ls" and at: "at_phase (ns i) c Serving"
    and hears: "ns (Suc i) = hear parse pt c (TextMessage text) (ns i)"
  obtains k m where "i < k" and "c < length (nd_conns (ns k))" and "response_id m = frame_id parse text"
    and "nd_conns (ns (Suc k)) ! c = deliver m (nd_conns (ns k) ! c)"
proof -
  define j where "j = length (sy_tasks (ns i))"
  have t: "sy_tasks (ns (Suc i)) ! j = serve_text parse pt c text" and j: "j < length (sy_tasks (ns (Suc i)))"
    by (simp_all add: hears hear_def j_def)
  let ?R = "replies_to c (frame_id parse text)"
  let ?P = "\<lambda>k. set_task (sy_tasks (ns k) ! j) \<subseteq> ?R"
  obtain K where K: "Suc i \<le> K" "sy_tasks (ns K) ! j = Return Quiet \<or> waits_for_line (sy_tasks (ns K) ! j)"
    using task_ends [OF run j] by blast
  have "\<not> waits_for_line (sy_tasks (ns K) ! j)"
    using run_reads_no_line [OF run j _ K(1)] no_line_text t waits_reads by metis
  then have "\<not> ?P K" using K(2) by (auto simp: replies_to_def)
  moreover have "?P (Suc i)" using serve_text_results t by simp
  ultimately obtain k where k: "Suc i \<le> k" "?P k" "\<not> ?P (Suc k)"
    using first_change [of ?P "Suc i" K] K(1) by blast
  have len: "j < length (sy_tasks (ns k))" using run_tasks_grow [OF run k(1) j] .
  obtain m where "response_id m = frame_id parse text" "c < length (nd_conns (ns k))"
    "nd_conns (ns (Suc k)) ! c = deliver m (nd_conns (ns k) ! c)"
  proof (cases rule: run_cases [OF run, of k])
    case 1
    then show ?thesis using k by simp
  next
    case (2 l)
    then show ?thesis using step_reply [OF _ len k(2,3)] that by blast
  qed
  then show thesis using that [of k m] k(1) by simp
qed

section \<open>Clients catch up\<close>

text \<open>What a connection has still to do until it has written the first \<open>goal\<close> events.\<close>

definition remaining :: "nat \<Rightarrow> served \<Rightarrow> nat" where
  "remaining goal s =
     (case sv_phase s of
        Handshaking \<Rightarrow> goal + 3
      | Subscribing \<Rightarrow> goal + 2
      | Greeting _ \<Rightarrow> goal + 1
      | Serving \<Rightarrow> goal - sv_next s
      | Over _ \<Rightarrow> 0)"

lemma remaining_falls: "conn_move s s' \<Longrightarrow> remaining goal s' \<le> remaining goal s"
proof (induction rule: conn_move.induct)
  case (move_message msg)
  then show ?case by (cases msg) (auto simp: remaining_def finish_def)
next
  case (move_event ok r)
  then show ?case by (cases r) (auto simp: remaining_def send_defs)
qed (auto simp: remaining_def deliver_def handshake_def subscribe_def greet_def respond_def send_defs
    split: serve_phase.splits)

lemma remaining_branch:
  assumes "branch_step n c b n'" and "b \<noteq> Responds" and "0 < remaining goal (nd_conns n ! c)"
  shows "remaining goal (nd_conns n' ! c) < remaining goal (nd_conns n ! c)"
  using assms(1)
proof cases
  case (branch_pass r ok)
  then show ?thesis using assms(3) by (cases r) (auto simp: at_phase_def remaining_def send_defs)
qed (use assms(2) in \<open>auto simp: at_phase_def remaining_def subscribe_def greet_def send_defs\<close>)

lemma log_grows:
  assumes run: "fair_daemon parse pt config ns ls" and "i \<le> m"
  shows "prefix (sy_log (ns i)) (sy_log (ns m))"
  using assms(2)
proof (induction rule: dec_induct)
  case (step m)
  have "prefix (sy_log (ns m)) (sy_log (ns (Suc m)))"
  proof (cases rule: run_cases [OF run, of m])
    case (2 l)
    from 2(2) show ?thesis
    proof cases
      case (node_task j)
      then show ?thesis using task_step_log by (metis prefixI)
    qed (auto simp: hear_def Let_def split: option.splits)
  qed simp
  then show ?case using step(3) by (rule prefix_order.trans [rotated])
qed simp

lemma caught_up:
  assumes run: "fair_daemon parse pt config ns ls" and c: "c < length (nd_conns (ns i))"
    and set_up: "sv_phase (nd_conns (ns i) ! c) \<noteq> Handshaking"
  shows "\<exists>m \<ge> i. remaining (length (sy_log (ns i))) (nd_conns (ns m) ! c) = 0"
proof -
  let ?goal = "length (sy_log (ns i))"
  define r where "r m = remaining ?goal (nd_conns (ns m) ! c)" for m
  have len: "c < length (nd_conns (ns m))" if "i \<le> m" for m using run_conns [OF run c that] by blast
  have fall: "r (Suc m) \<le> r m" if "i \<le> m" for m
    using run_move [OF run len [OF that]] remaining_falls by (simp add: r_def)
  then have "r (Suc m) = r m \<or> r (Suc m) < r m" if "i \<le> m" for m
    using that le_neq_implies_less by blast
  then obtain K where K: "i \<le> K" "\<And>m. K \<le> m \<Longrightarrow> r m = r K"
    using comes_to_rest [of "(<) :: nat \<Rightarrow> nat \<Rightarrow> bool" i r] by auto
  have "r K \<le> r i" using K(1) by (induction rule: dec_induct) (use fall in \<open>auto intro: order_trans\<close>)
  then have bound: "r m < ?goal + 3" if "K \<le> m" for m
    using K(2) [OF that] set_up unfolding r_def by (auto simp: remaining_def split: serve_phase.splits)
  have still: False
    if busy: "r K \<noteq> 0" and b: "b \<noteq> Responds" and waits: "often (\<lambda>m. \<exists>n'. branch_step (ns m) c b n')" for b
  proof -
    obtain m where m: "K \<le> m" "branch_step (ns m) c b (ns (Suc m))" using fair_branch [OF run waits] by blast
    then show False
      using remaining_branch [OF m(2) b, of ?goal] busy K(2) [of m] K(2) [of "Suc m"] by (simp add: r_def)
  qed
  have "r K = 0"
  proof (rule ccontr)
    assume busy: "r K \<noteq> 0"
    have phase: "at_phase (ns m) c (sv_phase (nd_conns (ns m) ! c))" if "K \<le> m" for m
      using len [of m] K(1) that by (simp add: at_phase_def)
    have r: "remaining ?goal (nd_conns (ns m) ! c) = r K" if "K \<le> m" for m
      using K(2) [OF that] by (simp add: r_def)
    consider "r K = ?goal + 2" | "r K = ?goal + 1" | "r K \<le> ?goal" using bound [of K] by linarith
    then show False
    proof cases
      case 1
      then have "sv_phase (nd_conns (ns m) ! c) = Subscribing" if "K \<le> m" for m
        using r [OF that] by (auto simp: remaining_def split: serve_phase.splits)
      then have "\<exists>n'. branch_step (ns m) c Subscribes n'" if "K \<le> m" "sy_inner_owner (ns m) = None" for m
        using branch_subscribe [of "ns m" c] phase that by metis
      then have "often (\<lambda>m. \<exists>n'. branch_step (ns m) c Subscribes n')"
        using inner_released [OF run] unfolding often_def by (meson le_trans nat_le_linear)
      then show ?thesis using still [OF busy] by blast
    next
      case 2
      then have "\<exists>s. sv_phase (nd_conns (ns m) ! c) = Greeting s" if "K \<le> m" for m
        using r [OF that] by (auto simp: remaining_def split: serve_phase.splits)
      then have "\<exists>n'. branch_step (ns m) c Greets n'" if "K \<le> m" for m
        using branch_greet [of "ns m" c] phase that by metis
      then show ?thesis using still [OF busy _ often_tail] by blast
    next
      case 3
      have "\<exists>n'. branch_step (ns m) c Passes n'" if "K \<le> m" for m
      proof -
        have serving: "sv_phase (nd_conns (ns m) ! c) = Serving" "sv_next (nd_conns (ns m) ! c) < ?goal"
          using r [OF that] 3 busy by (auto simp: remaining_def split: serve_phase.splits)
        moreover have "?goal \<le> length (sy_log (ns m))"
          using log_grows [OF run, of i m] K(1) that by (simp add: prefix_length_le)
        ultimately have "sv_next (nd_conns (ns m) ! c) < length (sy_log (ns m))" by simp
        then obtain x where "broadcast_recv (sy_log (ns m)) (sv_next (nd_conns (ns m) ! c)) = Some x"
          unfolding broadcast_recv_def by metis
        then show ?thesis using branch_pass phase [OF that] serving(1) by metis
      qed
      then show ?thesis using still [OF busy _ often_tail] by blast
    qed
  qed
  then show ?thesis using K(1) by (auto simp: r_def)
qed

text \<open>It stays so: nothing is left to do of those events.\<close>

lemma stays_caught_up:
  assumes run: "fair_daemon parse pt config ns ls" and c: "c < length (nd_conns (ns i))"
    and set_up: "sv_phase (nd_conns (ns i) ! c) \<noteq> Handshaking"
  shows "\<exists>k \<ge> i. \<forall>m \<ge> k. remaining (length (sy_log (ns i))) (nd_conns (ns m) ! c) = 0"
proof -
  obtain k where k: "i \<le> k" "remaining (length (sy_log (ns i))) (nd_conns (ns k) ! c) = 0"
    using caught_up [OF assms] by blast
  have "remaining (length (sy_log (ns i))) (nd_conns (ns m) ! c) = 0" if "k \<le> m" for m
    using that
  proof (induction rule: dec_induct)
    case (step m)
    have "c < length (nd_conns (ns m))" using run_conns [OF run c, of m] k(1) step(1) by simp
    then show ?case
      using run_move [OF run, of c m] remaining_falls [of "nd_conns (ns m) ! c"] step(3)
      by (metis le_zero_eq)
  qed (rule k(2))
  then show ?thesis using k(1) by blast
qed

section \<open>Silence\<close>

text \<open>When nothing more is sent, no task has something to send.\<close>

lemma step_sends:
  assumes "node_step parse pt n l n'" and "j < length (sy_tasks n)" and "sends (sy_tasks n ! j)"
    and "\<not> sends (sy_tasks n' ! j)"
  shows "sy_log n' \<noteq> sy_log n"
  using assms(1)
proof cases
  case (node_task k)
  have "k = j"
    using task_step_continues [OF node_task(2)] assms(2-4) by (cases "k = j") (auto simp: nth_append)
  then obtain e p where "sy_tasks n ! k = Send e p"
    using assms(3) by (cases "sy_tasks n ! j") auto
  with node_task(2) show ?thesis by cases auto
next
  case (node_deliver k c m)
  then show ?thesis using assms(3,4) by (cases "k = j") auto
next
  case (node_hear c msg)
  then show ?thesis using assms(2-4) by (auto simp: hear_def Let_def nth_append split: option.splits)
qed (use assms(3,4) in auto)

lemma silence_settles:
  assumes run: "fair_daemon parse pt config ns ls"
    and silent: "\<And>m. i \<le> m \<Longrightarrow> sy_log (ns m) = sy_log (ns i)"
    and m: "i \<le> m" and j: "j < length (sy_tasks (ns m))"
  shows "\<not> sends (sy_tasks (ns m) ! j)"
proof
  assume s: "sends (sy_tasks (ns m) ! j)"
  obtain K where K: "m \<le> K" "\<not> sends (sy_tasks (ns K) ! j)"
  proof (rule rests_returned [OF run j])
    fix K
    assume "m \<le> K" "waits_for_line (sy_tasks (ns K) ! j) \<or> (\<exists>x. sy_tasks (ns K) ! j = Return x)"
    then show thesis using that by (cases "sy_tasks (ns K) ! j") auto
  qed
  obtain k where k: "m \<le> k" "sends (sy_tasks (ns k) ! j)" "\<not> sends (sy_tasks (ns (Suc k)) ! j)"
    using first_change [of "\<lambda>k. sends (sy_tasks (ns k) ! j)", OF s K(2,1)] by blast
  have len: "j < length (sy_tasks (ns k))" using run_tasks_grow [OF run k(1) j] .
  have "sy_log (ns (Suc k)) = sy_log (ns k)" using silent [of k] silent [of "Suc k"] m k(1) by simp
  then show False
    using step_sends [OF _ len k(2,3)] k(2,3) by (cases rule: run_cases [OF run, of k]) auto
qed

text \<open>A run that sends its events promptly, as an infinite run.\<close>

definition prompt_run :: "(nat \<Rightarrow> node) \<Rightarrow> (nat \<Rightarrow> node_label option) \<Rightarrow> bool" where
  "prompt_run ns ls \<longleftrightarrow> (\<forall>i l. ls i = Some l \<longrightarrow> node_prompt (ns i) l)"

lemma prompt_run_reaches:
  assumes run: "fair_daemon parse pt config ns ls" and prompt: "prompt_run ns ls"
  shows "node_run node_prompt parse pt (node_init pt config) (ns i)"
proof (induction i)
  case 0
  have "ns 0 = node_init pt config" using run by (simp add: fair_daemon_def endless_def)
  then show ?case by (simp add: node_refl)
next
  case (Suc i)
  show ?case
  proof (cases rule: run_cases [OF run, of i])
    case (2 l)
    then show ?thesis
      using Suc run_step(1) [OF run] prompt by (intro node_next [OF Suc]) (simp_all add: prompt_run_def)
  qed (use Suc in simp)
qed

section \<open>Properties\<close>


text \<open>
  C5. In a fair run of the daemon every text that an open connection hears is answered: later
  a response with its id is among the frames written since, unless the connection is over.
\<close>

theorem frames_get_answered:
  assumes run: "fair_daemon parse pt config ns ls" and at: "at_phase (ns i) c Serving"
    and hears: "ns (Suc i) = hear parse pt c (TextMessage text) (ns i)"
  shows "\<exists>k > i. over (nd_conns (ns k) ! c) \<or>
    (\<exists>m. response_id m = frame_id parse text \<and>
       ResponseFrame m \<in> set (drop (length (sv_written (nd_conns (ns i) ! c))) (sv_written (nd_conns (ns k) ! c))))"
proof (rule answer_delivered [OF assms])
  fix k m
  assume k: "i < k" "c < length (nd_conns (ns k))" "response_id m = frame_id parse text"
    and s: "nd_conns (ns (Suc k)) ! c = deliver m (nd_conns (ns k) ! c)"
  show ?thesis
  proof (cases "\<exists>K > i. over (nd_conns (ns K) ! c)")
    case False
    have c: "c < length (nd_conns (ns i))" using at by (simp add: at_phase_def)
    have c': "c < length (nd_conns (ns (Suc k)))" using run_move [OF run k(2)] by blast
    have "sv_responses (nd_conns (ns (Suc k)) ! c) = sv_responses (nd_conns (ns k) ! c) @ [m]"
      using s k(1) False by (simp add: deliver_def)
    then obtain K fs where K: "Suc k \<le> K"
      "prefix (sv_written (nd_conns (ns (Suc k)) ! c) @ fs @ [ResponseFrame m]) (sv_written (nd_conns (ns K) ! c))"
      using response_written [OF run c', of "sv_responses (nd_conns (ns k) ! c)" m] False k(1) by auto
    moreover have "prefix (sv_written (nd_conns (ns i) ! c)) (sv_written (nd_conns (ns (Suc k)) ! c))"
      using run_conns [OF run c, of "Suc k"] k(1) by simp
    ultimately have
      "ResponseFrame m \<in> set (drop (length (sv_written (nd_conns (ns i) ! c))) (sv_written (nd_conns (ns K) ! c)))"
      by (auto simp: prefix_def)
    then show ?thesis using k(1,3) K(1) by (intro exI [of _ K]) auto
  qed blast
qed

text \<open>
  C6. In a fair run of the daemon a client that is past the handshake catches up: it is greeted
  with a snapshot and receives every event that was sent since then and until now, unless its
  connection is over.
\<close>

theorem clients_catch_up:
  assumes run: "fair_daemon parse pt config ns ls" and c: "c < length (nd_conns (ns i))"
    and set_up: "sv_phase (nd_conns (ns i) ! c) \<noteq> Handshaking"
  shows "\<exists>k \<ge> i. over (nd_conns (ns k) ! c) \<or>
    (\<exists>m fs. sv_written (nd_conns (ns k) ! c) = EventFrame (SnapshotEvent (snapshot_from (sy_inner m))) # fs \<and>
       sys_reaches pt (sys_init pt config) m \<and> sys_reaches pt m (erase (ns k)) \<and>
       prefix (drop (length (sy_log m)) (sy_log (ns i))) (frame_events fs))"
proof -
  obtain k where k: "i \<le> k" "remaining (length (sy_log (ns i))) (nd_conns (ns k) ! c) = 0"
    using caught_up [OF assms] by blast
  let ?s = "nd_conns (ns k) ! c"
  let ?o = "origin_of sys_reaches (\<lambda>_. True) pt config (ns k)"
  have len: "c < length (nd_conns (ns k))" using run_conns [OF run c k(1)] by blast
  have ok: "stream_ok ?o (sy_log (ns k)) ?s"
    using any.streams [OF run_reaches [OF run, of k]] len by simp
  show ?thesis
  proof (cases "over ?s")
    case False
    then have serving: "sv_phase ?s = Serving" "length (sy_log (ns i)) \<le> sv_next ?s"
      using k(2) by (auto simp: remaining_def over_def split: serve_phase.splits)
    then obtain s b where s: "?o s b" "opens ?s s (take (sv_next ?s - b) (drop b (sy_log (ns k))))"
      using ok by (auto simp: stream_ok_def)
    obtain es where es: "sy_log (ns k) = sy_log (ns i) @ es" using log_grows [OF run k(1)] by (auto simp: prefix_def)
    let ?k = "sv_next ?s - b" and ?log = "sy_log (ns i)"
    have "take ?k (drop b (sy_log (ns k))) = drop b ?log @ take (?k - length (drop b ?log)) (drop (b - length ?log) es)"
      using serving(2) by (simp add: es)
    then have "prefix (drop b ?log) (take ?k (drop b (sy_log (ns k))))" by simp
    moreover obtain m where "sys_reaches pt (sys_init pt config) m" "s = snapshot_from (sy_inner m)"
      "b = length (sy_log m)" "sys_reaches pt m (erase (ns k))"
      using s(1) unfolding origin_of_def by blast
    moreover obtain fs where "sv_written ?s = EventFrame (SnapshotEvent s) # fs"
      "frame_events fs = take ?k (drop b (sy_log (ns k)))"
      using s(2) unfolding opens_def by blast
    ultimately show ?thesis by (intro exI [of _ k] conjI k(1) disjI2 exI [of _ m] exI [of _ fs]) simp_all
  qed (use k(1) in blast)
qed

end
