(* ===== verification/ServedRuns.thy ===== *)
theory ServedRuns
  imports Served Traces
begin

text \<open>
  Runs of the served daemon that are computed, with its tasks, its connections and what the
  environment does.
\<close>

section \<open>Executing moves\<close>

datatype node_move =
    Run nat answer
  | Deliver nat
  | Accept
  | Shake nat bool
  | Subscribe nat
  | Greet nat bool
  | Hear nat socket_message
  | Respond nat bool
  | Pass nat bool

fun node_mover :: "node_move \<Rightarrow> node_label" where
  "node_mover (Run j _) = TaskMoves j"
| "node_mover (Deliver j) = TaskMoves j"
| "node_mover Accept = Outside"
| "node_mover (Shake _ _) = Outside"
| "node_mover (Subscribe c) = ConnMoves c"
| "node_mover (Greet c _) = ConnMoves c"
| "node_mover (Hear _ _) = Outside"
| "node_mover (Respond c _) = ConnMoves c"
| "node_mover (Pass c _) = ConnMoves c"

definition in_serving :: "node \<Rightarrow> nat \<Rightarrow> bool" where
  "in_serving n c \<longleftrightarrow> c < length (nd_conns n) \<and>
     (case sv_phase (nd_conns n ! c) of Serving \<Rightarrow> True | _ \<Rightarrow> False)"

definition is_listening :: "node \<Rightarrow> bool" where
  "is_listening n \<longleftrightarrow> (case sy_tasks n ! 0 of Return Quiet \<Rightarrow> True | _ \<Rightarrow> False)"

fun exec_node_move ::
    "(string \<Rightarrow> json option) \<Rightarrow> paths \<Rightarrow> node \<Rightarrow> node_move \<Rightarrow> node option" where
  "exec_node_move parse pt n (Run j a) =
     (if j < length (sy_tasks n) then act (spawned_job pt) n j a (sy_tasks n ! j) else None)"
| "exec_node_move parse pt n (Deliver j) =
     (if j < length (sy_tasks n) then
        (case sy_tasks n ! j of
           Return (Reply c m) \<Rightarrow>
             (if c < length (nd_conns n) \<and> can_deliver (nd_conns n ! c)
              then Some (on_conn c (deliver m) (resume j (Return Quiet) n)) else None)
         | _ \<Rightarrow> None)
      else None)"
| "exec_node_move parse pt n Accept =
     (if is_listening n then Some (accept_client (Inr ()) n) else None)"
| "exec_node_move parse pt n (Shake c ok) =
     (if c < length (nd_conns n) then
        (case sv_phase (nd_conns n ! c) of
           Handshaking \<Rightarrow> Some (on_conn c (handshake ok) n) | _ \<Rightarrow> None)
      else None)"
| "exec_node_move parse pt n (Subscribe c) =
     (if c < length (nd_conns n) \<and> sy_inner_owner n = None then
        (case sv_phase (nd_conns n ! c) of
           Subscribing \<Rightarrow> Some (on_conn c (subscribe (sy_inner n) (sy_log n)) n) | _ \<Rightarrow> None)
      else None)"
| "exec_node_move parse pt n (Greet c ok) =
     (if c < length (nd_conns n) then
        (case sv_phase (nd_conns n ! c) of
           Greeting s \<Rightarrow> Some (on_conn c (greet ok s) n) | _ \<Rightarrow> None)
      else None)"
| "exec_node_move parse pt n (Hear c msg) =
     (if in_serving n c then Some (hear parse pt c msg n) else None)"
| "exec_node_move parse pt n (Respond c ok) =
     (if in_serving n c \<and> sv_responses (nd_conns n ! c) \<noteq> [] then Some (on_conn c (respond ok) n)
      else None)"
| "exec_node_move parse pt n (Pass c ok) =
     (if in_serving n c then
        (case broadcast_recv (sy_log n) (sv_next (nd_conns n ! c)) of
           Some r \<Rightarrow> Some (on_conn c (on_event ok r) n) | None \<Rightarrow> None)
      else None)"

lemma in_serving_phase: "in_serving n c \<longleftrightarrow> at_phase n c Serving"
  by (auto simp: in_serving_def at_phase_def split: serve_phase.splits)

lemma is_listening_iff: "is_listening n \<longleftrightarrow> listening n"
  by (auto simp: is_listening_def listening_def split: task.splits reply.splits)

lemma exec_node_step:
  "exec_node_move parse pt n m = Some n' \<Longrightarrow> node_step parse pt n (node_mover m) n'"
proof (cases m)
  case (Run j a)
  assume "exec_node_move parse pt n m = Some n'"
  with Run show ?thesis by (auto split: if_splits intro: node_task act_step)
qed (auto simp: in_serving_phase is_listening_iff at_phase_def
    split: if_splits task.splits reply.splits serve_phase.splits option.splits
    simp del: accept_client.simps
    intro: node_deliver node_accept node_handshake node_subscribe node_greet node_hear
      node_respond node_event)

text \<open>A run is checked against the steps that are allowed.\<close>

fun exec_node ::
    "(node \<Rightarrow> node_label \<Rightarrow> bool) \<Rightarrow> (string \<Rightarrow> json option) \<Rightarrow> paths \<Rightarrow> node_move list \<Rightarrow> node \<Rightarrow>
     node option" where
  "exec_node check parse pt [] n = Some n"
| "exec_node check parse pt (m # ms) n =
     (if nd_exit n = None \<and> check n (node_mover m) then
        (case exec_node_move parse pt n m of
           None \<Rightarrow> None | Some n' \<Rightarrow> exec_node check parse pt ms n')
      else None)"

lemma exec_node_run:
  assumes "exec_node check parse pt ms n = Some n'" and "node_run allowed parse pt r n"
    and "\<And>n l. check n l \<Longrightarrow> allowed n l"
  shows "node_run allowed parse pt r n'"
  using assms(1,2)
proof (induction ms arbitrary: n)
  case (Cons m ms)
  then obtain u where "nd_exit n = None" "check n (node_mover m)"
    "exec_node_move parse pt n m = Some u" "exec_node check parse pt ms u = Some n'"
    by (auto split: if_splits option.splits)
  with Cons exec_node_step [of parse pt n m u] assms(3) show ?case by (blast intro: node_next)
qed simp

definition check_prompt :: "node \<Rightarrow> node_label \<Rightarrow> bool" where
  "check_prompt n l \<longleftrightarrow>
     list_all (\<lambda>(j, p). sends p \<longrightarrow> l = TaskMoves j) (List.enumerate 0 (sy_tasks n))"

lemma check_prompt_prompt: "check_prompt n l \<Longrightarrow> node_prompt n l"
  by (auto simp: check_prompt_def node_prompt_def list_all_iff in_set_enumerate_eq)

section \<open>A client of a daemon with one target\<close>

fun run_move :: "move \<Rightarrow> node_move" where
  "run_move (Act j a) = Run j a"
| "run_move (Arrive r) = Accept"

definition no_parse :: "string \<Rightarrow> json option" where
  "no_parse s = None"

definition demo_node :: node where
  "demo_node = node_init demo_paths demo_config"

definition open_client :: "node_move list" where
  "open_client = [Accept, Shake 0 True, Subscribe 0, Greet 0 True]"

text \<open>The client sees the end of a file, and sends a text that is no request.\<close>

definition client_session :: "node_move list" where
  "client_session = map run_move boot_live @ open_client
     @ map run_move (Act 2 (Reads (Some (Some end_file))) # gos 3 2)
     @ [Pass 0 True, Hear 0 (TextMessage ''?''), Deliver 3, Respond 0 True]"

lemma client_session_run:
  "case exec_node check_prompt no_parse demo_paths client_session demo_node of
     None \<Rightarrow> False
   | Some n \<Rightarrow> in_serving n 0 \<and> sv_next (nd_conns n ! 0) = length (sy_log n) \<and>
       list_all (\<lambda>p. \<not> sends p) (sy_tasks n) \<and> length (sy_log n) = 2 \<and>
       length (sv_written (nd_conns n ! 0)) = 3 \<and> length (sv_read (nd_conns n ! 0)) = 1 \<and>
       length (sy_tasks n) = 4"
  by code_simp

lemma prompt_is_run: "node_run node_prompt parse pt n m \<Longrightarrow> node_reaches parse pt n m"
  by (erule node_run_mono) simp

lemma client_session_unfinished:
  "case exec_node check_prompt no_parse demo_paths client_session demo_node of
     None \<Rightarrow> False | Some n \<Rightarrow> \<not> list_all returned (sy_tasks n)"
  by code_simp

lemma demo_client:
  obtains n s where "node_run node_prompt no_parse demo_paths (node_init demo_paths demo_config) n"
    and "s \<in> set (nd_conns n)" and "sv_phase s = Serving" and "sv_next s = length (sy_log n)"
    and "\<forall>p \<in> set (sy_tasks n). \<not> sends p" and "length (sy_log n) = 2"
    and "length (sv_written s) = 3" and "sv_read s \<noteq> []" and "\<not> node_idle n"
proof -
  obtain n where n: "exec_node check_prompt no_parse demo_paths client_session demo_node = Some n"
    using client_session_run by (auto split: option.splits)
  have run: "node_run node_prompt no_parse demo_paths demo_node n"
    by (rule exec_node_run [OF n node_refl check_prompt_prompt])
  have "\<not> list_all returned (sy_tasks n)"
    using client_session_unfinished n by simp
  then have "\<not> node_idle n" by (fastforce simp: node_idle_def list_all_iff)
  moreover have "at_phase n 0 Serving" "sv_next (nd_conns n ! 0) = length (sy_log n)"
    "\<forall>p \<in> set (sy_tasks n). \<not> sends p" "length (sy_log n) = 2"
    "length (sv_written (nd_conns n ! 0)) = 3" "sv_read (nd_conns n ! 0) \<noteq> []"
    using client_session_run by (auto simp: n in_serving_phase list_all_iff)
  ultimately show ?thesis
    using that [of n "nd_conns n ! 0"] run unfolding demo_node_def at_phase_def by simp
qed

theorem served_progress_witness:
  "\<exists>n l n'. length (sy_log n) = 2 \<and> l \<noteq> Outside \<and> node_step no_parse demo_paths n l n'"
proof -
  obtain n s where n: "node_run node_prompt no_parse demo_paths (node_init demo_paths demo_config) n"
    "length (sy_log n) = 2" "\<not> node_idle n"
    by (rule demo_client)
  show ?thesis
    using served_progress [OF demo_valid prompt_is_run [OF n(1)] n(3)] n(2) by blast
qed

theorem responses_answer_frames_witness:
  "\<exists>s. sv_phase s = Serving \<and> sv_read s \<noteq> [] \<and> answered_ids s \<subseteq># asked_ids no_parse s"
proof -
  obtain n s where n: "node_run node_prompt no_parse demo_paths (node_init demo_paths demo_config) n"
    "s \<in> set (nd_conns n)" "sv_phase s = Serving" "sv_read s \<noteq> []"
    by (rule demo_client)
  show ?thesis using responses_answer_frames [OF n(1,2)] n(3,4) by blast
qed

theorem connection_stream_witness:
  "\<exists>(s :: served) m fs. length (sv_written s) = 3 \<and>
     sys_reaches demo_paths (sys_init demo_paths demo_config) m \<and>
     sv_written s = EventFrame (SnapshotEvent (snapshot_from (sy_inner m))) # fs"
proof -
  obtain n s where n: "node_run node_prompt no_parse demo_paths (node_init demo_paths demo_config) n"
    "s \<in> set (nd_conns n)" "length (sv_written s) = 3"
    by (rule demo_client)
  then have "sv_written s \<noteq> []" by auto
  then obtain m fs where "sys_reaches demo_paths (sys_init demo_paths demo_config) m"
    "sv_written s = EventFrame (SnapshotEvent (snapshot_from (sy_inner m))) # fs"
    using connection_stream [OF prompt_is_run [OF n(1)] n(2)] by blast
  with n(3) show ?thesis by blast
qed

section \<open>A snapshot taken too early\<close>

text \<open>
  Task 2 observes the end of a file: it has released the lock with revision 2 but not sent
  the event. A client subscribes in between: its snapshot already has revision 2.
\<close>

definition early_session :: "node_move list" where
  "early_session = map run_move boot_live @ [Accept, Shake 0 True]
     @ map run_move (Act 2 (Reads (Some (Some end_file))) # gos 2 2)
     @ [Subscribe 0, Greet 0 True, Run 2 Go, Pass 0 True]"

definition stale_error :: client_error where
  "stale_error = ProtocolError (RevisionGap ''tv'' 3 2)"

lemma early_session_run:
  "case exec_node (\<lambda>_ _. True) no_parse demo_paths early_session demo_node of
     None \<Rightarrow> False
   | Some n \<Rightarrow> length (nd_conns n) = 1 \<and> in_serving n 0 \<and>
       (case apply_events None (written_events (nd_conns n ! 0)) of
          Inr _ \<Rightarrow> False | Inl e \<Rightarrow> e = stale_error)"
  by code_simp

text \<open>
  C13. A client can be disconnected by an event that its snapshot already contains: there is a
  run in which it subscribes after a task has changed the state and before that task has
  sent the event. No event is lost, but the client finds a revision gap.
\<close>

theorem snapshot_overtakes_event:
  "\<exists>n s. node_reaches no_parse demo_paths (node_init demo_paths demo_config) n \<and>
     nd_conns n = [s] \<and> sv_phase s = Serving \<and>
     apply_events None (written_events s) = Inl (ProtocolError (RevisionGap ''tv'' 3 2))"
proof -
  obtain n where n: "exec_node (\<lambda>_ _. True) no_parse demo_paths early_session demo_node = Some n"
    using early_session_run by (auto split: option.splits)
  have facts: "length (nd_conns n) = 1" "in_serving n 0"
    "apply_events None (written_events (nd_conns n ! 0)) = Inl stale_error"
    using early_session_run by (auto simp: n split: sum.splits)
  then have "nd_conns n = [nd_conns n ! 0]" "sv_phase (nd_conns n ! 0) = Serving"
    by (auto simp: length_Suc_conv in_serving_phase at_phase_def)
  moreover have "node_reaches no_parse demo_paths demo_node n"
    by (rule exec_node_run [OF n node_refl]) simp
  ultimately show ?thesis
    using facts(3) unfolding demo_node_def stale_error_def by blast
qed

end
