(* ===== verification/FairRuns.thy ===== *)
theory FairRuns
  imports Fair ServedRuns
begin

text \<open>
  A fair run of the daemon that is computed: a session after which nothing is left to do,
  and then nothing happens any more.
\<close>

section \<open>States in which nothing is left to do\<close>

fun task_rests_at :: "reply task \<Rightarrow> bool" where
  "task_rests_at (Return Quiet) = True"
| "task_rests_at (ReadLine _ _) = True"
| "task_rests_at _ = False"

definition conn_rests :: "nat \<Rightarrow> served \<Rightarrow> bool" where
  "conn_rests sent s \<longleftrightarrow>
     (case sv_phase s of
        Handshaking \<Rightarrow> True
      | Subscribing \<Rightarrow> False
      | Greeting _ \<Rightarrow> False
      | Serving \<Rightarrow> (case sv_responses s of [] \<Rightarrow> True | _ \<Rightarrow> False) \<and> sv_next s = sent
      | Over _ \<Rightarrow> True)"

definition node_rests :: "node \<Rightarrow> bool" where
  "node_rests n \<longleftrightarrow>
     (case sy_tasks n of [] \<Rightarrow> False | p # ps \<Rightarrow> list_all task_rests_at (p # ps)) \<and>
     list_all (conn_rests (length (sy_log n))) (nd_conns n) \<and>
     (case nd_exit n of None \<Rightarrow> True | Some _ \<Rightarrow> False)"

lemma node_restsD:
  assumes "node_rests n"
  shows "sy_tasks n \<noteq> []" and "nd_exit n = None"
    and "j < length (sy_tasks n) \<Longrightarrow> task_rests_at (sy_tasks n ! j)"
    and "c < length (nd_conns n) \<Longrightarrow> conn_rests (length (sy_log n)) (nd_conns n ! c)"
  using assms by (auto simp: node_rests_def list_all_length split: list.splits option.splits)

lemma rests_not_ready:
  assumes "node_rests n"
  shows "\<not> ready parse pt n j"
proof
  assume ready: "ready parse pt n j"
  then obtain n' where step: "node_step parse pt n (TaskMoves j) n'" by (auto simp: ready_def)
  then have "j < length (sy_tasks n)" using step_exists node_restsD(1) [OF assms] by blast
  then have "task_rests_at (sy_tasks n ! j)" using node_restsD(3) [OF assms] by blast
  then have t: "sy_tasks n ! j = Return Quiet"
    using ready by (cases "sy_tasks n ! j" rule: task_rests_at.cases) (auto simp: ready_def)
  from step show False
    by cases (use t in \<open>auto dest!: task_step_enabled\<close>)
qed

lemma rests_no_branch:
  assumes "node_rests n"
  shows "\<not> branch_step n c b n'"
proof
  assume "branch_step n c b n'"
  then show False
  proof cases
    case (branch_pass r ok)
    then show ?thesis
      using node_restsD(4) [OF assms, of c] by (auto simp: at_phase_def conn_rests_def broadcast_recv_def)
  qed (use node_restsD(4) [OF assms, of c] in \<open>auto simp: at_phase_def conn_rests_def split: list.splits\<close>)
qed

section \<open>Sessions as infinite runs\<close>

lemma exec_node_append:
  "exec_node check parse pt (ms @ ms') n =
     (case exec_node check parse pt ms n of None \<Rightarrow> None | Some u \<Rightarrow> exec_node check parse pt ms' u)"
  by (induction ms arbitrary: n) (auto split: option.splits)

definition session_node ::
    "(string \<Rightarrow> json option) \<Rightarrow> paths \<Rightarrow> daemon_config \<Rightarrow> node_move list \<Rightarrow> nat \<Rightarrow> node" where
  "session_node parse pt config ms i =
     the (exec_node (\<lambda>_ _. True) parse pt (take i ms) (node_init pt config))"

definition session_label :: "node_move list \<Rightarrow> nat \<Rightarrow> node_label option" where
  "session_label ms i = (if i < length ms then Some (node_mover (ms ! i)) else None)"

lemma session_step:
  assumes ends: "exec_node (\<lambda>_ _. True) parse pt ms (node_init pt config) = Some n" and i: "i < length ms"
  shows "exec_node_move parse pt (session_node parse pt config ms i) (ms ! i) =
      Some (session_node parse pt config ms (Suc i))"
    and "nd_exit (session_node parse pt config ms i) = None"
proof -
  let ?exec = "exec_node (\<lambda>_ _. True) parse pt"
  have "?exec (take i ms @ ms ! i # drop (Suc i) ms) (node_init pt config) = Some n"
    using ends i by (simp add: id_take_nth_drop [symmetric])
  then obtain u where u: "?exec (take i ms) (node_init pt config) = Some u"
    "?exec (ms ! i # drop (Suc i) ms) u = Some n"
    by (auto simp: exec_node_append split: option.splits)
  then obtain v where v: "nd_exit u = None" "exec_node_move parse pt u (ms ! i) = Some v"
    by (auto split: if_splits option.splits)
  have "?exec (take (Suc i) ms) (node_init pt config) = Some v"
    using u(1) v i by (simp add: take_Suc_conv_app_nth exec_node_append)
  then show "exec_node_move parse pt (session_node parse pt config ms i) (ms ! i) =
      Some (session_node parse pt config ms (Suc i))"
    and "nd_exit (session_node parse pt config ms i) = None"
    using u(1) v by (simp_all add: session_node_def)
qed

lemma exec_node_unchecked:
  "exec_node check parse pt ms n = Some n' \<Longrightarrow> exec_node (\<lambda>_ _. True) parse pt ms n = Some n'"
  by (induction ms arbitrary: n) (auto split: if_splits option.splits)

lemma session_prompt:
  assumes ends: "exec_node check_prompt parse pt ms (node_init pt config) = Some n"
  shows "prompt_run (session_node parse pt config ms) (session_label ms)"
  unfolding prompt_run_def
proof (intro allI impI)
  fix i l
  assume "session_label ms i = Some l"
  then have i: "i < length ms" "l = node_mover (ms ! i)" by (auto simp: session_label_def split: if_splits)
  let ?exec = "exec_node check_prompt parse pt"
  have "?exec (take i ms @ ms ! i # drop (Suc i) ms) (node_init pt config) = Some n"
    using ends i(1) by (simp add: id_take_nth_drop [symmetric])
  then obtain u where u: "?exec (take i ms) (node_init pt config) = Some u"
    "?exec (ms ! i # drop (Suc i) ms) u = Some n"
    by (auto simp: exec_node_append split: option.splits)
  have "session_node parse pt config ms i = u"
    using exec_node_unchecked [OF u(1)] by (simp add: session_node_def)
  then show "node_prompt (session_node parse pt config ms i) l"
    using u(2) check_prompt_prompt i(2) by (simp split: if_splits)
qed

lemma session_end:
  assumes "exec_node (\<lambda>_ _. True) parse pt ms (node_init pt config) = Some n" and "length ms \<le> i"
  shows "session_node parse pt config ms i = n"
  using assms by (simp add: session_node_def)

lemma session_fair:
  assumes valid: "validate_config config = Inr ()"
    and ends: "exec_node (\<lambda>_ _. True) parse pt ms (node_init pt config) = Some n" and rests: "node_rests n"
  shows "fair_daemon parse pt config (session_node parse pt config ms) (session_label ms)"
proof -
  let ?ns = "session_node parse pt config ms"
  have "nd_exit (?ns i) = None" for i
    using session_step(2) [OF ends] session_end [OF ends] node_restsD(2) [OF rests]
    by (cases "i < length ms") simp_all
  moreover have "case session_label ms i of None \<Rightarrow> ?ns (Suc i) = ?ns i
      | Some l \<Rightarrow> node_step parse pt (?ns i) l (?ns (Suc i))" for i
    using exec_node_step [OF session_step(1) [OF ends]] session_end [OF ends]
    by (cases "i < length ms") (simp_all add: session_label_def)
  moreover have "?ns 0 = node_init pt config" by (simp add: session_node_def)
  ultimately have "endless parse pt config ?ns (session_label ms)" by (simp add: endless_def)
  moreover have "\<not> often (\<lambda>i. ready parse pt (?ns i) j)" for j
    unfolding not_often using session_end [OF ends] rests_not_ready [OF rests] by metis
  moreover have "\<not> often (\<lambda>i. \<exists>n'. branch_step (?ns i) c b n')" for c b
    unfolding not_often using session_end [OF ends] rests_no_branch [OF rests] by metis
  ultimately show ?thesis using valid by (simp add: fair_daemon_def fair_def)
qed

section \<open>A client that is answered\<close>

text \<open>The session of theory ServedRuns; then the observer starts its next round, which waits
  for a line.\<close>

definition fair_session :: "node_move list" where
  "fair_session = client_session @ [Run 2 Go]"

definition fair_nodes :: "nat \<Rightarrow> node" where
  "fair_nodes = session_node no_parse demo_paths demo_config fair_session"

lemma fair_session_run:
  "case exec_node check_prompt no_parse demo_paths fair_session demo_node of
     None \<Rightarrow> False | Some n \<Rightarrow> node_rests n \<and> in_serving n 0 \<and> length (nd_conns n) = 1"
  by code_simp

lemma fair_session_moves:
  "length fair_session = 24 \<and> (case fair_session ! 20 of Hear c m \<Rightarrow> c = 0 \<and> m = TextMessage ''?'' | _ \<Rightarrow> False)"
  by code_simp

lemma fair_demo:
  shows "fair_daemon no_parse demo_paths demo_config fair_nodes (session_label fair_session)"
    and "at_phase (fair_nodes 20) 0 Serving"
    and "fair_nodes (Suc 20) = hear no_parse demo_paths 0 (TextMessage ''?'') (fair_nodes 20)"
    and "\<not> over (nd_conns (fair_nodes i) ! 0) \<or> length (nd_conns (fair_nodes i)) = 0"
    and "prompt_run fair_nodes (session_label fair_session)"
    and "24 \<le> j \<Longrightarrow> fair_nodes j = fair_nodes 24"
    and "at_phase (fair_nodes 24) 0 Serving"
proof -
  obtain n where checked: "exec_node check_prompt no_parse demo_paths fair_session (node_init demo_paths demo_config) = Some n"
    using fair_session_run unfolding demo_node_def by (auto split: option.splits)
  note n = exec_node_unchecked [OF checked]
  have facts: "node_rests n" "at_phase n 0 Serving"
    using fair_session_run checked by (auto simp: demo_node_def in_serving_phase)
  show "prompt_run fair_nodes (session_label fair_session)"
    unfolding fair_nodes_def by (rule session_prompt [OF checked])
  show run: "fair_daemon no_parse demo_paths demo_config fair_nodes (session_label fair_session)"
    unfolding fair_nodes_def by (rule session_fair [OF demo_valid n facts(1)])
  have move: "fair_session ! 20 = Hear 0 (TextMessage ''?'')" and len: "length fair_session = 24"
    using fair_session_moves by (auto split: node_move.splits)
  have "exec_node_move no_parse demo_paths (fair_nodes 20) (fair_session ! 20) = Some (fair_nodes (Suc 20))"
    unfolding fair_nodes_def by (rule session_step(1) [OF n]) (simp add: len)
  then show "at_phase (fair_nodes 20) 0 Serving"
    and "fair_nodes (Suc 20) = hear no_parse demo_paths 0 (TextMessage ''?'') (fair_nodes 20)"
    by (simp_all add: move in_serving_phase split: if_splits)
  have last: "fair_nodes j = n" if "24 \<le> j" for j
    using session_end [OF n] len that by (simp add: fair_nodes_def)
  then show "24 \<le> j \<Longrightarrow> fair_nodes j = fair_nodes 24" and "at_phase (fair_nodes 24) 0 Serving"
    using facts(2) by simp_all
  have over: "\<not> over (nd_conns n ! 0)" using facts(2) by (simp add: at_phase_def over_phase)
  show "\<not> over (nd_conns (fair_nodes i) ! 0) \<or> length (nd_conns (fair_nodes i)) = 0"
  proof (rule ccontr)
    assume no: "\<not> ?thesis"
    then have "over (nd_conns (fair_nodes (max i 24)) ! 0)"
      using run_conns [OF run, of 0 i "max i 24"] by simp
    then show False using over last [of "max i 24"] by simp
  qed
qed


theorem frames_get_answered_witness:
  "\<exists>k m. response_id m = [] \<and> ResponseFrame m \<in> set (sv_written (nd_conns (fair_nodes k) ! 0))"
proof -
  obtain k where k: "20 < k" "over (nd_conns (fair_nodes k) ! 0) \<or>
    (\<exists>m. response_id m = frame_id no_parse ''?'' \<and> ResponseFrame m \<in> set (drop
      (length (sv_written (nd_conns (fair_nodes 20) ! 0))) (sv_written (nd_conns (fair_nodes k) ! 0))))"
    using frames_get_answered [OF fair_demo(1-3)] by blast
  have "0 < length (nd_conns (fair_nodes k))"
    using run_conns [OF fair_demo(1), of 0 20 k] k(1) fair_demo(2) by (simp add: at_phase_def)
  then have "\<not> over (nd_conns (fair_nodes k) ! 0)" using fair_demo(4) [of k] by auto
  moreover have "frame_id no_parse ''?'' = []" by (simp add: frame_id_def no_parse_def)
  ultimately show ?thesis using k(2) by (metis in_set_dropD)
qed

theorem clients_catch_up_witness:
  "\<exists>k m fs. sv_written (nd_conns (fair_nodes k) ! 0) = EventFrame (SnapshotEvent (snapshot_from (sy_inner m))) # fs \<and>
     sys_reaches demo_paths (sys_init demo_paths demo_config) m \<and>
     prefix (drop (length (sy_log m)) (sy_log (fair_nodes 20))) (frame_events fs)"
proof -
  have c: "0 < length (nd_conns (fair_nodes 20))" "sv_phase (nd_conns (fair_nodes 20) ! 0) \<noteq> Handshaking"
    using fair_demo(2) by (simp_all add: at_phase_def)
  obtain k where k: "20 \<le> k" "over (nd_conns (fair_nodes k) ! 0) \<or>
    (\<exists>m fs. sv_written (nd_conns (fair_nodes k) ! 0) = EventFrame (SnapshotEvent (snapshot_from (sy_inner m))) # fs \<and>
     sys_reaches demo_paths (sys_init demo_paths demo_config) m \<and> sys_reaches demo_paths m (erase (fair_nodes k)) \<and>
     prefix (drop (length (sy_log m)) (sy_log (fair_nodes 20))) (frame_events fs))"
    using clients_catch_up [OF fair_demo(1) c] by blast
  have "0 < length (nd_conns (fair_nodes k))" using run_conns [OF fair_demo(1) c(1) k(1)] by blast
  then have "\<not> over (nd_conns (fair_nodes k) ! 0)" using fair_demo(4) [of k] by auto
  then show ?thesis using k(2) by blast
qed

end
