(* ===== verification/Receiving.thy ===== *)
theory Receiving
  imports WireEvents
begin

text \<open>
  What a client makes of a stream of messages: it passes on every event that can be applied,
  in order, and any stream of events that can be applied can be received.
\<close>

section \<open>Received events\<close>

lemma apply_events_last:
  "apply_events v (es @ [e]) = Inr w \<Longrightarrow>
   \<exists>u sn. apply_events v es = Inr u \<and> apply_event u e = Inr sn \<and> w = Some sn"
  by (induction v es rule: apply_events.induct) (auto simp: try_result_def split: sum.splits)

text \<open>The events among the messages of a client, and that it has passed on all of them if they
  can be applied.\<close>

definition message_events :: "incoming list \<Rightarrow> event list" where
  "message_events ms = concat (map (\<lambda>m. case m of IncomingEvent e \<Rightarrow> [e] | _ \<Rightarrow> []) ms)"

lemma message_events_simps [simp]:
  "message_events [] = []" "message_events (ms @ ms') = message_events ms @ message_events ms'"
  "message_events (IncomingEvent e # ms) = e # message_events ms"
  "message_events (IncomingResponse r # ms) = message_events ms"
  by (simp_all add: message_events_def)

text \<open>Every sequence of messages whose events can be applied can be received.\<close>

lemma messages_received:
  "IncomingGarbage \<notin> set ms \<Longrightarrow> apply_events None (message_events ms) = Inr v \<Longrightarrow>
   \<exists>c. conn_reaches c \<and> cn_phase c = Running \<and> cn_received c = ms \<and> cn_snapshot c = v \<and>
     cn_events c = message_events ms \<and> cn_pending c = Map.empty"
proof (induction ms arbitrary: v rule: rev_induct)
  case Nil
  then show ?case using conn_new by (intro exI [of _ new_connection]) (auto simp: new_connection_def)
next
  case (snoc m ms)
  have "\<exists>c' c. conn_reaches c \<and> cn_phase c = Running \<and> cn_received c = ms \<and>
      handle_message c m = Inr c' \<and> cn_phase c' = Running \<and> cn_snapshot c' = v \<and>
      cn_events c' = message_events (ms @ [m]) \<and> cn_pending c' = Map.empty"
  proof (cases m)
    case (IncomingEvent e)
    obtain u sn where u: "apply_events None (message_events ms) = Inr u" "apply_event u e = Inr sn"
      "v = Some sn"
      using apply_events_last snoc.prems(2) IncomingEvent by fastforce
    obtain c where "conn_reaches c \<and> cn_phase c = Running \<and> cn_received c = ms \<and> cn_snapshot c = u \<and>
        cn_events c = message_events ms \<and> cn_pending c = Map.empty"
      using snoc.IH [OF _ u(1)] snoc.prems(1) by auto
    then show ?thesis
      using IncomingEvent u by (intro exI [of _ "c\<lparr>cn_snapshot := Some sn, cn_events := cn_events c @ [e]\<rparr>"]
          exI [of _ c]) simp
  next
    case (IncomingResponse r)
    obtain c where "conn_reaches c \<and> cn_phase c = Running \<and> cn_received c = ms \<and> cn_snapshot c = v \<and>
        cn_events c = message_events ms \<and> cn_pending c = Map.empty"
      using snoc.IH snoc.prems IncomingResponse by auto
    then show ?thesis using IncomingResponse by (intro exI [of _ c]) simp
  next
    case IncomingGarbage
    then show ?thesis using snoc.prems(1) by simp
  qed
  then obtain c' c where c: "conn_reaches c" "cn_phase c = Running" "cn_received c = ms"
    "handle_message c m = Inr c'" "cn_phase c' = Running" "cn_snapshot c' = v"
    "cn_events c' = message_events (ms @ [m])" "cn_pending c' = Map.empty"
    by blast
  have "conn_reaches (c'\<lparr>cn_received := cn_received c @ [m]\<rparr>)" (is "conn_reaches ?d")
    using conn_next [OF c(1) conn_message [OF c(2,4)]] .
  then show ?case using c by (intro exI [of _ ?d]) simp
qed

lemma apply_events_init:
  "apply_events v (es @ [e]) = Inr w \<Longrightarrow> \<exists>u. apply_events v es = Inr u"
  using apply_events_last by blast

lemma shutdown_received [simp]: "cn_received (shutdown c) = cn_received c"
  by (simp add: shutdown_def drain_def split: phase.splits)

lemma call_step_received: "call_step j c s c' s' \<Longrightarrow> cn_received c' = cn_received c"
  by (erule call_stepE) (auto simp: begin_call_def withdraw_def Let_def split: if_splits sum.splits)

lemma handled_events:
  "handle_message c m = Inr c' \<Longrightarrow> cn_events c' = cn_events c @ message_events [m]"
  by (cases m) (auto split: option.splits)

lemma bad_message:
  assumes "handle_message c m = Inl e" and "m \<noteq> IncomingGarbage"
    and "apply_events None (cn_events c) = Inr (cn_snapshot c)"
  shows "\<nexists>v. apply_events None (cn_events c @ message_events [m]) = Inr v"
proof (cases m)
  case (IncomingEvent x)
  then have "apply_event (cn_snapshot c) x = Inl e"
    using assms(1) by (cases "apply_event (cn_snapshot c) x") auto
  then show ?thesis
    using apply_events_last [of None "cn_events c" x] assms(3) IncomingEvent by fastforce
qed (use assms in \<open>auto split: option.splits\<close>)

lemma all_events_passed:
  assumes "conn_reaches c" and "IncomingGarbage \<notin> set (cn_received c)"
    and "apply_events None (message_events (cn_received c)) = Inr v"
  shows "cn_events c = message_events (cn_received c)"
  using assms
proof (induction arbitrary: v rule: conn_reaches.induct)
  case conn_new
  then show ?case by (simp add: new_connection_def)
next
  case (conn_next c c')
  have passed: "cn_events c = message_events (cn_received c)"
    if ext: "cn_received c' = cn_received c \<or> (\<exists>m. cn_received c' = cn_received c @ [m])"
  proof -
    have "\<exists>u. apply_events None (message_events (cn_received c)) = Inr u"
    proof (cases "cn_received c' = cn_received c")
      case False
      then obtain m where m: "cn_received c' = cn_received c @ [m]" using ext by blast
      then show ?thesis using conn_next.prems by (cases m) (auto dest: apply_events_init)
    qed (use conn_next.prems in auto)
    moreover have "IncomingGarbage \<notin> set (cn_received c)" using conn_next.prems ext by auto
    ultimately show ?thesis using conn_next.IH by blast
  qed
  from conn_next.hyps(2) show ?case
  proof cases
    case (conn_call j c'' s)
    then show ?thesis using passed call_step_received call_step_snapshot by fastforce
  next
    case (conn_message msg c'')
    then show ?thesis using passed handled_events [OF conn_message(3)] by simp
  next
    case (conn_bad_message msg e)
    then show ?thesis
      using passed bad_message [OF conn_bad_message(3)] conn_next.prems
        replayed_snapshot [OF conn_next.hyps(1)] by auto
  qed (use passed in simp_all)
qed

end
