(* ===== verification/Connecting.thy ===== *)
theory Connecting
  imports Endpoint Connection
begin

text \<open>
  How a client of \<^verbatim>\<open>crates/mpv-targets/src/client.rs\<close> comes to be and learns of its end:
  \<^verbatim>\<open>connect\<close>, which opens the connection and waits for its first snapshot, and
  \<^verbatim>\<open>wait_disconnected\<close>. The TCP, TLS and WebSocket libraries succeed or fail as they like.
\<close>

section \<open>Opening\<close>

text \<open>What the libraries answer: \<^verbatim>\<open>into_client_request\<close>, \<^verbatim>\<open>TcpStream::connect\<close>,
  \<^verbatim>\<open>ServerName::try_from\<close>, the TLS handshake and \<^verbatim>\<open>client_async\<close>.\<close>

record connect_env =
  ce_request :: "string \<Rightarrow> (string, unit) result"
  ce_tcp :: "string \<Rightarrow> nat \<Rightarrow> (string, unit) result"
  ce_server_name :: "string \<Rightarrow> (string, unit) result"
  ce_tls :: "string \<Rightarrow> (string, unit) result"
  ce_socket :: "string \<Rightarrow> (string, unit) result"

definition open_connection :: "connect_env \<Rightarrow> string \<Rightarrow> (client_error, connection) result" where
  "open_connection env url =
     try_result (parse_endpoint url) (\<lambda>endpoint.
     try_result (map_err UrlError (ce_request env url)) (\<lambda>_.
     try_result (map_err ConnectError (ce_tcp env (ep_host endpoint) (ep_port endpoint))) (\<lambda>_.
     try_result (map_err TlsError (ce_server_name env (ep_host endpoint))) (\<lambda>_.
     try_result (map_err TlsError (ce_tls env (ep_host endpoint))) (\<lambda>_.
     try_result (map_err ConnectError (ce_socket env url)) (\<lambda>_.
       Inr new_connection))))))"

section \<open>Waiting\<close>

text \<open>The two loops wait on the channels of the snapshot and of the reason: they look at the
  values, and then sleep until one of them changes or its sender is gone. The task of the
  connection drops both senders together, at its end.\<close>

datatype 'a waiting = Looking | Sleeping | Returned 'a

inductive wait_snapshot ::
    "connection \<Rightarrow> (client_error, unit) result waiting \<Rightarrow> (client_error, unit) result waiting \<Rightarrow> bool"
  for c where
  snapshot_there: "connect_result c = Some r \<Longrightarrow> wait_snapshot c Looking (Returned r)"
| snapshot_missing: "connect_result c = None \<Longrightarrow> wait_snapshot c Looking Sleeping"
| snapshot_changed: "cn_snapshot c \<noteq> None \<or> cn_reason c \<noteq> None \<Longrightarrow> wait_snapshot c Sleeping Looking"
| snapshot_sender_gone: "cn_phase c = Gone \<Longrightarrow> cn_snapshot c = None \<Longrightarrow>
    wait_snapshot c Sleeping (Returned (Inl Disconnected))"
| reason_sender_gone: "cn_phase c = Gone \<Longrightarrow> cn_reason c = None \<Longrightarrow>
    wait_snapshot c Sleeping (Returned (Inl Disconnected))"

inductive wait_disconnected ::
    "connection \<Rightarrow> disconnect_reason waiting \<Rightarrow> disconnect_reason waiting \<Rightarrow> bool" for c where
  reason_there: "cn_reason c = Some r \<Longrightarrow> wait_disconnected c Looking (Returned r)"
| reason_missing: "cn_reason c = None \<Longrightarrow> wait_disconnected c Looking Sleeping"
| reason_changed: "cn_reason c \<noteq> None \<Longrightarrow> wait_disconnected c Sleeping Looking"
| reason_lost: "cn_phase c = Gone \<Longrightarrow> cn_reason c = None \<Longrightarrow>
    wait_disconnected c Sleeping (Returned (Failed Disconnected))"

text \<open>A loop and the connection take turns.\<close>

inductive with_waiter ::
    "(connection \<Rightarrow> 'a waiting \<Rightarrow> 'a waiting \<Rightarrow> bool) \<Rightarrow> connection \<Rightarrow> connection \<Rightarrow> 'a waiting \<Rightarrow> bool"
  for wait c0 where
  waiter_begins: "with_waiter wait c0 c0 Looking"
| waiter_steps: "with_waiter wait c0 c w \<Longrightarrow> wait c w w' \<Longrightarrow> with_waiter wait c0 c w'"
| connection_steps: "with_waiter wait c0 c w \<Longrightarrow> conn_step c c' \<Longrightarrow> with_waiter wait c0 c' w"

text \<open>The results of \<^verbatim>\<open>connect\<close>; the time can be up at any moment.\<close>

inductive connects :: "connect_env \<Rightarrow> string \<Rightarrow> (client_error, connection) result \<Rightarrow> bool" for env url where
  connect_refused: "open_connection env url = Inl e \<Longrightarrow> connects env url (Inl e)"
| connect_timeout: "connects env url (Inl RequestTimeout)"
| connect_done: "open_connection env url = Inr c0 \<Longrightarrow>
    with_waiter wait_snapshot c0 c (Returned (Inr ())) \<Longrightarrow> connects env url (Inr c)"
| connect_failed: "open_connection env url = Inr c0 \<Longrightarrow>
    with_waiter wait_snapshot c0 c (Returned (Inl e)) \<Longrightarrow> connects env url (Inl e)"

section \<open>What is returned\<close>

lemma opened_new: "open_connection env url = Inr c \<longleftrightarrow> c = new_connection \<and>
   (\<exists>endpoint. parse_endpoint url = Inr endpoint \<and> ce_request env url = Inr () \<and>
     ce_tcp env (ep_host endpoint) (ep_port endpoint) = Inr () \<and>
     ce_server_name env (ep_host endpoint) = Inr () \<and> ce_tls env (ep_host endpoint) = Inr () \<and>
     ce_socket env url = Inr ())"
  by (auto simp: open_connection_def)

lemma waiter_reaches: "with_waiter wait c0 c w \<Longrightarrow> conn_reaches c0 \<Longrightarrow> conn_reaches c"
  by (induction rule: with_waiter.induct) (auto intro: conn_next)

text \<open>A snapshot stays, and so does a reason, which is told before the senders are dropped.\<close>

lemma handle_message_keeps:
  "handle_message c msg = Inr c' \<Longrightarrow>
   (cn_snapshot c \<noteq> None \<longrightarrow> cn_snapshot c' \<noteq> None) \<and> cn_reason c' = cn_reason c \<and> cn_phase c' = cn_phase c"
  by (cases msg) (auto split: option.splits)

lemma call_step_keeps:
  "call_step j c s c' s' \<Longrightarrow>
   cn_snapshot c' = cn_snapshot c \<and> cn_reason c' = cn_reason c \<and> cn_phase c' = cn_phase c"
  by (cases rule: call_step.cases)
    (auto simp: begin_call_def withdraw_def Let_def split: if_splits sum.splits)

definition told :: "connection \<Rightarrow> bool" where
  "told c \<longleftrightarrow> (case cn_phase c of Told _ \<Rightarrow> True | Drained \<Rightarrow> True | Gone \<Rightarrow> True | _ \<Rightarrow> False)"

lemma snapshot_stays: "conn_step c c' \<Longrightarrow> cn_snapshot c \<noteq> None \<Longrightarrow> cn_snapshot c' \<noteq> None"
  by (cases rule: conn_step.cases) (auto dest: call_step_keeps handle_message_keeps)

lemma told_stays:
  assumes "conn_step c c'" and "told c \<longleftrightarrow> cn_reason c \<noteq> None"
  shows "(told c' \<longleftrightarrow> cn_reason c' \<noteq> None) \<and> (cn_reason c \<noteq> None \<longrightarrow> cn_reason c' = cn_reason c)"
  using assms
proof cases
  case conn_shutdown
  then show ?thesis
    using assms(2) by (auto simp: shutdown_def drain_def told_def split: phase.splits)
qed (auto simp: told_def dest: call_step_keeps handle_message_keeps)

lemma told_iff: "conn_reaches c \<Longrightarrow> told c \<longleftrightarrow> cn_reason c \<noteq> None"
proof (induction rule: conn_reaches.induct)
  case conn_new
  then show ?case by (simp add: told_def new_connection_def)
qed (simp add: told_stays)

lemma gone_told: "conn_reaches c \<Longrightarrow> cn_phase c = Gone \<Longrightarrow> cn_reason c \<noteq> None"
  using told_iff [of c] by (simp add: told_def)

text \<open>What a waiting loop has returned is the reason of the end, if it is told at all.\<close>

lemma disconnected_reason:
  assumes "with_waiter wait_disconnected new_connection c (Returned r)"
  shows "cn_reason c = Some r"
proof -
  have "with_waiter wait_disconnected c0 c w \<Longrightarrow> conn_reaches c0 \<Longrightarrow> w = Returned r \<Longrightarrow> cn_reason c = Some r"
    for c0 w
  proof (induction rule: with_waiter.induct)
    case (waiter_steps c w w')
    then have "conn_reaches c" using waiter_reaches by blast
    with gone_told have "cn_phase c = Gone \<longrightarrow> cn_reason c \<noteq> None" by blast
    with waiter_steps show ?case by (auto elim!: wait_disconnected.cases)
  next
    case (connection_steps c w c')
    then have "conn_reaches c" using waiter_reaches by blast
    then show ?case using connection_steps told_stays [OF _ told_iff] by auto
  qed simp
  with assms show ?thesis using conn_new by blast
qed

text \<open>A loop that sleeps can move once there is something to see.\<close>

lemma wait_not_stuck:
  "conn_reaches c \<Longrightarrow> cn_snapshot c \<noteq> None \<or> cn_reason c \<noteq> None \<Longrightarrow> \<forall>r. w \<noteq> Returned r \<Longrightarrow>
   \<exists>w'. wait_snapshot c w w' \<and> w' \<noteq> Sleeping"
proof (cases w)
  case Looking
  moreover assume "cn_snapshot c \<noteq> None \<or> cn_reason c \<noteq> None"
  then obtain r where "connect_result c = Some r"
    by (cases "cn_snapshot c"; cases "cn_reason c") (auto simp: connect_result_def)
  ultimately show ?thesis using snapshot_there by blast
qed (auto intro: snapshot_changed)

lemma snapshot_returned:
  "with_waiter wait_snapshot c0 c w \<Longrightarrow> w = Returned (Inr ()) \<Longrightarrow> cn_snapshot c \<noteq> None"
proof (induction rule: with_waiter.induct)
  case (waiter_steps c w w')
  then show ?case by (auto elim!: wait_snapshot.cases simp: connect_result_def split: if_splits)
next
  case (connection_steps c w c')
  then show ?case using snapshot_stays by blast
qed simp

lemma error_returned:
  "with_waiter wait_snapshot c0 c w \<Longrightarrow> conn_reaches c0 \<Longrightarrow> w = Returned (Inl e) \<Longrightarrow>
   e = Disconnected \<or> (\<exists>r. cn_reason c = Some r \<and> e = disconnect_reason_error r)"
proof (induction rule: with_waiter.induct)
  case (waiter_steps c w w')
  then show ?case by (auto elim!: wait_snapshot.cases simp: connect_result_def split: if_splits)
next
  case (connection_steps c w c')
  then have "conn_reaches c" using waiter_reaches by blast
  then show ?case using connection_steps told_stays [OF _ told_iff] by auto
qed simp


definition permissive :: connect_env where
  "permissive = \<lparr>ce_request = (\<lambda>_. Inr ()), ce_tcp = (\<lambda>_ _. Inr ()), ce_server_name = (\<lambda>_. Inr ()),
     ce_tls = (\<lambda>_. Inr ()), ce_socket = (\<lambda>_. Inr ())\<rparr>"

definition newer_snapshot :: snapshot where
  "newer_snapshot = \<lparr>sn_version = 2, sn_node = ''node'',
     sn_health = \<lparr>h_state = Ready, h_configured = 0, h_expected = 0, h_online = 0\<rparr>, sn_targets = []\<rparr>"

definition newer_error :: client_error where
  "newer_error = ProtocolError (UnsupportedVersion 2)"

definition newer_refused :: connection where
  "newer_refused = new_connection\<lparr>cn_received := [IncomingEvent (SnapshotEvent newer_snapshot)],
     cn_phase := Ended (Some newer_error)\<rparr>"

definition newer_gone :: connection where
  "newer_gone = (shutdown ^^ 5) newer_refused"

lemma permissive_opens: "open_connection permissive ''wss://node:9876'' = Inr new_connection"
proof -
  have "is_ok (parse_endpoint ''wss://node:9876'')"
    by (simp add: parse_endpoint_def strip_prefix_def starts_with_def rsplit_once_def after_last_def
        parse_unsigned_def unsigned_digits_def is_ascii_digit_def decimal_value_def digit_of_def Let_def)
  then show ?thesis by (auto simp: opened_new is_ok_iff permissive_def)
qed

lemma shutdowns_run:
  "with_waiter wait c0 c w \<Longrightarrow> cn_phase c \<noteq> Running \<Longrightarrow>
   with_waiter wait c0 ((shutdown ^^ n) c) w \<and> cn_phase ((shutdown ^^ n) c) \<noteq> Running"
proof (induction n)
  case (Suc n)
  then have "with_waiter wait c0 ((shutdown ^^ n) c) w" "cn_phase ((shutdown ^^ n) c) \<noteq> Running" by blast+
  moreover from this have "cn_phase (shutdown ((shutdown ^^ n) c)) \<noteq> Running"
    by (auto simp: shutdown_def drain_def split: phase.splits)
  ultimately show ?case using connection_steps conn_shutdown by fastforce
qed simp

text \<open>
  C38. Connecting can lose the reason of a failure: when the connection task ends while
  \<^verbatim>\<open>connect\<close> sleeps, it tells the reason and drops both senders; the sleeper may find the
  channel of the snapshots closed first and then returns that it is disconnected, although the
  reason, here a daemon of another protocol version, has been told.
\<close>

theorem connect_loses_reason:
  "connects permissive ''wss://node:9876'' (Inl Disconnected) \<and>
   (\<exists>c. with_waiter wait_snapshot new_connection c (Returned (Inl Disconnected)) \<and>
      cn_reason c = Some (Failed (ProtocolError (UnsupportedVersion 2))))"
proof -
  have "with_waiter wait_snapshot new_connection new_connection Sleeping"
    by (rule waiter_steps [OF waiter_begins], rule snapshot_missing)
      (simp add: connect_result_def new_connection_def)
  moreover have "conn_step new_connection newer_refused"
    using conn_bad_message [of new_connection "IncomingEvent (SnapshotEvent newer_snapshot)" newer_error]
    by (simp add: new_connection_def newer_refused_def apply_event_def newer_snapshot_def
        newer_error_def protocol_version_def)
  ultimately have "with_waiter wait_snapshot new_connection newer_refused Sleeping"
    by (rule connection_steps)
  then have gone: "with_waiter wait_snapshot new_connection newer_gone Sleeping"
    using shutdowns_run [of wait_snapshot new_connection newer_refused Sleeping 5]
    unfolding newer_gone_def by (simp add: newer_refused_def)
  have "cn_phase newer_gone = Gone" "cn_snapshot newer_gone = None"
    and reason: "cn_reason newer_gone = Some (Failed newer_error)"
    by (simp_all add: newer_gone_def newer_refused_def new_connection_def numeral_eq_Suc shutdown_def drain_def)
  then have "with_waiter wait_snapshot new_connection newer_gone (Returned (Inl Disconnected))"
    by (intro waiter_steps [OF gone] snapshot_sender_gone)
  then show ?thesis
    using connect_failed [OF permissive_opens] reason by (auto simp: newer_error_def)
qed

lemma looking_reaches: "conn_reaches c \<Longrightarrow> with_waiter wait new_connection c Looking"
  by (induction rule: conn_reaches.induct) (auto intro: with_waiter.intros)


end
