(* ===== verification/Texts.thy ===== *)
theory Texts
  imports Cli
begin

text \<open>
  How \<^verbatim>\<open>crates/targets/src/main.rs\<close> and \<^verbatim>\<open>crates/deploy-targets/src/main.rs\<close> write names,
  labels and receipts on a terminal. A string is its bytes in UTF-8, so the characters that
  \<^verbatim>\<open>format!\<close> counts and \<^verbatim>\<open>truncate_text\<close> takes are the bytes up to the next one that is no
  continuation byte.
\<close>

section \<open>Characters\<close>

definition continuation :: "char \<Rightarrow> bool" where
  "continuation c \<longleftrightarrow> (of_char c :: nat) \<in> {128..191}"

function utf8_chars :: "string \<Rightarrow> string list" where
  "utf8_chars [] = []"
| "utf8_chars (c # s) = (c # takeWhile continuation s) # utf8_chars (dropWhile continuation s)"
  by pat_completeness auto
termination
  by (relation "measure length") (auto simp: length_dropWhile_le le_imp_less_Suc)

abbreviation char_count :: "string \<Rightarrow> nat" where
  "char_count s \<equiv> length (utf8_chars s)"

definition pad_right :: "nat \<Rightarrow> string \<Rightarrow> string" where
  "pad_right width s = s @ replicate (width - char_count s) (CHR '' '')"

definition pad_left :: "nat \<Rightarrow> string \<Rightarrow> string" where
  "pad_left width s = replicate (width - char_count s) (CHR '' '') @ s"

text \<open>\<^verbatim>\<open>trim_start_matches\<close> for the scheme of a URL.\<close>

function trim_scheme :: "string \<Rightarrow> string" where
  "trim_scheme s = (if starts_with s ''wss://'' then trim_scheme (drop 6 s) else s)"
  by pat_completeness auto
termination
proof (relation "measure length")
  fix s
  assume "starts_with s ''wss://''"
  then have "s \<noteq> []" by (auto simp: starts_with_def)
  then show "(drop 6 s, s) \<in> measure length" by simp
qed simp

declare trim_scheme.simps [simp del]

section \<open>Labels\<close>

definition quoted_name :: "string \<Rightarrow> string" where
  "quoted_name target = [CHR 0x22] @ map ascii_upper target @ [CHR 0x22]"

definition quoted_target :: "string \<Rightarrow> string" where
  "quoted_target target = pad_right 16 (quoted_name target)"

definition truncate_text :: "string \<Rightarrow> nat \<Rightarrow> string" where
  "truncate_text s width =
     (if char_count s \<le> width then s
      else concat (take (width - 3) (utf8_chars s)) @ ''...'')"

definition on_off_label :: "string option \<Rightarrow> string" where
  "on_off_label s = (if s = Some ''on'' then ''On '' else ''Off'')"

fun capitalized :: "string \<Rightarrow> string" where
  "capitalized [] = []"
| "capitalized (c # s) = ascii_upper c # s"

definition action_label :: "string \<Rightarrow> string" where
  "action_label action =
     join_with '': '' (map (\<lambda>part. join_with '' '' (map capitalized (split_on CHR ''-'' part)))
       (split_on CHR '':'' action))"

definition member_is :: "json \<Rightarrow> string \<Rightarrow> bool \<Rightarrow> bool" where
  "member_is data k b \<longleftrightarrow> Option.bind (json_get data k) as_bool = Some b"

definition result_label :: "string \<Rightarrow> json \<Rightarrow> string" where
  "result_label action data =
     (if member_is data ''online'' True then ''Online''
      else if member_is data ''stopped'' True then ''Stopped''
      else if member_is data ''disabled'' True then ''Disabled''
      else if member_is data ''disabled'' False then ''Enabled''
      else if member_is data ''restart_completed'' True then ''Restarted''
      else if action = ''remove'' then ''Removed''
      else ''OK'')"

fun status_label :: "target_status \<Rightarrow> string" where
  "status_label StatusDisabled = ''Disabled''"
| "status_label StatusStopped = ''Stopped''"
| "status_label StatusOffline = ''Offline''"
| "status_label StatusIdle = ''Idle''"
| "status_label StatusPaused = ''Paused''"
| "status_label StatusPlaying = ''Playing''"

text \<open>\<^verbatim>\<open>lib.rs\<close>: the part of a channel after its last slash.\<close>

definition channel_display_name :: "string \<Rightarrow> string" where
  "channel_display_name channel = after_last (CHR ''/'') channel"

definition playlist_item_display :: "playlist_item \<Rightarrow> string" where
  "playlist_item_display entry =
     (case pi_title entry of
        Some (c # title) \<Rightarrow> c # title
      | _ \<Rightarrow> (if starts_with (pi_filename entry) ''http'' then pi_filename entry
             else after_last (CHR ''/'') (pi_filename entry)))"

definition work_receipt :: "string \<Rightarrow> string \<Rightarrow> string" where
  "work_receipt action object =
     ''['' @ action @ '']'' @ replicate (9 - length action) (CHR '' '') @ '' :: '' @ object"

section \<open>Counting characters\<close>

lemma concat_chars [simp]: "concat (utf8_chars s) = s"
  by (induction s rule: utf8_chars.induct) simp_all

text \<open>A list of characters: each has its continuation bytes, and only the first may begin
  with one.\<close>

fun char_blocks :: "string list \<Rightarrow> bool" where
  "char_blocks [] = True"
| "char_blocks (b # bs) \<longleftrightarrow> b \<noteq> [] \<and> list_all continuation (tl b) \<and>
     list_all (\<lambda>b. b \<noteq> [] \<and> \<not> continuation (hd b)) bs \<and> char_blocks bs"

lemma no_continuation:
  assumes "t = [] \<or> \<not> continuation (hd t)"
  shows "takeWhile continuation t = []" and "dropWhile continuation t = t"
  using assms by (cases t; simp)+

lemma blocks_chars: "char_blocks bs \<Longrightarrow> utf8_chars (concat bs) = bs"
proof (induction bs)
  case (Cons b bs)
  from Cons.prems obtain c s where b: "b = c # s" "list_all continuation s" by (cases b) auto
  have "concat bs = [] \<or> \<not> continuation (hd (concat bs))"
  proof (cases bs)
    case (Cons a as)
    then have "a \<noteq> []" "\<not> continuation (hd a)" using \<open>char_blocks (b # bs)\<close> by simp_all
    then show ?thesis unfolding Cons by simp
  qed simp
  then have rest: "takeWhile continuation (concat bs) = []" "dropWhile continuation (concat bs) = concat bs"
    by (rule no_continuation)+
  have "takeWhile continuation (s @ concat bs) = s" "dropWhile continuation (s @ concat bs) = concat bs"
    using b(2) rest by (simp_all add: list_all_iff takeWhile_append2 dropWhile_append2)
  then show ?case using Cons.IH Cons.prems by (simp add: b(1))
qed simp

lemma chars_blocks: "char_blocks (utf8_chars s)"
proof -
  have later: "list_all (\<lambda>b. b \<noteq> [] \<and> \<not> continuation (hd b)) (utf8_chars (dropWhile continuation s))" for s
  proof (induction s rule: length_induct)
    case (1 s)
    show ?case
    proof (cases "dropWhile continuation s")
      case (Cons c t)
      then have "\<not> continuation c" by (metis hd_dropWhile list.sel(1) list.distinct(1))
      moreover have "length t < length s"
        using Cons length_dropWhile_le [of continuation s] by simp
      ultimately show ?thesis using 1 by (simp add: Cons)
    next
      case Nil
      show ?thesis unfolding Nil by simp
    qed
  qed
  have "list_all continuation (takeWhile continuation s)" for s
    by (auto simp: list_all_iff dest: set_takeWhileD)
  then show ?thesis by (induction s rule: utf8_chars.induct) (simp_all add: later)
qed

lemma char_blocks_take: "char_blocks bs \<Longrightarrow> char_blocks (take n bs)"
  by (induction bs arbitrary: n) (auto simp: take_Cons list_all_iff dest: in_set_takeD split: nat.split)

lemma char_blocks_snoc:
  "char_blocks (bs @ [b]) \<longleftrightarrow> char_blocks bs \<and> b \<noteq> [] \<and> list_all continuation (tl b) \<and>
     (bs \<noteq> [] \<longrightarrow> \<not> continuation (hd b))"
  by (induction bs) auto

lemma ascii_no_continuation: "(of_char c :: nat) < 128 \<Longrightarrow> \<not> continuation c"
  by (simp add: continuation_def)

lemma plain_chars: "list_all (\<lambda>c. \<not> continuation c) s \<Longrightarrow> utf8_chars s = map (\<lambda>c. [c]) s"
proof (induction s)
  case (Cons c s)
  then have "takeWhile continuation s = []" "dropWhile continuation s = s" by (cases s; simp)+
  with Cons show ?case by simp
qed simp

lemma chars_append:
  assumes "list_all (\<lambda>c. \<not> continuation c) t"
  shows "utf8_chars (s @ t) = utf8_chars s @ utf8_chars t"
proof -
  have "char_blocks (utf8_chars s @ map (\<lambda>c. [c]) t)"
    using assms
  proof (induction t rule: rev_induct)
    case (snoc c t)
    then show ?case using char_blocks_snoc [of "utf8_chars s @ map (\<lambda>c. [c]) t" "[c]"] by simp
  qed (simp add: chars_blocks)
  from blocks_chars [OF this] show ?thesis
    using assms by (simp add: plain_chars comp_def)
qed

lemma count_append:
  "list_all (\<lambda>c. \<not> continuation c) t \<Longrightarrow> char_count (s @ t) = char_count s + length t"
  by (simp add: chars_append plain_chars)

lemma space_plain [simp]: "\<not> continuation (CHR '' '')" "\<not> continuation (CHR ''.'')"
  by code_simp+

lemma pad_right_count [simp]: "char_count (pad_right n s) = max n (char_count s)"
  by (simp add: pad_right_def count_append list_all_iff)

text \<open>A text that is cut is a prefix of its characters with an ellipsis, and fits.\<close>

lemma truncated_chars:
  "\<not> char_count s \<le> n \<Longrightarrow> utf8_chars (truncate_text s n) =
     take (n - 3) (utf8_chars s) @ [''.'', ''.'', ''.'']"
proof -
  assume long: "\<not> char_count s \<le> n"
  have "utf8_chars (concat (take (n - 3) (utf8_chars s)) @ ''...'') =
    utf8_chars (concat (take (n - 3) (utf8_chars s))) @ utf8_chars ''...''"
    by (intro chars_append) simp
  also have "utf8_chars (concat (take (n - 3) (utf8_chars s))) = take (n - 3) (utf8_chars s)"
    by (intro blocks_chars char_blocks_take chars_blocks)
  finally show ?thesis using long by (simp add: truncate_text_def)
qed

lemma truncated_count: "3 \<le> n \<Longrightarrow> char_count (truncate_text s n) \<le> n"
proof (cases "char_count s \<le> n")
  case True
  then show ?thesis by (simp add: truncate_text_def)
next
  case False
  assume "3 \<le> n"
  with False show ?thesis by (simp add: truncated_chars)
qed

lemma join_with_Cons: "ss \<noteq> [] \<Longrightarrow> join_with sep (s # ss) = s @ sep @ join_with sep ss"
  by (cases ss) simp_all

end
