(* ===== verification/Receipts.thy ===== *)
theory Receipts
  imports DeployTree Texts
begin

text \<open>
  What \<^verbatim>\<open>Plan::apply_at\<close> of \<^verbatim>\<open>crates/deploy-targets/src/main.rs\<close> prints about its work, and
  that every receipt names something the deployment has made.
\<close>

definition target_receipts :: "plan \<Rightarrow> string \<Rightarrow> (string \<times> path) list" where
  "target_receipts p name =
     (let directory = target_dir p name in
      [(''Created'', directory), (''Created'', path_join directory ''mpv.conf''),
       (''Created'', path_join directory ''scripts'')])"

text \<open>\<open>installed\<close> tells whether the unit was there before.\<close>

definition plan_receipts ::
    "plan \<Rightarrow> path \<Rightarrow> path \<Rightarrow> path \<Rightarrow> path \<Rightarrow> bool \<Rightarrow> (string \<times> path) list" where
  "plan_receipts p unit_path daemon_path logs helper_path installed =
     (let base = pl_config_root p in
      [(''Created'', base), (''Created'', logs), (''Created'', path_join base ''tls''),
       (''Created'', path_join base ''channels'')]
      @ concat (map (\<lambda>nc. target_receipts p (fst nc)) (pl_target_configs p))
      @ [(''Created'', path_join base ''mpv-targets.toml''), (''Installed'', daemon_path)]
      @ (if pl_host_profile p = Hyprland then [(''Installed'', helper_path)] else [])
      @ [(if installed then ''Replaced'' else ''Installed'', unit_path)])"

text \<open>The lines after all files are written: \<open>started\<close> tells whether the service could be
  started, when it is to be.\<close>

definition apply_lines ::
    "plan \<Rightarrow> path \<Rightarrow> path \<Rightarrow> path \<Rightarrow> path \<Rightarrow> bool \<Rightarrow> bool \<Rightarrow> string list" where
  "apply_lines p unit_path daemon_path logs helper_path installed started =
     map (\<lambda>(action, q). work_receipt action (display_path q))
       (plan_receipts p unit_path daemon_path logs helper_path installed)
     @ (if pl_install_service p
        then (if started then [work_receipt ''Started'' ''mpv-targets.service''] else [])
        else [work_receipt ''Saved'' (display_path (pl_config_root p)),
          ''to start manually: systemctl --user daemon-reload && systemctl --user enable --now mpv-targets.service''])"

section \<open>The receipts are true\<close>

text \<open>A step makes a directory with its parents, or puts a file in its place.\<close>

fun makes :: "deploy_step \<Rightarrow> path \<Rightarrow> bool" where
  "makes (Perform (File (CreateDirAll p)) err cleaning) q \<longleftrightarrow> below q p"
| "makes (Perform (File (RenamePath a p)) err cleaning) q \<longleftrightarrow> q = p"
| "makes _ q \<longleftrightarrow> False"

lemma atomic_write_makes: "list_ex (\<lambda>s. makes s p) (atomic_write pid p c m)"
  by (simp add: atomic_write_def Let_def)

lemma make_dirs_makes: "below q p \<Longrightarrow> makes (make_dirs p e) q"
  by (simp add: make_dirs_def)

lemma below_join: "plain_segment s \<Longrightarrow> below base (path_join base s)"
  by (simp add: plain_join below_def)

lemma below_self: "below p p"
  by (simp add: below_def)

lemma targets_made:
  assumes "r \<in> set (concat (map (\<lambda>nc. target_receipts p (fst nc)) (pl_target_configs p)))"
  shows "list_ex (\<lambda>s. makes s (snd r)) (concat (map (write_target pid p) (pl_target_configs p)))"
proof -
  obtain nc where nc: "nc \<in> set (pl_target_configs p)" "r \<in> set (target_receipts p (fst nc))"
    using assms by auto
  have "plain_segment ''scripts''" by (simp add: plain_segment_def)
  then have "list_ex (\<lambda>s. makes s (snd r)) (write_target pid p nc)"
    using nc(2) atomic_write_makes
    by (auto simp: target_receipts_def write_target_def Let_def make_dirs_makes below_join below_self)
  with nc(1) show ?thesis by (auto simp: list_ex_iff)
qed

lemma receipts_made:
  assumes "r \<in> set (plan_receipts p unit_path daemon_path logs helper_path installed)"
  shows "list_ex (\<lambda>s. makes s (snd r)) (apply_at pid to_toml p unit_path daemon_path logs helper_path)"
proof -
  have plain: "plain_segment ''targets''" by (simp add: plain_segment_def)
  have "snd r = pl_config_root p \<or> snd r = logs \<or> snd r = path_join (pl_config_root p) ''tls'' \<or>
      snd r = path_join (pl_config_root p) ''channels'' \<or>
      r \<in> set (concat (map (\<lambda>nc. target_receipts p (fst nc)) (pl_target_configs p))) \<or>
      snd r = path_join (pl_config_root p) ''mpv-targets.toml'' \<or> snd r = daemon_path \<or>
      pl_host_profile p = Hyprland \<and> snd r = helper_path \<or> snd r = unit_path"
    using assms by (auto simp: plan_receipts_def Let_def split: if_splits)
  then show ?thesis
    using targets_made [of r p pid] atomic_write_makes
    by (elim disjE conjE; simp add: apply_at_def make_tree_def install_unit_def Let_def make_dirs_makes
        below_join [OF plain] below_self)
qed

section \<open>The place of the configuration\<close>

text \<open>The command line reads the configuration of the local daemon where a deployment by the
  same user writes it.\<close>

lemma operator_finds_deployment:
  "local_config_root (dv_config_home v) (dv_home v) = Inr base \<longleftrightarrow> config_root v = Inr base"
  by (cases "dv_config_home v"; cases "dv_home v")
    (simp_all add: local_config_root_def configured_path_def config_root_def)

end
