(* ===== verification/Dialogue.thy ===== *)
theory Dialogue
  imports Commands Texts WireEvents
begin

text \<open>
  The commands of \<^verbatim>\<open>crates/targets/src/main.rs\<close> as the operator sees them: what is sent,
  what is read from each answer, and what is printed. A command is a tree of these steps;
  leaving out what is printed, it follows its script of requests in Cli. Printing and
  reading a line of the terminal succeed.
\<close>

section \<open>Dialogues\<close>

type_synonym answer = "(client_error, string response) result"

datatype dialogue =
    Finish
  | Fail cli_error
  | Unreachable
  | Print string dialogue
  | Call "string option" operation "answer \<Rightarrow> dialogue"

text \<open>The terminal: the line typed at a prompt, if the input is a terminal; whether the output
  is one; and the texts of JSON values and of a volume (\<^verbatim>\<open>{volume:3.0}\<close>).\<close>

record terminal =
  tm_line :: "string option"
  tm_screen :: bool
  tm_json :: "json \<Rightarrow> string"
  tm_pretty :: "json \<Rightarrow> string"
  tm_volume :: "f64 \<Rightarrow> string"

definition println :: "string \<Rightarrow> dialogue \<Rightarrow> dialogue" where
  "println s d = Print (s @ [newline]) d"

definition print_work_receipt :: "string \<Rightarrow> string \<Rightarrow> dialogue \<Rightarrow> dialogue" where
  "print_work_receipt action object = println (work_receipt action object)"

definition print_all :: "string list \<Rightarrow> dialogue \<Rightarrow> dialogue" where
  "print_all = foldr println"

definition clear_interactive_terminal :: "terminal \<Rightarrow> dialogue \<Rightarrow> dialogue" where
  "clear_interactive_terminal tm d =
     (if tm_screen tm then Print ([CHR 0x1B] @ ''[2J'' @ [CHR 0x1B] @ ''[H'') d else d)"

definition for_each :: "('a \<Rightarrow> dialogue \<Rightarrow> dialogue) \<Rightarrow> 'a list \<Rightarrow> dialogue" where
  "for_each body xs = foldr body xs Finish"

text \<open>A typed method of the client, and one that returns the response.\<close>

definition typed :: "(json \<Rightarrow> 'a option) \<Rightarrow> ('a \<Rightarrow> dialogue) \<Rightarrow> answer \<Rightarrow> dialogue" where
  "typed decode k r =
     (case try_result r (decode_success decode) of Inl e \<Rightarrow> Fail (Request e) | Inr x \<Rightarrow> k x)"

definition untyped :: "(string response \<Rightarrow> dialogue) \<Rightarrow> answer \<Rightarrow> dialogue" where
  "untyped k r = (case r of Inl e \<Rightarrow> Fail (Request e) | Inr m \<Rightarrow> k m)"

definition call_service ::
    "string \<Rightarrow> service_call \<Rightarrow> (json \<Rightarrow> 'a option) \<Rightarrow> ('a \<Rightarrow> dialogue) \<Rightarrow> dialogue" where
  "call_service target call decode k =
     Call (Some target) (service_operation call) (typed decode k)"

section \<open>Responses of the player\<close>

definition print_target_data ::
    "terminal \<Rightarrow> json \<Rightarrow> string \<Rightarrow> string \<Rightarrow> dialogue \<Rightarrow> dialogue" where
  "print_target_data tm data target action =
     (let label = action_label action in
      println (quoted_target target @ '' :: ['' @ label @ ''] :: '' @
        (if is_null data \<or> is_object data
         then ''['' @ result_label (to_ascii_lowercase label) data @ '']''
         else tm_json tm data)))"

fun response_data :: "string response \<Rightarrow> (cli_error, json) result" where
  "response_data (Success i data) = Inr data"
| "response_data (Failure i code message) = Inl (RefusedResponse code message)"

definition print_target_response ::
    "terminal \<Rightarrow> string response \<Rightarrow> string \<Rightarrow> string \<Rightarrow> dialogue \<Rightarrow> dialogue" where
  "print_target_response tm m target action d =
     (case response_data m of
        Inl e \<Rightarrow> Fail e
      | Inr data \<Rightarrow> print_target_data tm data target action d)"

text \<open>The match of \<^verbatim>\<open>mpv_action\<close> on the command is \<open>mpv_action_step\<close>.\<close>

definition mpv_action :: "terminal \<Rightarrow> snapshot option \<Rightarrow> string \<Rightarrow> string list \<Rightarrow> dialogue" where
  "mpv_action tm cached command args =
     (case (args, cached) of
        ([], _) \<Rightarrow> Fail MissingTargetArgument
      | (_, None) \<Rightarrow> Fail NoSnapshot
      | (first # _, Some sn) \<Rightarrow>
          (let bulk = (first = ''all'');
               targets = (if bulk then map tr_name (filter playable (sn_targets sn))
                          else if List.member single_target_actions command then [first] else args);
               all_paused = (bulk \<and>
                 list_all (\<lambda>t. ts_paused (tr_state t) = Some True) (filter playable (sn_targets sn)))
           in for_each (\<lambda>target rest.
                case mpv_action_step sn bulk all_paused command args target of
                  Send t op \<Rightarrow> Call (Some t) op (untyped (\<lambda>m.
                    print_target_response tm m target command rest))
                | Abort e \<Rightarrow> Fail e
                | Crash \<Rightarrow> Unreachable) targets))"

definition identify_dialogue :: "terminal \<Rightarrow> snapshot option \<Rightarrow> string list \<Rightarrow> dialogue" where
  "identify_dialogue tm cached args =
     (if args \<noteq> [] \<and> \<not> is_selector (hd args) then Fail IdentifyArgument
      else case cached of
        None \<Rightarrow> Fail NoSnapshot
      | Some sn \<Rightarrow> for_each (\<lambda>t rest.
          Call (Some (tr_name t)) (setting_operation (ShowText (identify_text (tr_name t)) 4000))
            (untyped (\<lambda>m. print_target_response tm m (tr_name t) ''identify'' rest)))
          (filter tr_online (sn_targets sn)))"

definition native_mpv :: "terminal \<Rightarrow> string list \<Rightarrow> dialogue" where
  "native_mpv tm args =
     (case args of
        [] \<Rightarrow> Fail MissingTargetArgument
      | [_] \<Rightarrow> Fail (MissingArgument ''allowed native command'')
      | target # command # rest \<Rightarrow>
          Call (Some target) (Mpv command (map JStr rest)) (untyped (\<lambda>m.
            print_target_response tm m target (''mpv:'' @ command) Finish)))"

text \<open>One line of the current playlist.\<close>

definition playlist_line :: "nat \<Rightarrow> playlist_item \<Rightarrow> string" where
  "playlist_line i entry =
     (if pi_current entry then ''>'' else '' '') @ '' '' @ pad_left 3 (show_nat i) @ '' '' @
     truncate_text (playlist_item_display entry) 72"

definition playlist_lines :: "string \<Rightarrow> playlist_item list \<Rightarrow> string list" where
  "playlist_lines target entries =
     (quoted_name target @ '' :: [Current Playlist]'') #
     map (\<lambda>(i, entry). playlist_line i entry) (enumerate 0 entries)"

definition playlist_dialogue :: "terminal \<Rightarrow> string list \<Rightarrow> dialogue" where
  "playlist_dialogue tm args =
     (case args of
        [] \<Rightarrow> Fail MissingTargetArgument
      | [target] \<Rightarrow>
          Call (Some target) (playback_operation Playlist) (typed decode_playlist (\<lambda>entries.
            clear_interactive_terminal tm (print_all (playlist_lines target entries) Finish)))
      | target # item # _ \<Rightarrow>
          (case parse_unsigned (2 ^ 32 - 1) item of
             None \<Rightarrow> Fail ItemNotNumber
           | Some n \<Rightarrow> Call (Some target) (playback_operation (PlaylistPlay (word_of_nat n)))
               (untyped (\<lambda>m. print_target_response tm m target (''playlist:'' @ show_nat n) Finish))))"

section \<open>Power and registry\<close>

definition power_label :: "bool \<Rightarrow> string" where
  "power_label online = (if online then ''Online'' else ''Stopped'')"

definition enable_label :: "bool \<Rightarrow> string" where
  "enable_label disabled = (if disabled then ''Disabled'' else ''Enabled'')"

definition lifecycle_answer :: "string \<Rightarrow> (string \<Rightarrow> dialogue) \<Rightarrow> answer \<Rightarrow> dialogue" where
  "lifecycle_answer command k =
     (if command = ''stop'' then typed decode_lifecycle (\<lambda>r. k (power_label (\<not> lr_stopped r)))
      else if command = ''enable'' \<or> command = ''disable'' then
        typed decode_enable (\<lambda>r. k (enable_label (er_disabled r)))
      else typed decode_lifecycle (\<lambda>r. k (power_label (lr_online r))))"

definition lifecycle_one :: "string \<Rightarrow> string list \<Rightarrow> string \<Rightarrow> dialogue \<Rightarrow> dialogue" where
  "lifecycle_one command args target rest =
     (let receipt = (\<lambda>result. println
            (quoted_target target @ '' :: ['' @ action_label command @ ''] :: ['' @ result @ '']'') rest)
      in case lifecycle_call command of
           None \<Rightarrow> Unreachable
         | Some call \<Rightarrow> Call (Some target) (service_operation call) (lifecycle_answer command (\<lambda>result.
             if command = ''enable'' \<and> List.member args ''--start'' then
               call_service target CallStart decode_lifecycle (\<lambda>r. receipt (power_label (lr_online r)))
             else receipt result)))"

definition lifecycle_dialogue :: "snapshot option \<Rightarrow> string \<Rightarrow> string list \<Rightarrow> dialogue" where
  "lifecycle_dialogue cached command args =
     (let named = filter (\<lambda>a. \<not> is_flag a) args in
      if named \<noteq> [] \<and> hd named = ''all'' then
        (case cached of
           None \<Rightarrow> Fail NoSnapshot
         | Some sn \<Rightarrow> for_each (lifecycle_one command args) (lifecycle_all_targets sn command))
      else for_each (lifecycle_one command args) named)"

text \<open>The prompts; only an answer of \<^verbatim>\<open>y\<close> goes on.\<close>

definition confirmed :: "string \<Rightarrow> bool" where
  "confirmed line \<longleftrightarrow> trim_spaces line = ''y'' \<or> trim_spaces line = ''Y''"

definition confirm_then :: "terminal \<Rightarrow> string list \<Rightarrow> (dialogue \<Rightarrow> dialogue) \<Rightarrow> dialogue \<Rightarrow> dialogue" where
  "confirm_then tm args ask d =
     (if List.member args ''--yes'' then d
      else case tm_line tm of
        None \<Rightarrow> Fail NeedsConfirmation
      | Some line \<Rightarrow> ask (if confirmed line then d else Finish))"

definition confirm_remove :: "string \<Rightarrow> dialogue \<Rightarrow> dialogue" where
  "confirm_remove target d =
     print_work_receipt ''Remove'' (''target '' @ target)
       (Print ''This removes its target directory. Continue? [y/N] '' d)"

definition confirm_rename :: "string \<Rightarrow> string \<Rightarrow> dialogue \<Rightarrow> dialogue" where
  "confirm_rename old new d =
     print_work_receipt ''Rename'' (old @ '' -> '' @ new)
       (print_work_receipt ''Move'' (''targets/'' @ old @ ''/ -> targets/'' @ new @ ''/'')
         (Print (newline # ''continue? [y/N] '') d))"

definition remove_target :: "terminal \<Rightarrow> string list \<Rightarrow> dialogue" where
  "remove_target tm args =
     (case args of
        [] \<Rightarrow> Fail MissingTargetArgument
      | target # _ \<Rightarrow> confirm_then tm args (confirm_remove target)
          (call_service target CallRemove decode_remove (\<lambda>r.
            println (quoted_target (rr_removed r) @ '' :: [Remove] :: [Removed]'') Finish)))"

definition rename_target :: "terminal \<Rightarrow> string list \<Rightarrow> dialogue" where
  "rename_target tm args =
     (case args of
        [] \<Rightarrow> Fail MissingTargetArgument
      | [_] \<Rightarrow> Fail (MissingArgument ''new target name'')
      | old # new # _ \<Rightarrow> confirm_then tm args (confirm_rename old new)
          (call_service old (CallRename new) decode_rename (\<lambda>r.
            println (quoted_target (nr_from r) @ '' -> '' @ quoted_target (nr_to r) @ '' :: [Renamed]'')
              Finish)))"

section \<open>Channels\<close>

definition channel_entries :: "(string list \<Rightarrow> dialogue) \<Rightarrow> dialogue" where
  "channel_entries k = Call None NodeListChannels (typed decode_catalog (\<lambda>c. k (cc_channels c)))"

definition choose_channel :: "string \<Rightarrow> (string \<Rightarrow> dialogue) \<Rightarrow> dialogue" where
  "choose_channel choice k =
     (if contains_str choice ''://'' \<or> is_absolute choice then k choice
      else channel_entries (\<lambda>entries.
        case resolve_channel (Inr entries) choice of Inl e \<Rightarrow> Fail e | Inr c \<Rightarrow> k c))"

definition channel_lines :: "string list \<Rightarrow> string list" where
  "channel_lines entries =
     ('':: [Channels] ::'' @ [newline]) #
     map (\<lambda>(i, c). show_nat (Suc i) @ ''. '' @ channel_display_name c) (enumerate 0 entries)"

definition show_channels :: "terminal \<Rightarrow> dialogue" where
  "show_channels tm = channel_entries (\<lambda>entries.
     clear_interactive_terminal tm (print_all (channel_lines entries) Finish))"

definition channel_dialogue :: "string \<Rightarrow> string list \<Rightarrow> dialogue" where
  "channel_dialogue command args =
     (case args of
        [] \<Rightarrow> Fail MissingTargetArgument
      | target # rest \<Rightarrow>
          (let restart = List.member args ''--restart'' in
           if command = ''clear-channel'' then
             call_service target (CallSetChannel None restart) decode_channel_mutation (\<lambda>r.
               println (quoted_target target @ '' :: [Channel: Clear] :: ['' @
                 (if cr_restart_completed r then ''Restarted'' else ''OK'') @ '']'') Finish)
           else case rest of
             [] \<Rightarrow> Fail (MissingArgument ''channel'')
           | choice # _ \<Rightarrow> choose_channel choice (\<lambda>selected.
               call_service target (CallSetChannel (Some selected) restart) decode_channel_mutation (\<lambda>r.
                 println (quoted_target target @ '' :: ['' @ channel_display_name selected @ ''] :: [SET]'' @
                   (if cr_restart_completed r then '' :: [Restarted]'' else [])) Finish))))"

section \<open>Adding\<close>

text \<open>The receipts of \<^verbatim>\<open>add\<close>, from the results of the requests.\<close>

definition added_lines ::
    "string \<Rightarrow> string option \<Rightarrow> string option \<Rightarrow> add_target_result \<Rightarrow> lifecycle_result option \<Rightarrow>
     string list" where
  "added_lines name source channel data started =
     [work_receipt ''Added'' (''target '' @ name)]
     @ (case source of None \<Rightarrow> [] | Some s \<Rightarrow> [work_receipt ''Source'' (''targets/'' @ s @ ''/'')])
     @ map (\<lambda>item. if source \<noteq> None then work_receipt ''Copied'' item
                   else work_receipt ''Created'' (''targets/'' @ name @ ''/'' @ item)) (ar_copied data)
     @ (case ar_channel data of
          Some c \<Rightarrow> if source \<noteq> None \<and> channel = None
                    then [work_receipt ''Channel'' (channel_display_name c)] else []
        | None \<Rightarrow> [])
     @ [work_receipt ''Created'' (''targets/'' @ name @ ''/''),
        work_receipt ''Created'' (''targets/'' @ name @ ''/scripts/''),
        work_receipt ''Updated'' ''mpv-targets.toml'']
     @ (if started \<noteq> None then [work_receipt ''Started'' name] else [])
     @ [[], quoted_target name @ '' :: [Added] :: ['' @ enable_label (ar_disabled data) @ ''] :: ['' @
          power_label (case started of None \<Rightarrow> ar_online data | Some r \<Rightarrow> lr_online r) @ '']'']"

definition add_target :: "string list \<Rightarrow> dialogue" where
  "add_target args =
     (case args of
        [] \<Rightarrow> Fail MissingTargetArgument
      | name # _ \<Rightarrow>
          (case (option_value args ''--from'', option_value args ''--channel'') of
             (Inl e, _) \<Rightarrow> Fail e
           | (_, Inl e) \<Rightarrow> Fail e
           | (Inr source, Inr channel) \<Rightarrow>
               (let enable = List.member args ''--enable''; start = List.member args ''--start'' in
                call_service name (CallAdd source (enable \<or> start)) decode_add (\<lambda>data.
                let finish = (\<lambda>started. print_all (added_lines name source channel data started) Finish);
                    power = (if start then call_service name CallStart decode_lifecycle (\<lambda>r. finish (Some r))
                             else finish None)
                in case channel of
                     None \<Rightarrow> power
                   | Some choice \<Rightarrow> choose_channel choice (\<lambda>selected.
                       call_service name (CallSetChannel (Some selected) False) decode_channel_mutation
                         (\<lambda>_. power))))))"

section \<open>Status\<close>

definition volume_label :: "terminal \<Rightarrow> target_state \<Rightarrow> string" where
  "volume_label tm s =
     (if ts_muted s = Some True then ''Vol:Mute''
      else case ts_volume s of Some v \<Rightarrow> ''Vol:'' @ tm_volume tm v | None \<Rightarrow> ''Vol:  ?'')"

definition status_row :: "terminal \<Rightarrow> target_record \<Rightarrow> string list" where
  "status_row tm t =
     [pad_right 16 (quoted_target (tr_name t)),
      ''['' @ pad_right 8 (status_label (target_status t)) @ '']'',
      ''['' @ pad_right 8 (volume_label tm (tr_state t)) @ '']'',
      ''[Loop:'' @ on_off_label (ts_loop_file (tr_state t)) @ '']'',
      ''[Repeat:'' @ on_off_label (ts_loop_playlist (tr_state t)) @ '']'',
      truncate_text (case ts_title (tr_state t) of None \<Rightarrow> ''-'' | Some s \<Rightarrow> s) 37]"

definition status_lines :: "terminal \<Rightarrow> string \<Rightarrow> string list \<Rightarrow> snapshot \<Rightarrow> string list" where
  "status_lines tm url args sn =
     [''NODE::'' @ sn_node sn @ '' ['' @ trim_scheme url @ ''] :: TARGETS ::'' @
        show_nat (unat (h_online (sn_health sn))) @ ''/'' @ show_nat (unat (h_configured (sn_health sn))),
      replicate 100 (CHR ''=''), []]
     @ map (\<lambda>t. join_with '' :: '' (status_row tm t))
         (filter (\<lambda>t. args = [] \<or> hd args = tr_name t) (sn_targets sn))"

definition status_dialogue :: "terminal \<Rightarrow> snapshot option \<Rightarrow> string \<Rightarrow> string list \<Rightarrow> dialogue" where
  "status_dialogue tm cached url args =
     (case cached of
        None \<Rightarrow> Fail NoSnapshot
      | Some sn \<Rightarrow>
          if List.member args ''--json'' then println (tm_pretty tm (json_obj (snapshot_members sn))) Finish
          else clear_interactive_terminal tm (print_all (status_lines tm url args sn) Finish))"

section \<open>Commands\<close>

definition command_dialogue ::
    "terminal \<Rightarrow> snapshot option \<Rightarrow> string \<Rightarrow> string \<Rightarrow> string list \<Rightarrow> dialogue" where
  "command_dialogue tm cached url command args =
     (if command = ''status'' then status_dialogue tm cached url args
      else if command = ''add'' then add_target args
      else if command = ''remove'' then remove_target tm args
      else if command = ''rename'' then rename_target tm args
      else if command = ''identify'' then identify_dialogue tm cached args
      else if command = ''mpv'' then native_mpv tm args
      else if List.member [''start'', ''stop'', ''restart'', ''enable'', ''disable''] command then
        lifecycle_dialogue cached command args
      else if command = ''playlist'' then playlist_dialogue tm args
      else if command = ''show-channels'' then show_channels tm
      else if List.member [''set-channel'', ''clear-channel''] command then channel_dialogue command args
      else if List.member [''play'', ''pause'', ''toggle-play'', ''loadfile'', ''append'', ''next'',
          ''previous'', ''mute'', ''unmute'', ''toggle-mute'', ''fullscreen'', ''loop'', ''repeat'',
          ''shuffle'', ''unshuffle'', ''cycle-audio'', ''cycle-subtitle'', ''toggle-subtitle''] command then
        mpv_action tm cached command args
      else Fail (UnknownCommand command))"

text \<open>What follows a command that went well.\<close>

primrec followed_by :: "dialogue \<Rightarrow> dialogue \<Rightarrow> dialogue" where
  "followed_by Finish d = d"
| "followed_by (Fail e) d = Fail e"
| "followed_by Unreachable d = Unreachable"
| "followed_by (Print s p) d = Print s (followed_by p d)"
| "followed_by (Call t op k) d = Call t op (\<lambda>r. followed_by (k r) d)"

text \<open>\<^verbatim>\<open>run\<close> from the connection on: its failure, or the snapshot it begins with.\<close>

definition operate ::
    "terminal \<Rightarrow> (client_error, snapshot option) result \<Rightarrow> string \<Rightarrow> string \<Rightarrow> string list \<Rightarrow>
     dialogue" where
  "operate tm opened url command args =
     (case opened of
        Inl e \<Rightarrow> Fail (Request e)
      | Inr cached \<Rightarrow> followed_by (command_dialogue tm cached url command args)
          (if command = ''status'' \<and> List.member args ''--json'' then Finish else println [] Finish))"

end
