(* ===== verification/Operator.thy ===== *)
theory Operator
  imports Dialogue "HOL-Library.Sublist"
begin

text \<open>
  Runs of the commands against any answers, and what they keep of the scripts in Cli: a
  command sends the requests of its script, in order, and stops at the first failure.
\<close>

section \<open>Runs\<close>

datatype ending = Completed | Failed cli_error | Panicked | Waiting

text \<open>\<open>reply\<close> answers the request for the catalog, \<open>rs\<close> the requests to targets. A run has the
  requests to targets, what is printed, and how it ends.\<close>

primrec run_dialogue ::
    "dialogue \<Rightarrow> answer \<Rightarrow> answer list \<Rightarrow> (string \<times> operation) list \<times> string \<times> ending" where
  "run_dialogue Finish reply rs = ([], [], Completed)"
| "run_dialogue (Fail e) reply rs = ([], [], Failed e)"
| "run_dialogue Unreachable reply rs = ([], [], Panicked)"
| "run_dialogue (Print s d) reply rs =
     (case run_dialogue d reply rs of (q, out, e) \<Rightarrow> (q, s @ out, e))"
| "run_dialogue (Call t op k) reply rs =
     (case t of
        None \<Rightarrow> run_dialogue (k reply) reply rs
      | Some target \<Rightarrow>
          (case rs of
             [] \<Rightarrow> ([(target, op)], [], Waiting)
           | r # rs' \<Rightarrow> (case run_dialogue (k r) reply rs' of (q, out, e) \<Rightarrow> ((target, op) # q, out, e))))"

fun step_requests :: "cli_step \<Rightarrow> (string \<times> operation) list" where
  "step_requests (Send target op) = [(target, op)]"
| "step_requests _ = []"

definition requests :: "cli_step list \<Rightarrow> (string \<times> operation) list" where
  "requests ss = concat (map step_requests ss)"

lemma requests_simps [simp]:
  "requests [] = []" "requests (Send target op # ss) = (target, op) # requests ss"
  by (simp_all add: requests_def)

definition catalog_of :: "answer \<Rightarrow> (cli_error, string list) result" where
  "catalog_of reply =
     (case try_result reply (decode_success decode_catalog) of
        Inl e \<Rightarrow> Inl (Request e)
      | Inr c \<Rightarrow> Inr (cc_channels c))"

definition prompt_of :: "terminal \<Rightarrow> (cli_error, bool) result" where
  "prompt_of tm = (case tm_line tm of None \<Rightarrow> Inl NeedsConfirmation | Some line \<Rightarrow> Inr (confirmed line))"

definition inputs :: "terminal \<Rightarrow> snapshot option \<Rightarrow> answer \<Rightarrow> cli_input" where
  "inputs tm cached reply =
     \<lparr>ci_snapshot = cached, ci_catalog = catalog_of reply, ci_prompt = prompt_of tm\<rparr>"

lemma inputs_simps [simp]:
  "ci_snapshot (inputs tm cached reply) = cached"
  "ci_catalog (inputs tm cached reply) = catalog_of reply"
  "ci_prompt (inputs tm cached reply) = prompt_of tm"
  by (simp_all add: inputs_def)

section \<open>Following a script\<close>

primrec follows :: "answer \<Rightarrow> dialogue \<Rightarrow> cli_step list \<Rightarrow> bool" where
  "follows reply Finish ss \<longleftrightarrow> ss = []"
| "follows reply (Fail e) ss \<longleftrightarrow> True"
| "follows reply Unreachable ss \<longleftrightarrow> (\<exists>ss'. ss = Crash # ss')"
| "follows reply (Print s d) ss \<longleftrightarrow> follows reply d ss"
| "follows reply (Call t op k) ss \<longleftrightarrow>
     (case t of
        None \<Rightarrow> follows reply (k reply) ss
      | Some target \<Rightarrow> \<exists>ss'. ss = Send target op # ss' \<and> (\<forall>r. follows reply (k r) ss'))"

lemma follows_run:
  assumes "follows reply d ss" and "run_dialogue d reply rs = (q, out, e)"
  shows "prefix q (requests ss) \<and> (e = Completed \<longrightarrow> q = requests ss) \<and>
    (e = Panicked \<longrightarrow> Crash \<in> set ss)"
  using assms
proof (induction d arbitrary: ss rs q out e)
  case (Call t op k)
  show ?case
  proof (cases t)
    case None
    with Call.prems have "follows reply (k reply) ss" "run_dialogue (k reply) reply rs = (q, out, e)"
      by simp_all
    then show ?thesis by (rule Call.IH [OF rangeI])
  next
    case (Some target)
    with Call.prems(1) obtain ss' where ss: "ss = Send target op # ss'" "\<And>r. follows reply (k r) ss'"
      by auto
    show ?thesis
    proof (cases rs)
      case Nil
      with Call.prems(2) Some ss(1) show ?thesis by auto
    next
      case (Cons r rs')
      obtain q' out' e' where r: "run_dialogue (k r) reply rs' = (q', out', e')" by (metis prod_cases3)
      have q: "q = (target, op) # q'" "e = e'" using Call.prems(2) by (auto simp: Some Cons r)
      have "prefix q' (requests ss') \<and> (e' = Completed \<longrightarrow> q' = requests ss') \<and> (e' = Panicked \<longrightarrow> Crash \<in> set ss')"
        by (rule Call.IH [OF rangeI ss(2) r])
      then show ?thesis by (simp add: ss(1) q)
    qed
  qed
qed (auto split: prod.splits)

named_theorems followed

lemma follows_typed [followed]:
  "(\<And>x. follows reply (k x) ss) \<Longrightarrow> follows reply (typed decode k r) ss"
  by (simp add: typed_def split: sum.splits)

lemma follows_untyped [followed]: "(\<And>m. follows reply (k m) ss) \<Longrightarrow> follows reply (untyped k r) ss"
  by (simp add: untyped_def split: sum.splits)

lemma follows_println [simp]: "follows reply (println s d) ss = follows reply d ss"
  by (simp add: println_def)

lemma follows_print_all [simp]: "follows reply (print_all lines d) ss = follows reply d ss"
  unfolding print_all_def by (induction lines) simp_all

lemma follows_clear [simp]: "follows reply (clear_interactive_terminal tm d) ss = follows reply d ss"
  by (simp add: clear_interactive_terminal_def)

lemma follows_service [followed]:
  "(\<And>x. follows reply (k x) ss) \<Longrightarrow>
   follows reply (call_service target call decode k) (Send target (service_operation call) # ss)"
  by (simp add: call_service_def followed)

lemma follows_response [followed]:
  "follows reply d ss \<Longrightarrow> follows reply (print_target_response tm m target action d) ss"
  by (simp add: print_target_response_def print_target_data_def Let_def split: sum.splits)

lemma for_each_Nil [simp]: "for_each body [] = Finish"
  by (simp add: for_each_def)

lemma follows_for_each:
  assumes "\<And>x rest ss. x \<in> set xs \<Longrightarrow> follows reply rest ss \<Longrightarrow> follows reply (body x rest) (f x @ ss)"
  shows "follows reply (for_each body xs) (concat (map f xs))"
  using assms by (induction xs) (simp_all add: for_each_def)

lemma follows_entries:
  assumes "\<And>entries. catalog_of reply = Inr entries \<Longrightarrow> follows reply (k entries) ss"
  shows "follows reply (channel_entries k) ss"
  using assms
  by (auto simp: channel_entries_def typed_def catalog_of_def split: sum.splits)

lemma follows_choice:
  assumes "\<And>c. resolve_channel (catalog_of reply) choice = Inr c \<Longrightarrow> follows reply (k c) ss"
  shows "follows reply (choose_channel choice k) ss"
proof (cases "contains_str choice ''://'' \<or> is_absolute choice")
  case True
  then show ?thesis using assms by (simp add: choose_channel_def resolve_channel_def)
next
  case False
  have "follows reply (channel_entries (\<lambda>entries.
    case resolve_channel (Inr entries) choice of Inl e \<Rightarrow> Fail e | Inr c \<Rightarrow> k c)) ss"
  proof (rule follows_entries)
    fix entries
    assume "catalog_of reply = Inr entries"
    with assms show "follows reply
      (case resolve_channel (Inr entries) choice of Inl e \<Rightarrow> Fail e | Inr c \<Rightarrow> k c) ss"
      by (simp split: sum.splits)
  qed
  with False show ?thesis by (simp add: choose_channel_def)
qed

section \<open>The commands follow their scripts\<close>

lemma follows_mpv_action:
  "follows reply (mpv_action tm cached command args) (mpv_action_script cached command args)"
proof (cases "args = [] \<or> cached = None")
  case True
  then show ?thesis by (cases args; cases cached) (simp_all add: mpv_action_def)
next
  case False
  then obtain first more sn where a: "args = first # more" "cached = Some sn" by (cases args) auto
  have "follows reply (for_each (\<lambda>target rest.
      case mpv_action_step sn bulk all_paused command args target of
        Send t op \<Rightarrow> Call (Some t) op (untyped (\<lambda>m. print_target_response tm m target command rest))
      | Abort e \<Rightarrow> Fail e | Crash \<Rightarrow> Unreachable) targets)
    (concat (map (\<lambda>t. [mpv_action_step sn bulk all_paused command args t]) targets))"
    for bulk all_paused targets
    by (rule follows_for_each) (simp add: followed split: cli_step.split)
  then show ?thesis by (simp add: a mpv_action_def mpv_action_script_def Let_def)
qed

lemma follows_lifecycle_one:
  assumes "follows reply rest ss"
  shows "follows reply (lifecycle_one command args target rest)
    ((send_service target (lifecycle_call command) #
      (if command = ''enable'' \<and> List.member args ''--start''
       then [send_service target (Some CallStart)] else [])) @ ss)"
  using assms
  by (auto simp: lifecycle_one_def send_service_def lifecycle_answer_def call_service_def Let_def
      intro!: followed split: option.split)

lemma follows_lifecycle:
  "follows reply (lifecycle_dialogue cached command args) (lifecycle_script cached command args)"
proof -
  have "follows reply (for_each (lifecycle_one command args) targets) (concat (map (\<lambda>t.
      send_service t (lifecycle_call command) #
      (if command = ''enable'' \<and> List.member args ''--start''
       then [send_service t (Some CallStart)] else [])) targets))" for targets
    by (rule follows_for_each) (rule follows_lifecycle_one)
  then show ?thesis
    by (simp add: lifecycle_dialogue_def lifecycle_script_def Let_def split: option.split)
qed

lemma follows_identify:
  "follows reply (identify_dialogue tm cached args) (identify_script cached args)"
proof -
  have "follows reply (for_each (\<lambda>t rest.
      Call (Some (tr_name t)) (setting_operation (ShowText (identify_text (tr_name t)) 4000))
        (untyped (\<lambda>m. print_target_response tm m (tr_name t) ''identify'' rest))) ts)
    (concat (map (\<lambda>t. [Send (tr_name t)
      (setting_operation (ShowText (identify_text (tr_name t)) 4000))]) ts))" for ts
    by (rule follows_for_each) (simp add: followed)
  from this [of "filter tr_online (sn_targets (the cached))"] show ?thesis
    by (cases cached) (auto simp: identify_dialogue_def identify_script_def)
qed

lemma follows_confirm:
  assumes "follows reply d [step]" and "\<And>d' ss. follows reply d' ss \<Longrightarrow> follows reply (ask d') ss"
  shows "follows reply (confirm_then tm args ask d) (confirmed_step (prompt_of tm) args step)"
  using assms by (simp add: confirm_then_def confirmed_step_def prompt_of_def split: option.split)

lemma follows_remove: "follows reply (remove_target tm args) (remove_script (prompt_of tm) args)"
proof (cases args)
  case (Cons target more)
  have "follows reply (confirm_then tm args (confirm_remove target)
      (call_service target CallRemove decode_remove (\<lambda>r.
        println (quoted_target (rr_removed r) @ '' :: [Remove] :: [Removed]'') Finish)))
    (confirmed_step (prompt_of tm) args (Send target (service_operation CallRemove)))"
    by (intro follows_confirm followed) (simp_all add: confirm_remove_def print_work_receipt_def)
  then show ?thesis by (simp add: remove_target_def remove_script_def Cons)
qed (simp add: remove_target_def)

lemma follows_rename: "follows reply (rename_target tm args) (rename_script (prompt_of tm) args)"
proof (cases "length args < 2")
  case True
  then show ?thesis by (auto simp: rename_target_def split: list.split)
next
  case False
  then obtain old new more where a: "args = old # new # more" by (cases args; cases "tl args") auto
  have "follows reply (confirm_then tm args (confirm_rename old new)
      (call_service old (CallRename new) decode_rename (\<lambda>r.
        println (quoted_target (nr_from r) @ '' -> '' @ quoted_target (nr_to r) @ '' :: [Renamed]'')
          Finish)))
    (confirmed_step (prompt_of tm) args (Send old (service_operation (CallRename new))))"
    by (intro follows_confirm followed) (simp_all add: confirm_rename_def print_work_receipt_def)
  then show ?thesis by (simp add: rename_target_def rename_script_def a)
qed

lemma follows_native: "follows reply (native_mpv tm args) (native_script args)"
  by (auto simp: native_mpv_def native_script_def intro!: followed split: list.split)

lemma follows_playlist: "follows reply (playlist_dialogue tm args) (playlist_script args)"
  by (auto simp: playlist_dialogue_def playlist_script_def intro!: followed
      simp del: playback_operation.simps split: list.split option.split)

lemma follows_channel:
  "follows reply (channel_dialogue command args) (channel_script (catalog_of reply) command args)"
proof (cases args)
  case (Cons target rest)
  show ?thesis
  proof (cases "command = ''clear-channel'' \<or> rest = []")
    case True
    then show ?thesis
      by (auto simp: Cons channel_dialogue_def channel_script_def Let_def intro!: followed
          simp del: service_operation.simps split: list.split)
  next
    case False
    then obtain choice more where rest: "rest = choice # more" by (cases rest) auto
    show ?thesis
      using False
      by (auto simp: Cons rest channel_dialogue_def channel_script_def Let_def try_result_def
          intro!: followed follows_choice simp del: service_operation.simps split: sum.split)
  qed
qed (simp add: channel_dialogue_def)

lemma follows_add: "follows reply (add_target args) (add_script (catalog_of reply) args)"
proof (cases args)
  case (Cons name more)
  show ?thesis
    by (auto simp: Cons add_target_def add_script_def Let_def intro!: followed follows_choice
        simp del: service_operation.simps split: list.split sum.split option.split)
qed (simp add: add_target_def)

lemma command_follows:
  "follows reply (command_dialogue tm cached url command args)
     (command_script (inputs tm cached reply) command args)"
proof -
  have "follows reply (show_channels tm)
    (case catalog_of reply of Inl e \<Rightarrow> [Abort e] | Inr _ \<Rightarrow> [])"
    unfolding show_channels_def by (rule follows_entries) simp
  moreover have "follows reply (status_dialogue tm cached url args)
    (if cached = None then [Abort NoSnapshot] else [])"
    by (simp add: status_dialogue_def split: option.split)
  ultimately show ?thesis
    unfolding command_dialogue_def command_script_def inputs_simps
    by (simp add: follows_add follows_remove follows_rename follows_identify follows_native
        follows_lifecycle follows_playlist follows_channel follows_mpv_action)
qed

section \<open>Running a command\<close>

lemma follows_followed_by:
  "follows reply d ss \<Longrightarrow> follows reply d' [] \<Longrightarrow> follows reply (followed_by d d') ss"
  by (induction d arbitrary: ss) (auto split: option.splits)

lemma inputs_environment: "environment_errors (inputs tm cached reply)"
  by (simp add: environment_errors_def catalog_of_def prompt_of_def split: sum.split option.split)

lemma requests_accepted: "list_all step_ok ss \<Longrightarrow> list_all (\<lambda>(t, op). validate_operation op = Inr ()) (requests ss)"
proof (induction ss)
  case (Cons a ss)
  then show ?case by (cases a) (simp_all add: requests_def)
qed simp

lemma list_all_prefix: "prefix xs ys \<Longrightarrow> list_all P ys \<Longrightarrow> list_all P xs"
  by (auto simp: prefix_def)

text \<open>
  The operator's commands run as their arguments say: an accepted command line, whatever
  the answers, the catalog and the line typed at its prompt, sends requests of its script
  in their order, all of them if it completes; it reaches none of the arms that cannot
  happen; and unless its operation carries a name, a channel or a native command of the
  user, the daemon's own check accepts each request that it sends.
\<close>

lemma operator_command_runs:
  assumes accepted: "validate_command_args command args = Inr ()"
    and run: "run_dialogue (operate tm (Inr cached) url command args) reply rs = (q, out, e)"
  shows "prefix q (requests (command_script (inputs tm cached reply) command args)) \<and>
    (e = Completed \<longrightarrow> q = requests (command_script (inputs tm cached reply) command args)) \<and>
    e \<noteq> Panicked \<and>
    (\<not> List.member unchecked_commands command \<longrightarrow>
       list_all (\<lambda>(t, op). validate_operation op = Inr ()) q)"
proof -
  let ?script = "command_script (inputs tm cached reply) command args"
  have "follows reply (operate tm (Inr cached) url command args) ?script"
    unfolding operate_def by (simp add: follows_followed_by command_follows)
  note run = follows_run [OF this run]
  note script = accepted_commands_run [OF accepted inputs_environment, of tm cached reply]
  have "Crash \<notin> set ?script" using script by (auto simp: list_all_iff)
  moreover have "list_all (\<lambda>(t, op). validate_operation op = Inr ()) q"
    if "\<not> List.member unchecked_commands command"
    using that script run list_all_prefix requests_accepted by blast
  ultimately show ?thesis using run by blast
qed

definition plain_terminal :: terminal where
  "plain_terminal = \<lparr>tm_line = Some ''y'', tm_screen = False, tm_json = (\<lambda>_. []), tm_pretty = (\<lambda>_. []),
     tm_volume = (\<lambda>_. ''100'')\<rparr>"

definition removed_answer :: answer where
  "removed_answer = Inr (Success ''client-1'' (json_obj [(''removed'', JStr ''screen'')]))"

definition removal :: "(string \<times> operation) list \<times> string \<times> ending" where
  "removal = run_dialogue (operate plain_terminal (Inr None) [] ''remove'' [''screen'']) (Inl Disconnected)
     [removed_answer]"

lemma operator_command_runs_witness:
  "\<exists>out. removal = ([(''screen'', TargetRemove)], out, Completed)"
proof -
  obtain q out e where r: "removal = (q, out, e)" by (metis prod_cases3)
  have "snd (snd removal) = Completed" by code_simp
  then have e: "e = Completed" by (simp add: r)
  have "validate_command_args ''remove'' [''screen''] = Inr ()" by code_simp
  from operator_command_runs [OF this r [unfolded removal_def]]
  have "q = requests (command_script (inputs plain_terminal None (Inl Disconnected)) ''remove'' [''screen''])"
    using e by blast
  also have "\<dots> = [(''screen'', TargetRemove)]" by code_simp
  finally show ?thesis using r e by blast
qed

section \<open>A channel that is not there\<close>

definition half_added :: "(string \<times> operation) list \<times> string \<times> ending" where
  "half_added = run_dialogue
     (operate plain_terminal (Inr None) [] ''add'' [''screen'', ''--channel'', ''news'', ''--start''])
     (Inr (Success ''client-2'' (json_obj [(''channels'', JArr [])])))
     [Inr (Success ''client-1'' (added_json None \<lparr>tr_name = ''screen'', tr_disabled = False,
        tr_stopped = True, tr_online = False, tr_channel = None, tr_state = default_target_state,
        tr_revision = 1\<rparr>))]"


end
