(* ===== verification/Listings.thy ===== *)
theory Listings
  imports Operator
begin

text \<open>
  What the operator reads in the lists: the names and numbers that \<^verbatim>\<open>show-channels\<close> and
  \<^verbatim>\<open>playlist\<close> print can be given back as arguments, and the columns of \<^verbatim>\<open>status\<close> are
  aligned.
\<close>

section \<open>Channels and playlists\<close>

lemma display_append: "display_path (base @ [n]) = display_path base @ CHR ''/'' # n"
  by (simp add: display_path_def)

lemma split_on_last:
  "CHR ''/'' \<notin> set n \<Longrightarrow> \<exists>p ps. split_on CHR ''/'' (s @ CHR ''/'' # n) = p # ps @ [n]"
proof (induction s)
  case Nil
  then show ?case by (simp add: split_on_no_sep)
next
  case (Cons c s)
  then obtain p ps where split: "split_on CHR ''/'' (s @ CHR ''/'' # n) = p # ps @ [n]" by blast
  then show ?case
  proof (cases "c = CHR ''/''")
    case True
    with split have "split_on CHR ''/'' ((c # s) @ CHR ''/'' # n) = [] # (p # ps) @ [n]" by simp
    then show ?thesis by blast
  qed simp
qed

lemma file_name_display:
  assumes "plain_segment n"
  shows "file_name (display_path (base @ [n])) = Some n"
proof -
  have slash: "CHR ''/'' \<notin> set n" using assms by (simp add: plain_segment_def)
  obtain p ps where "split_on CHR ''/'' (display_path base @ CHR ''/'' # n) = p # ps @ [n]"
    using split_on_last [OF slash] by blast
  moreover have "body_component n = Some (NormalComp n)"
    using assms by (simp add: plain_segment_def body_component_def)
  ultimately show ?thesis
    by (simp add: file_name_def path_components_def display_append List.map_filter_def)
qed

lemma display_name_of:
  "plain_segment n \<Longrightarrow> channel_display_name (display_path (base @ [n])) = n"
  by (simp add: channel_display_name_def display_append after_last_append plain_segment_def)

lemma dotted_not_number: "CHR ''.'' \<in> set n \<Longrightarrow> parse_unsigned limit n = None"
proof -
  assume dot: "CHR ''.'' \<in> set n"
  have "CHR ''.'' \<in> set (unsigned_digits n)"
    using dot by (auto simp: unsigned_digits_def split: list.split)
  moreover have "\<not> is_ascii_digit (CHR ''.'')" by code_simp
  ultimately show ?thesis by (auto simp: parse_unsigned_def Let_def list_all_iff)
qed

text \<open>A file of the channel directory is found by its name.\<close>

lemma name_selects:
  assumes plain: "\<And>e. e \<in> set entries \<Longrightarrow> plain_segment (entry_name e)"
    and c: "c \<in> set (channel_files pt entries)"
  shows "resolve_channel (Inr (channel_files pt entries)) (channel_display_name c) = Inr c"
proof -
  let ?D = "channels_directory pt" and ?files = "channel_files pt entries"
  have listed: "\<exists>m. d = display_path (?D @ [m]) \<and> plain_segment m \<and> is_channel_path d" if "d \<in> set ?files" for d
    using that plain by (auto simp: channel_files_def plain_join)
  then obtain n where n: "c = display_path (?D @ [n])" "plain_segment n" "is_channel_path c"
    using listed [OF c] by blast
  have "CHR ''.'' \<in> set n"
    using n(3) by (auto simp: n(1) is_channel_path_def extension_def file_name_display [OF n(2)]
        name_extension_def split: if_splits)
  then have number: "parse_unsigned limit n = None" for limit by (rule dotted_not_number)
  have "CHR ''/'' \<notin> set n" using n(2) by (simp add: plain_segment_def)
  then have "\<not> contains_str n ''://''" "\<not> is_absolute n"
    using contains_str_member [of n "''://''"] starts_with_member [of n "''/''"]
    by (auto simp: is_absolute_def)
  moreover obtain d where d: "find (\<lambda>p. file_name p = Some n) ?files = Some d"
  proof (cases "find (\<lambda>p. file_name p = Some n) ?files")
    case None
    then have "file_name c \<noteq> Some n" using c by (auto simp: find_None_iff)
    then show thesis using file_name_display [OF n(2), of ?D] by (simp add: n(1))
  qed
  moreover have "d = c"
  proof -
    have "d \<in> set ?files" "file_name d = Some n" using d by (auto simp: find_Some_iff)
    then show ?thesis using listed [of d] file_name_display [of _ ?D] n(1) by auto
  qed
  ultimately show ?thesis
    by (simp add: n(1) display_name_of [OF n(2)] resolve_channel_def number)
qed

text \<open>
  What the lists show can be given back. In the list of the channels each file has a line
  with its number and its name; both, as the channel of a command, select this file. In
  the list of a playlist each item has a line with its index, which, as the item of a
  command, asks the player for this entry.
\<close>

lemma listed_items_select:
  assumes plain: "\<And>e. e \<in> set entries \<Longrightarrow> plain_segment (entry_name e)"
    and i: "i < length (channel_files pt entries)" "i < 2 ^ 64 - 1"
    and j: "j < length items" "j < 2 ^ 32"
  shows "(\<exists>name. channel_lines (channel_files pt entries) ! Suc i = show_nat (Suc i) @ ''. '' @ name \<and>
      resolve_channel (Inr (channel_files pt entries)) name = Inr (channel_files pt entries ! i) \<and>
      resolve_channel (Inr (channel_files pt entries)) (show_nat (Suc i)) =
        Inr (channel_files pt entries ! i)) \<and>
    (\<exists>marker. playlist_lines target items ! Suc j =
        marker @ pad_left 3 (show_nat j) @ '' '' @ truncate_text (playlist_item_display (items ! j)) 72 \<and>
      playlist_script [target, show_nat j] =
        [Send target (playback_operation (PlaylistPlay (word_of_nat j)))] \<and>
      unat (word_of_nat j :: u32) = j)"
proof
  let ?files = "channel_files pt entries"
  have "parse_unsigned (2 ^ 64 - 1) (show_nat (Suc i)) = Some (Suc i)"
    using i(2) by (intro parse_show) simp
  then have "resolve_channel (Inr ?files) (show_nat (Suc i)) = Inr (?files ! i)"
    using i(1) number_plain [of "Suc i"] by (simp add: resolve_channel_def try_result_def)
  moreover have "resolve_channel (Inr ?files) (channel_display_name (?files ! i)) = Inr (?files ! i)"
    by (rule name_selects [OF plain nth_mem [OF i(1)]])
  moreover have "channel_lines ?files ! Suc i = show_nat (Suc i) @ ''. '' @ channel_display_name (?files ! i)"
    using i(1) by (simp add: channel_lines_def nth_enumerate_eq)
  ultimately show "\<exists>name. channel_lines ?files ! Suc i = show_nat (Suc i) @ ''. '' @ name \<and>
      resolve_channel (Inr ?files) name = Inr (?files ! i) \<and>
      resolve_channel (Inr ?files) (show_nat (Suc i)) = Inr (?files ! i)"
    by blast
next
  have "parse_unsigned (2 ^ 32 - 1) (show_nat j) = Some j" using j(2) by (intro parse_show) simp
  then have "playlist_script [target, show_nat j] =
      [Send target (playback_operation (PlaylistPlay (word_of_nat j)))]"
    by (simp add: playlist_script_def)
  moreover have "unat (word_of_nat j :: u32) = j"
    using j(2) by (simp add: unat_of_nat take_bit_eq_mod)
  moreover have "playlist_lines target items ! Suc j =
      ((if pi_current (items ! j) then ''>'' else '' '') @ '' '') @ pad_left 3 (show_nat j) @ '' '' @
      truncate_text (playlist_item_display (items ! j)) 72"
    using j(1) by (simp add: playlist_lines_def nth_enumerate_eq playlist_line_def)
  ultimately show "\<exists>marker. playlist_lines target items ! Suc j =
        marker @ pad_left 3 (show_nat j) @ '' '' @ truncate_text (playlist_item_display (items ! j)) 72 \<and>
      playlist_script [target, show_nat j] =
        [Send target (playback_operation (PlaylistPlay (word_of_nat j)))] \<and>
      unat (word_of_nat j :: u32) = j"
    by blast
qed

definition demo_item :: playlist_item where
  "demo_item = \<lparr>pi_id = 1, pi_filename = ''/media/film.mkv'', pi_title = None, pi_current = True\<rparr>"

lemma listed_items_select_witness:
  "resolve_channel (Inr (channel_files demo_paths demo_channels)) ''news.m3u'' =
     Inr ''/etc/channels/news.m3u'' \<and>
   playlist_lines ''screen'' [demo_item] ! 1 = ''>   0 film.mkv''"
proof
  have files: "channel_files demo_paths demo_channels = [''/etc/channels/news.m3u'']"
    and shown: "show_nat (Suc 0) = ''1''" "channel_lines [''/etc/channels/news.m3u''] ! Suc 0 = ''1. news.m3u''"
    by code_simp+
  have plain: "plain_segment (entry_name e)" if "e \<in> set demo_channels" for e
    using that by (auto simp: demo_channels_def plain_segment_def)
  have "(0::nat) < 2 ^ 64 - 1" "(0::nat) < 2 ^ 32" by simp_all
  then show "resolve_channel (Inr (channel_files demo_paths demo_channels)) ''news.m3u'' =
     Inr ''/etc/channels/news.m3u''"
    using listed_items_select [of demo_channels 0 demo_paths 0 "[demo_item]" "''screen''", OF plain]
    by (simp add: files shown)
  show "playlist_lines ''screen'' [demo_item] ! 1 = ''>   0 film.mkv''" by code_simp
qed

section \<open>The columns of the status\<close>

lemma upper_plain: "name_byte c \<Longrightarrow> \<not> continuation (ascii_upper c)"
  by (auto simp: name_byte_def ascii_upper_def continuation_def is_ascii_lowercase_def is_ascii_digit_def)

abbreviation plain_text :: "string \<Rightarrow> bool" where
  "plain_text s \<equiv> list_all (\<lambda>c. \<not> continuation c) s"

lemma plain_count: "plain_text s \<Longrightarrow> char_count s = length s"
  by (simp add: plain_chars)

lemma plain_pad: "plain_text s \<Longrightarrow> plain_text (pad_right n s) \<and> length (pad_right n s) = max n (length s)"
  by (auto simp: pad_right_def plain_chars list_all_iff max_def)

lemma plain_quoted:
  assumes "validate_target_name n = Inr ()"
  shows "plain_text (quoted_name n) \<and> length (quoted_name n) = length n + 2"
proof -
  have "list_all name_byte n" using assms by (simp add: validate_target_name_iff)
  moreover have "\<not> continuation (CHR 0x22)" by code_simp
  ultimately show ?thesis by (auto simp: quoted_name_def list_all_iff upper_plain)
qed

lemma plain_status: "plain_text (status_label p) \<and> length (status_label p) \<le> 8"
  by (cases p; simp add: continuation_def)

lemma plain_on_off: "plain_text (on_off_label l) \<and> length (on_off_label l) = 3"
  by (simp add: on_off_label_def continuation_def)

lemma plain_bracket: "plain_text s \<Longrightarrow> plain_text (''['' @ s @ '']'')"
  by (simp add: continuation_def)

lemma plain_volume:
  assumes "\<And>v. plain_text (tm_volume tm v) \<and> length (tm_volume tm v) \<le> 4"
  shows "plain_text (volume_label tm s) \<and> length (volume_label tm s) \<le> 8"
proof -
  have "plain_text ''Vol:Mute''" "plain_text ''Vol:  ?''" "plain_text ''Vol:''" by code_simp+
  with assms show ?thesis by (simp add: volume_label_def split: option.split)
qed

text \<open>
  The table of \<^verbatim>\<open>status\<close> is aligned: for every target whose name has at most 14
  characters, and as long as a volume is written in at most four, the columns before the
  title have the same widths in every line, and the title is cut to 37 characters.
\<close>

lemma status_columns_aligned:
  assumes name: "validate_target_name (tr_name t) = Inr ()" "length (tr_name t) \<le> 14"
    and volume: "\<And>v. plain_text (tm_volume tm v) \<and> length (tm_volume tm v) \<le> 4"
  shows "\<exists>title. map char_count (status_row tm t) = [16, 10, 10, 10, 12, title] \<and> title \<le> 37"
proof -
  have "char_count (pad_right 16 (quoted_target (tr_name t))) = 16"
    using plain_quoted [OF name(1)] name(2)
    by (simp add: quoted_target_def plain_count del: utf8_chars.simps)
  moreover have "char_count (''['' @ pad_right 8 s @ '']'') = 10" if "plain_text s" "length s \<le> 8" for s
    using plain_count [OF plain_bracket, of "pad_right 8 s"] plain_pad [OF that(1), of 8] that(2) by simp
  then have "char_count (''['' @ pad_right 8 (status_label (target_status t)) @ '']'') = 10"
    "char_count (''['' @ pad_right 8 (volume_label tm (tr_state t)) @ '']'') = 10"
    using plain_status plain_volume [OF volume] by blast+
  moreover have "char_count (''[Loop:'' @ on_off_label l @ '']'') = 10"
    "char_count (''[Repeat:'' @ on_off_label l @ '']'') = 12" for l
    using plain_on_off [of l] by (subst plain_count; simp add: continuation_def)+
  moreover have "char_count (truncate_text s 37) \<le> 37" for s by (rule truncated_count) simp
  ultimately show ?thesis
    by (simp add: status_row_def del: utf8_chars.simps append.simps)
qed

definition demo_record :: target_record where
  "demo_record = \<lparr>tr_name = ''screen'', tr_disabled = False, tr_stopped = False, tr_online = True,
     tr_channel = None, tr_state = default_target_state\<lparr>ts_volume := Some 100, ts_title := Some ''film''\<rparr>,
     tr_revision = 1\<rparr>"

lemma status_columns_aligned_witness:
  "\<exists>title. map char_count (status_row plain_terminal demo_record) = [16, 10, 10, 10, 12, title] \<and> title \<le> 37"
proof (rule status_columns_aligned)
  show "validate_target_name (tr_name demo_record) = Inr ()" "length (tr_name demo_record) \<le> 14"
    by code_simp+
  show "plain_text (tm_volume plain_terminal v) \<and> length (tm_volume plain_terminal v) \<le> 4" for v
    by (simp add: plain_terminal_def continuation_def)
qed

end
