(* ===== verification/Program.thy ===== *)
theory Program
  imports Operator
begin

text \<open>
  \<^verbatim>\<open>crates/targets/src/main.rs\<close> as a whole: from the arguments of the process to its exit
  status. It runs the same for any environment and any answers; and when the answers are
  those of the daemon of this repository, it can read each of them.
\<close>

section \<open>The program\<close>

definition help_lines :: "string list" where
  "help_lines =
     [''targets [--url WSS_URL] <command> [@node] ...'',
      [],
      ''status [@node] [target] [--json]'',
      ''add [@node] <target> [--from TARGET] [--channel NAME_OR_PATH_OR_URL] [--enable] [--start]'',
      ''remove [@node] <target> [--yes]'',
      ''start|stop|restart [@node] <target...|all>'',
      ''enable [@node] <target...> [--start]'',
      ''disable [@node] <target...>'',
      ''rename [@node] <target> <new-target> [--yes]'',
      ''show-channels [@node]  list files in the node channel directory'',
      ''set-channel [@node] <target> <number|name|path-or-url> [--restart]  select the target channel'',
      ''clear-channel [@node] <target> [--restart]  clear the target channel'',
      ''playlist [@node] <target> [item]  show or jump the current mpv playlist'',
      ''play|pause|toggle-play [@node] <target...|all>'',
      ''loadfile [@node] <target> <path-or-url>'',
      ''append [@node] <target> <path-or-url>'',
      ''next|previous [@node] <target...>'',
      ''mute [@node] <target...|all>'',
      ''unmute|toggle-mute [@node] <target...>'',
      ''loop|repeat|shuffle|unshuffle [@node] <target...>'',
      ''fullscreen|cycle-audio|cycle-subtitle|toggle-subtitle [@node] <target>'',
      ''identify [@node]'',
      ''mpv [@node] <target> <allowed-native-command> [args...]'']"

definition print_help :: "dialogue \<Rightarrow> dialogue" where
  "print_help = println (join_with [newline] help_lines)"

text \<open>\<^verbatim>\<open>run\<close>: the node book and the local configuration are given as they are read, and
  \<open>connect\<close> is what the connection to a URL comes to, with the snapshot it begins with.\<close>

definition targets_run ::
    "terminal \<Rightarrow> (cli_error, node_entry list) result \<Rightarrow> (cli_error, daemon_config) result \<Rightarrow>
     (string \<Rightarrow> (client_error, snapshot option) result) \<Rightarrow> string list \<Rightarrow> dialogue" where
  "targets_run tm book config connect args =
     (case prepare book config args of
        Inl e \<Rightarrow> Fail e
      | Inr ShowHelp \<Rightarrow> print_help Finish
      | Inr (Invoke url command args') \<Rightarrow> operate tm (connect url) url command args')"

text \<open>\<^verbatim>\<open>main\<close>: the exit status of a run that ends; a panic of the main thread is 101. Whether
  something goes to the error output is the second component.\<close>

fun exit_status :: "ending \<Rightarrow> (nat \<times> bool) option" where
  "exit_status Completed = Some (0, False)"
| "exit_status (Failed e) = Some (1, True)"
| "exit_status Panicked = Some (101, True)"
| "exit_status Waiting = None"

lemma prepare_validates:
  assumes "prepare book config args = Inr (Invoke url command args')"
  shows "validate_command_args command args' = Inr ()"
  using assms
  by (auto simp: prepare_def try_result_def split: if_splits sum.splits list.splits option.splits)

section \<open>Answers of the daemon\<close>

text \<open>What a request of the operator can come to: the daemon's response to it, with the errors
  written out as texts, or no response, or a request that is not sent.\<close>

definition daemon_answers :: "paths \<Rightarrow> string option \<Rightarrow> operation \<Rightarrow> answer \<Rightarrow> bool" where
  "daemon_answers pt t op r \<longleftrightarrow>
     r = Inl Disconnected \<or> r = Inl RequestTimeout \<or> (\<exists>v. r = Inl (ProtocolError (RejectedRequest v))) \<or>
     (\<exists>i env n w m n' w' shown.
        run (handle_request pt \<lparr>rq_id = i, rq_target = t, rq_operation = op\<rparr>) env n w = (Some m, n', w') \<and>
        r = Inr (map_response shown m))"

lemma untargeted_data_decodes:
  assumes "run (dispatch_operation pt None op) env n w = (Some (Inr data), m, w')"
  shows "decodable op data"
proof (cases "op = NodeListChannels")
  case True
  then show ?thesis
    using assms by (auto simp: decode_catalog_def decoding dest!: run_answer)
next
  case False
  then show ?thesis using assms by (cases op) (auto simp: on_target_def)
qed

lemma daemon_data_decodes:
  assumes "daemon_answers pt t op (Inr (Success i data))"
  shows "decodable op data"
proof -
  obtain i' env n w m n' w' and shown :: "response_fault \<Rightarrow> string" where
    r: "run (handle_request pt \<lparr>rq_id = i', rq_target = t, rq_operation = op\<rparr>) env n w = (Some m, n', w')"
    and m: "Success i data = map_response shown m"
    using assms unfolding daemon_answers_def by blast
  obtain i'' where m': "m = Success i'' data" using m by (cases m) auto
  have "run (dispatch_operation pt t op) env n w = (Some (Inr data), n', w')"
    using r m' by (auto simp: handle_request_def run_bind outcome_response_def
        split: sum.splits option.splits prod.splits)
  then show ?thesis
    using success_data_decodes untargeted_data_decodes by (cases t) auto
qed

lemma daemon_failure:
  assumes "daemon_answers pt t op (Inl e)"
  shows "e \<noteq> ProtocolError UndecodableResult"
  using assms by (auto simp: daemon_answers_def)

section \<open>Understanding the answers\<close>

text \<open>A dialogue that, as long as the daemon answers, does not fail to decode a result.\<close>

abbreviation undecodable :: cli_error where
  "undecodable \<equiv> Request (ProtocolError UndecodableResult)"

primrec understood :: "paths \<Rightarrow> answer \<Rightarrow> dialogue \<Rightarrow> bool" where
  "understood pt reply Finish \<longleftrightarrow> True"
| "understood pt reply (Fail e) \<longleftrightarrow> e \<noteq> undecodable"
| "understood pt reply Unreachable \<longleftrightarrow> True"
| "understood pt reply (Print s d) \<longleftrightarrow> understood pt reply d"
| "understood pt reply (Call t op k) \<longleftrightarrow>
     (case t of
        None \<Rightarrow> understood pt reply (k reply)
      | Some target \<Rightarrow> \<forall>r. daemon_answers pt (Some target) op r \<longrightarrow> understood pt reply (k r))"

text \<open>The requests that a run sends, each with its answer.\<close>

definition served_by ::
    "paths \<Rightarrow> (string \<times> operation) list \<Rightarrow> answer list \<Rightarrow> bool" where
  "served_by pt q rs \<longleftrightarrow>
     list_all (\<lambda>((t, op), r). daemon_answers pt (Some t) op r) (zip q rs)"

lemma understood_run:
  assumes "understood pt reply d" and "run_dialogue d reply rs = (q, out, e)" and "served_by pt q rs"
  shows "e \<noteq> Failed undecodable"
  using assms
proof (induction d arbitrary: rs q out e)
  case (Call t op k)
  show ?case
  proof (cases t)
    case None
    with Call.prems have "understood pt reply (k reply)" "run_dialogue (k reply) reply rs = (q, out, e)"
      by simp_all
    then show ?thesis using Call.IH [OF rangeI] Call.prems(3) by blast
  next
    case (Some target)
    show ?thesis
    proof (cases rs)
      case Nil
      with Call.prems(2) Some show ?thesis by auto
    next
      case (Cons r rs')
      obtain q' out' e' where r: "run_dialogue (k r) reply rs' = (q', out', e')" by (metis prod_cases3)
      have q: "q = (target, op) # q'" "e = e'" using Call.prems(2) by (auto simp: Some Cons r)
      then have "daemon_answers pt (Some target) op r" "served_by pt q' rs'"
        using Call.prems(3) by (simp_all add: served_by_def Cons)
      then show ?thesis using Call.IH [OF rangeI _ r] Call.prems(1) q(2) by (simp add: Some)
    qed
  qed
qed (auto split: prod.splits)

named_theorems understanding

lemma understood_prints [simp]:
  "understood pt reply (println s d) = understood pt reply d"
  "understood pt reply (print_all lines d) = understood pt reply d"
  "understood pt reply (clear_interactive_terminal tm d) = understood pt reply d"
  "understood pt reply (print_work_receipt a b d) = understood pt reply d"
proof -
  show *: "understood pt reply (println s d) = understood pt reply d" for s d
    by (simp add: println_def)
  show "understood pt reply (print_all lines d) = understood pt reply d"
    unfolding print_all_def by (induction lines) (simp_all add: *)
qed (simp_all add: clear_interactive_terminal_def print_work_receipt_def println_def)

lemma understood_typed:
  assumes "daemon_answers pt t op r" and "\<And>data. decodable op data \<Longrightarrow> decode data \<noteq> None"
    and "\<And>x. understood pt reply (k x)"
  shows "understood pt reply (typed decode k r)"
proof (cases r)
  case (Inl e)
  then show ?thesis using daemon_failure assms(1) by (auto simp: typed_def)
next
  case (Inr m)
  show ?thesis
  proof (cases m)
    case (Success i data)
    then have "decode data \<noteq> None"
      using assms(1,2) Inr daemon_data_decodes by blast
    then show ?thesis using assms(3) Inr Success by (auto simp: typed_def decode_success_def)
  qed (simp add: typed_def decode_success_def Inr)
qed

lemma understood_untyped [understanding]:
  "daemon_answers pt t op r \<Longrightarrow> (\<And>m. understood pt reply (k m)) \<Longrightarrow> understood pt reply (untyped k r)"
  by (auto simp: untyped_def split: sum.splits dest!: daemon_failure)

lemma understood_call [understanding]:
  assumes "\<And>data. decodable (service_operation call) data \<Longrightarrow> decode data \<noteq> None"
    and "\<And>x. understood pt reply (k x)"
  shows "understood pt reply (call_service target call decode k)"
  using understood_typed [OF _ assms] by (simp add: call_service_def)

lemma understood_response [understanding]:
  "understood pt reply d \<Longrightarrow> understood pt reply (print_target_response tm m target action d)"
  by (cases m) (simp_all add: print_target_response_def print_target_data_def Let_def)

lemma understood_for_each:
  assumes "\<And>x rest. understood pt reply rest \<Longrightarrow> understood pt reply (body x rest)"
  shows "understood pt reply (for_each body xs)"
  unfolding for_each_def using assms by (induction xs) simp_all

lemma understood_entries:
  assumes "daemon_answers pt None NodeListChannels reply" and "\<And>entries. understood pt reply (k entries)"
  shows "understood pt reply (channel_entries k)"
  using understood_typed [OF assms(1), of decode_catalog] assms(2) by (simp add: channel_entries_def)

lemma understood_choice:
  assumes catalog: "daemon_answers pt None NodeListChannels reply" and "\<And>c. understood pt reply (k c)"
  shows "understood pt reply (choose_channel choice k)"
proof -
  have "resolve_channel (Inr entries) choice \<noteq> Inl undecodable" for entries
    by (auto simp: resolve_channel_def ok_or_def split: if_splits option.splits)
  then have "understood pt reply (case resolve_channel (Inr entries) choice of Inl e \<Rightarrow> Fail e | Inr c \<Rightarrow> k c)"
    for entries
    using assms(2) by (auto split: sum.splits)
  then show ?thesis
    using assms(2) understood_entries [OF catalog] by (simp add: choose_channel_def)
qed

section \<open>Each command understands its answers\<close>

lemma understood_mpv_action: "understood pt reply (mpv_action tm cached command args)"
proof (cases "args = [] \<or> cached = None")
  case True
  then show ?thesis by (cases args; cases cached) (simp_all add: mpv_action_def)
next
  case False
  then obtain first more sn where a: "args = first # more" "cached = Some sn" by (cases args) auto
  have no_abort: "mpv_action_step sn bulk all_paused command args target \<noteq> Abort e" for bulk all_paused target e
    by (simp add: mpv_action_step_def load_step_def Let_def)
  have "understood pt reply (for_each (\<lambda>target rest.
      case mpv_action_step sn bulk all_paused command args target of
        Send t op \<Rightarrow> Call (Some t) op (untyped (\<lambda>m. print_target_response tm m target command rest))
      | Abort e \<Rightarrow> Fail e | Crash \<Rightarrow> Unreachable) targets)" for bulk all_paused targets
    by (rule understood_for_each) (use no_abort in \<open>auto intro!: understanding split: cli_step.split\<close>)
  then show ?thesis by (simp add: a mpv_action_def Let_def)
qed

lemma lifecycle_decodes:
  assumes "lifecycle_call command = Some call" and "daemon_answers pt t (service_operation call) r"
    and "\<And>x. understood pt reply (k x)"
  shows "understood pt reply (lifecycle_answer command k r)"
  using assms by (auto simp: lifecycle_answer_def lifecycle_call_def split: if_splits elim!: understood_typed)

lemma understood_lifecycle: "understood pt reply (lifecycle_dialogue cached command args)"
proof -
  have "understood pt reply (lifecycle_one command args target rest)" if "understood pt reply rest" for target rest
    using that
    by (auto simp: lifecycle_one_def Let_def intro!: understanding split: option.split
        elim!: lifecycle_decodes)
  then have "understood pt reply (for_each (lifecycle_one command args) targets)" for targets
    by (rule understood_for_each)
  then show ?thesis by (simp add: lifecycle_dialogue_def Let_def split: option.split)
qed

lemma understood_identify: "understood pt reply (identify_dialogue tm cached args)"
  by (cases cached) (auto simp: identify_dialogue_def intro!: understood_for_each understanding)

lemma understood_confirm:
  "understood pt reply d \<Longrightarrow> (\<And>d'. understood pt reply d' \<Longrightarrow> understood pt reply (ask d')) \<Longrightarrow>
   understood pt reply (confirm_then tm args ask d)"
  by (simp add: confirm_then_def split: option.split)

lemma understood_remove: "understood pt reply (remove_target tm args)"
  by (cases args) (auto simp: remove_target_def confirm_remove_def intro!: understood_confirm understanding)

lemma understood_rename: "understood pt reply (rename_target tm args)"
  by (auto simp: rename_target_def confirm_rename_def intro!: understood_confirm understanding
      split: list.split)

lemma understood_native: "understood pt reply (native_mpv tm args)"
  by (auto simp: native_mpv_def intro!: understanding split: list.split)

lemma understood_channel:
  assumes "daemon_answers pt None NodeListChannels reply"
  shows "understood pt reply (channel_dialogue command args)"
  by (auto simp: channel_dialogue_def Let_def intro!: understood_choice [OF assms] understanding split: list.split)

lemma understood_add:
  assumes "daemon_answers pt None NodeListChannels reply"
  shows "understood pt reply (add_target args)"
proof -
  have "option_value args k \<noteq> Inl undecodable" for k
    by (auto simp: option_value_def split: list.splits if_splits)
  then show ?thesis
    by (auto simp: add_target_def Let_def intro!: understood_choice [OF assms] understanding
        split: list.split sum.split option.split)
qed

lemma command_understood:
  assumes "daemon_answers pt None NodeListChannels reply" and "command \<noteq> ''playlist''"
  shows "understood pt reply (command_dialogue tm cached url command args)"
proof -
  have "understood pt reply (show_channels tm)"
    unfolding show_channels_def by (rule understood_entries [OF assms(1)]) simp
  moreover have "understood pt reply (status_dialogue tm cached url args)"
    by (simp add: status_dialogue_def split: option.split)
  ultimately show ?thesis
    using assms by (simp add: command_dialogue_def understood_add understood_remove understood_rename
        understood_identify understood_native understood_lifecycle understood_channel understood_mpv_action)
qed

lemma understood_followed_by:
  "understood pt reply d \<Longrightarrow> understood pt reply d' \<Longrightarrow> understood pt reply (followed_by d d')"
  by (induction d) (auto split: option.splits)

section \<open>Properties\<close>


text \<open>
  C29. The operator's program understands the daemon: if its requests are answered as the daemon
  of this repository answers them, in whatever state and whatever the environment does, then
  no command ends because a result cannot be decoded, except for \<^verbatim>\<open>playlist\<close>, whose data
  are mpv's own.
\<close>

theorem operator_understands_daemon:
  assumes run: "run_dialogue (operate tm (Inr cached) url command args) reply rs = (q, out, e)"
    and catalog: "daemon_answers pt None NodeListChannels reply" and answers: "served_by pt q rs"
    and command: "command \<noteq> ''playlist''"
  shows "e \<noteq> Failed (Request (ProtocolError UndecodableResult))"
proof -
  have "understood pt reply (operate tm (Inr cached) url command args)"
    unfolding operate_def sum.case
    by (rule understood_followed_by [OF command_understood [OF catalog command]]) simp
  from understood_run [OF this run answers] show ?thesis .
qed

section \<open>Examples\<close>

definition program_removal :: "(string \<times> operation) list \<times> string \<times> ending" where
  "program_removal = run_dialogue
     (targets_run plain_terminal (Inl HomeNotSet) (Inl HomeNotSet) (\<lambda>_. Inr None)
       [''--url'', ''wss://node'', ''remove'', ''screen''])
     (Inl Disconnected) [removed_answer]"


definition stop_answer :: answer where
  "stop_answer =
     (case fst (run (handle_request demo_paths
          \<lparr>rq_id = ''1'', rq_target = Some ''tv'', rq_operation = TargetStop\<rparr>) demo_answers 0 demo_world) of
        None \<Rightarrow> Inl Disconnected
      | Some m \<Rightarrow> Inr (map_response (\<lambda>_. []) m))"

definition stop_dialogue :: "(string \<times> operation) list \<times> string \<times> ending" where
  "stop_dialogue = run_dialogue (operate plain_terminal (Inr None) [] ''stop'' [''tv''])
     (Inl Disconnected) [stop_answer]"

theorem operator_understands_daemon_witness:
  "fst stop_dialogue = [(''tv'', TargetStop)] \<and>
   snd (snd stop_dialogue) \<noteq> Failed (Request (ProtocolError UndecodableResult))"
proof -
  obtain q out e where r: "stop_dialogue = (q, out, e)" by (metis prod_cases3)
  have sent: "fst stop_dialogue = [(''tv'', TargetStop)]" by code_simp
  have "daemon_answers demo_paths (Some ''tv'') TargetStop stop_answer"
  proof (cases "fst (run (handle_request demo_paths
      \<lparr>rq_id = ''1'', rq_target = Some ''tv'', rq_operation = TargetStop\<rparr>) demo_answers 0 demo_world)")
    case (Some m)
    then show ?thesis unfolding daemon_answers_def stop_answer_def by (metis option.simps(5) prod.collapse)
  qed (simp add: daemon_answers_def stop_answer_def)
  then have "served_by demo_paths q [stop_answer]"
    using sent by (simp add: served_by_def r)
  then have "e \<noteq> Failed (Request (ProtocolError UndecodableResult))"
    using operator_understands_daemon [OF r [unfolded stop_dialogue_def], of demo_paths]
    by (simp add: daemon_answers_def)
  then show ?thesis using sent by (simp add: r)
qed

end
