(* ===== verification/Player.thy ===== *)
theory Player
  imports ClientCalls
begin

text \<open>
  What the daemon makes of a player that does not behave as it expects: \<^verbatim>\<open>ipc_command\<close> takes
  the first line of the connection as the reply, and waits for it without a limit.
\<close>

section \<open>An event before the reply\<close>

text \<open>mpv sends its events to every connection, so that one can come before the reply.\<close>

definition player_event :: "string \<Rightarrow> json" where
  "player_event event = json_obj [(''event'', JStr event)]"

lemma read_event: "read_response name (Some (player_event event)) = Inr JNull"
  by (simp add: read_response_def player_event_def json_obj_get)



section \<open>A player that does not reply\<close>

text \<open>Runs in which task \<open>j\<close> does not move.\<close>

inductive moves_without :: "nat \<Rightarrow> paths \<Rightarrow> system \<Rightarrow> system \<Rightarrow> bool" for j pt s where
  without_refl: "moves_without j pt s s"
| without_step: "moves_without j pt s t \<Longrightarrow> sys_step pt t l u \<Longrightarrow> l \<noteq> Some j \<Longrightarrow> moves_without j pt s u"

definition waits_for_player :: "system \<Rightarrow> nat \<Rightarrow> bool" where
  "waits_for_player s j \<longleftrightarrow> j < length (sy_tasks s) \<and>
     (case sy_tasks s ! j of Exchange _ _ _ \<Rightarrow> True | _ \<Rightarrow> False)"

definition waits_for_mutations :: "system \<Rightarrow> nat \<Rightarrow> bool" where
  "waits_for_mutations s j \<longleftrightarrow> j < length (sy_tasks s) \<and>
     (case sy_tasks s ! j of LockMutations _ \<Rightarrow> True | _ \<Rightarrow> False)"

lemma task_step_others:
  assumes "task_step spawned s k t" and "j < length (sy_tasks s)" and "k \<noteq> j"
  shows "j < length (sy_tasks t) \<and> sy_tasks t ! j = sy_tasks s ! j"
  using assms by cases (auto simp: resume_def nth_append)

lemma blocked_step:
  assumes step: "sys_step pt s l t" and l: "l \<noteq> Some j"
    and owner: "sy_mutation_owner s = Some j" and waits: "waits_for_mutations s k"
  shows "sy_mutation_owner t = Some j \<and> waits_for_mutations t k"
proof (cases l)
  case None
  with step show ?thesis
    by cases (use owner waits in \<open>auto simp: waits_for_mutations_def nth_append\<close>)
next
  case (Some i)
  then have i: "task_step (job_task pt) s i t" "i \<noteq> j" using step l by auto
  have "i \<noteq> k"
  proof
    assume "i = k"
    then have "enabled s k (sy_tasks s ! k)" using task_step_enabled [OF i(1)] by simp
    then show False using waits owner by (auto simp: waits_for_mutations_def split: task.splits)
  qed
  then have "waits_for_mutations t k"
    using task_step_others [OF i(1)] waits by (simp add: waits_for_mutations_def)
  moreover have "sy_mutation_owner t = Some j"
    using i(1) owner i(2) by cases (auto simp: resume_def)
  ultimately show ?thesis by simp
qed

lemma blocked_run:
  "moves_without j pt s t \<Longrightarrow> sy_mutation_owner s = Some j \<Longrightarrow> waits_for_mutations s k \<Longrightarrow>
   sy_mutation_owner t = Some j \<and> waits_for_mutations t k"
  by (induction rule: moves_without.induct) (use blocked_step in blast)+

text \<open>A channel is saved, and the player does not answer; then a target is to be enabled.\<close>

definition silent_player :: "move list" where
  "silent_player = boot_live @ [Arrive (request_for (TargetSaveChannel ''a.m3u'' False))] @ gos 3 3
     @ [Arrive (request_for TargetEnable)]"

lemma silent_player_run:
  "case exec demo_paths silent_player demo_init of
     None \<Rightarrow> False
   | Some s \<Rightarrow> sy_mutation_owner s = Some 3 \<and> waits_for_player s 3 \<and> waits_for_mutations s 4"
  by code_simp


end
