(* ===== verification/Handle.thy ===== *)
theory Handle
  imports Connecting Receiving ClientCalls
begin

text \<open>
  The handles of \<^verbatim>\<open>crates/mpv-targets/src/client.rs\<close> that the users of the library hold: the
  options of a connection, the client with its accessors and \<^verbatim>\<open>close\<close>, a receiver of its
  events, the client of one target, and the certificate verifier of a connection. Each of
  them reads or changes the state of theory Connection.
\<close>

section \<open>Options\<close>

text \<open>Durations in milliseconds.\<close>

definition default_connect_timeout :: nat where
  "default_connect_timeout = 15000"

definition default_request_timeout :: nat where
  "default_request_timeout = 15000"

record client_options =
  co_url :: string
  co_connect_timeout :: nat
  co_request_timeout :: nat

definition new_options :: "string \<Rightarrow> client_options" where
  "new_options url =
     \<lparr>co_url = url, co_connect_timeout = default_connect_timeout,
      co_request_timeout = default_request_timeout\<rparr>"

definition with_connect_timeout :: "nat \<Rightarrow> client_options \<Rightarrow> client_options" where
  "with_connect_timeout value_ms options = options\<lparr>co_connect_timeout := value_ms\<rparr>"

definition with_request_timeout :: "nat \<Rightarrow> client_options \<Rightarrow> client_options" where
  "with_request_timeout value_ms options = options\<lparr>co_request_timeout := value_ms\<rparr>"

section \<open>Certificates\<close>

text \<open>The verifier that a connection is opened with: it asks for no property of a certificate
  or of a signature. The certificates and signatures are those of \<^verbatim>\<open>rustls\<close>.\<close>

record 'scheme certificate_verifier =
  signature_schemes :: "'scheme list"

definition verify_server_cert ::
    "'scheme certificate_verifier \<Rightarrow> 'cert \<Rightarrow> 'cert list \<Rightarrow> string \<Rightarrow> nat list \<Rightarrow> nat \<Rightarrow>
     ('fault, unit) result" where
  "verify_server_cert verifier end_entity intermediates server_name ocsp_response now = Inr ()"

definition verify_tls12_signature ::
    "'scheme certificate_verifier \<Rightarrow> nat list \<Rightarrow> 'cert \<Rightarrow> 'signature \<Rightarrow> ('fault, unit) result" where
  "verify_tls12_signature verifier message certificate signature = Inr ()"

definition verify_tls13_signature ::
    "'scheme certificate_verifier \<Rightarrow> nat list \<Rightarrow> 'cert \<Rightarrow> 'signature \<Rightarrow> ('fault, unit) result" where
  "verify_tls13_signature verifier message certificate signature = Inr ()"

definition supported_verify_schemes :: "'scheme certificate_verifier \<Rightarrow> 'scheme list" where
  "supported_verify_schemes verifier = signature_schemes verifier"

section \<open>The client\<close>

definition client_snapshot :: "connection \<Rightarrow> snapshot option" where
  "client_snapshot c = cn_snapshot c"

definition is_disconnected :: "connection \<Rightarrow> bool" where
  "is_disconnected c = cn_disconnected c"

definition disconnect_error :: "connection \<Rightarrow> client_error option" where
  "disconnect_error c = cn_error c"

text \<open>\<^verbatim>\<open>close\<close>: it raises the flag, unless it is raised already; then it queues a command, for
  which it waits while the queue is full and which fails when the queue is gone.\<close>

definition begin_close :: "connection \<Rightarrow> connection" where
  "begin_close c =
     (if cn_disconnected c then c else c\<lparr>cn_disconnected := True, cn_closing := True\<rparr>)"

definition send_close :: "connection \<Rightarrow> connection option" where
  "send_close c =
     (if \<not> cn_closing c then None
      else if cn_phase c = Gone then Some (c\<lparr>cn_closing := False\<rparr>)
      else if length (cn_queue c) < queue_capacity
      then Some (c\<lparr>cn_closing := False, cn_queue := cn_queue c @ [CmdClose]\<rparr>)
      else None)"

text \<open>It returns when the task of the connection has taken the command, or dropped the queue.\<close>

definition close_returns :: "connection \<Rightarrow> bool" where
  "close_returns c \<longleftrightarrow> \<not> cn_closing c \<and> (CmdClose \<notin> set (cn_queue c) \<or> cn_phase c = Gone)"

text \<open>What \<^verbatim>\<open>request_inner\<close> is called with.\<close>

definition request_call :: "string \<Rightarrow> operation \<Rightarrow> call" where
  "request_call target op = Asked (Some target) op"

definition list_channels_call :: call where
  "list_channels_call = Asked None NodeListChannels"

definition list_channels_result ::
    "(client_error, string response) result \<Rightarrow> (client_error, channel_catalog) result" where
  "list_channels_result result = try_result result (decode_success decode_catalog)"

record target_client =
  tg_client :: connection
  tg_target :: string

definition target_of_client :: "connection \<Rightarrow> string \<Rightarrow> target_client" where
  "target_of_client c target = \<lparr>tg_client = c, tg_target = target\<rparr>"

definition target_request :: "target_client \<Rightarrow> operation \<Rightarrow> call" where
  "target_request t op = request_call (tg_target t) op"

definition mpv_call :: "target_client \<Rightarrow> string \<Rightarrow> json list \<Rightarrow> call" where
  "mpv_call t command args = target_request t (Mpv command args)"

section \<open>A receiver of the events\<close>

text \<open>\<^verbatim>\<open>broadcast::channel(64)\<close>: a receiver begins with the next event, and one that is further
  behind than the capacity has lost events. \<open>None\<close> is a receiver that waits.\<close>

definition client_event_capacity :: nat where
  "client_event_capacity = 64"

definition subscribe_client :: "connection \<Rightarrow> nat" where
  "subscribe_client c = length (cn_events c)"

datatype client_received = ClientEvent event | ClientLagged nat

definition receive_event :: "connection \<Rightarrow> nat \<Rightarrow> (client_received \<times> nat) option" where
  "receive_event c position =
     (let oldest = length (cn_events c) - client_event_capacity in
      if position < oldest then Some (ClientLagged (oldest - position), oldest)
      else if position < length (cn_events c) then Some (ClientEvent (cn_events c ! position), Suc position)
      else None)"

section \<open>Closing\<close>

lemma begin_close_step: "begin_close c = c \<or> conn_step c (begin_close c)"
  by (auto simp: begin_close_def intro: conn_close)

lemma send_close_step: "send_close c = Some c' \<Longrightarrow> conn_step c c'"
  by (auto simp: send_close_def split: if_splits intro: conn_close_sent conn_close_refused)

inductive conn_steps :: "connection \<Rightarrow> connection \<Rightarrow> bool" for c where
  steps_none: "conn_steps c c"
| steps_more: "conn_steps c c' \<Longrightarrow> conn_step c' c'' \<Longrightarrow> conn_steps c c''"

text \<open>The requests that are on their way to the daemon, or already there.\<close>

fun call_request :: "call \<Rightarrow> request option" where
  "call_request (Checked r) = Some r"
| "call_request (Registered r) = Some r"
| "call_request _ = None"

definition on_their_way :: "connection \<Rightarrow> request set" where
  "on_their_way c =
     set (cn_sent c) \<union> {r. CmdRequest r \<in> set (cn_queue c)} \<union> {r. \<exists>s \<in> set (cn_calls c). call_request s = Some r}"

lemma updated_request:
  "s \<in> set (ss[j := x]) \<Longrightarrow> call_request s = Some r \<Longrightarrow>
   call_request x = Some r \<or> (\<exists>s \<in> set ss. call_request s = Some r)"
  using set_update_subset_insert [of ss j x] by blast

lemma disconnected_call:
  assumes "call_step j c s c' s'" and "cn_disconnected c"
  shows "cn_disconnected c'" and "cn_sent c' = cn_sent c"
    and "call_request s' = Some r \<Longrightarrow> call_request s = Some r"
    and "CmdRequest r \<in> set (cn_queue c') \<Longrightarrow> CmdRequest r \<in> set (cn_queue c) \<or> call_request s = Some r"
  using assms by (cases; auto simp: begin_call_def withdraw_def)+

lemma disconnected_step:
  assumes "conn_step c c'" and "cn_disconnected c"
  shows "cn_disconnected c' \<and> on_their_way c' \<subseteq> on_their_way c"
  using assms(1)
proof cases
  case (conn_call j c'' s)
  note call = disconnected_call [OF conn_call(3) assms(2)]
  have "call_request (cn_calls c ! j) = Some r \<Longrightarrow> r \<in> on_their_way c" for r
    using conn_call(2) by (auto simp: on_their_way_def)
  then show ?thesis
    using call conn_call(1) by (auto simp: on_their_way_def dest!: updated_request)
next
  case (conn_message msg c'')
  then have "cn_sent c'' = cn_sent c \<and> cn_queue c'' = cn_queue c \<and> cn_calls c'' = cn_calls c \<and>
      cn_disconnected c'' = cn_disconnected c"
    by (cases msg) (auto split: option.splits sum.splits simp: try_result_def)
  then show ?thesis using conn_message assms(2) by (simp add: on_their_way_def)
qed (use assms(2) in \<open>auto simp: on_their_way_def shutdown_def drain_def split: phase.splits\<close>)

text \<open>A client that is closed, or whose connection is over, sends nothing more than what was on
  its way: no call that begins later reaches the daemon.\<close>

lemma closed_client_is_silent:
  assumes "conn_steps (begin_close c) c'"
  shows "cn_disconnected c' \<and> set (cn_sent c') \<subseteq> on_their_way c"
proof -
  have start: "cn_disconnected (begin_close c)" "on_their_way (begin_close c) = on_their_way c"
    by (simp_all add: begin_close_def on_their_way_def)
  from assms have "cn_disconnected c' \<and> on_their_way c' \<subseteq> on_their_way c"
    by induction (use start disconnected_step in blast)+
  then show ?thesis by (auto simp: on_their_way_def)
qed

section \<open>Receiving\<close>

text \<open>What a receiver gets is every event since it subscribed, in order, or it is told how many
  it has lost.\<close>

lemma receives_in_order:
  assumes "receive_event c position = Some (got, position')"
  shows "(\<exists>e. got = ClientEvent e \<and> drop position (cn_events c) = e # drop position' (cn_events c)) \<or>
    got = ClientLagged (position' - position) \<and> position < position' \<and>
    length (drop position' (cn_events c)) = client_event_capacity"
proof (cases "position < length (cn_events c) - client_event_capacity")
  case True
  then show ?thesis using assms by (auto simp: receive_event_def Let_def)
next
  case False
  then show ?thesis
    using assms Cons_nth_drop_Suc [of position "cn_events c"]
    by (auto simp: receive_event_def Let_def split: if_splits)
qed

end
