(* ===== verification/Spec2Isabelle.thy ===== *)
theory Spec2Isabelle
  imports Startup RuntimeLimits CopyTree FairRuns Receiving Connecting Receipts Listings Program
    Player Handle
begin

text \<open>
  A model of \<^verbatim>\<open>mpv-targets\<close>, a set of Rust programs that run and control mpv players, called
  targets, on a node. The daemon \<^verbatim>\<open>mpv-targetsd\<close> supervises the players of its node and
  publishes their state; clients send it requests over a WebSocket and keep a copy of that
  state; \<^verbatim>\<open>targets\<close> is the command line over the client library, and \<^verbatim>\<open>deploy-targets\<close>
  writes the files from which the daemon starts.

  \<^bold>\<open>Vocabulary.\<close> Prelude has the result type with the question mark, strings as lists of
  bytes and ordered maps (the locale \<open>key_map\<close> with its interpretation \<open>bt\<close>); Json, Paths,
  SocketAddr and Decimal are the parts of \<^verbatim>\<open>serde_json::Value\<close>, \<^verbatim>\<open>std::path\<close>,
  \<^verbatim>\<open>std::net\<close> and \<^verbatim>\<open>str::parse\<close> that the crates use. An error text is represented by the
  values it is formatted from.

  \<^bold>\<open>Shared library (crates/mpv-targets).\<close> Protocol is \<^verbatim>\<open>protocol.rs\<close>: requests and their
  validation, the observed state, snapshots, events, responses; Wire is the form that serde
  derives for requests and responses, WireEvents that of snapshots and events, and how a client
  tells the frames apart (locale \<open>codec\<close>, an interpretation for each type). Config is
  \<^verbatim>\<open>config.rs\<close> and Answer \<^verbatim>\<open>answer.rs\<close> and \<^verbatim>\<open>tls.rs\<close>; both check a list of targets with a set
  of the names seen (locale \<open>target_list_check\<close> in TargetLists, interpreted as \<open>cfg\<close> and \<open>ans\<close>).
  The client, \<^verbatim>\<open>client.rs\<close>, is in seven theories: ClientCache applies events to the cached
  snapshot, Connection is the task of a connection and the calls that share it, Receiving
  what it makes of a stream of frames, Connecting \<^verbatim>\<open>connect\<close> and \<^verbatim>\<open>wait_disconnected\<close>,
  ClientCalls the typed methods and their results, Endpoint the URL of the daemon, Handle the
  options, the accessors and \<^verbatim>\<open>close\<close>.

  \<^bold>\<open>Daemon (crates/mpv-targetsd).\<close> Observed has the pure functions of \<^verbatim>\<open>supervisor.rs\<close>,
  SupervisorState its state and the critical sections under the inner lock. Asynchronous
  code is a tree of the points where it meets the rest of the world (type \<open>task\<close> in Tasks):
  a lock is taken or released, an event is sent, the environment is asked. Supervisor and
  Registry are the operations as such trees, Server is the dispatch of \<^verbatim>\<open>server.rs\<close>: a frame
  becomes a request, a request an operation, its outcome a response. Startup is \<^verbatim>\<open>main.rs\<close>,
  the arguments, the key material and the listener. The same trees are run in three ways.
  Sequential runs one task alone against any environment, with its files (\<open>run\<close> is total, and
  \<open>swp\<close> is its weakest precondition); Lifecycle and Outcomes have the results of the
  operations. Machine lets any number of tasks take turns (\<open>task_step\<close>), with a result type of
  the user's choice, and Interleaving is the machine whose tasks are the requests and jobs of
  the daemon (\<open>sys_step\<close>); Contracts states what a task may rely on and must keep between two
  steps, Guarded proves it for every operation, Replication relates what a critical section
  publishes to what a client makes of it (locale \<open>event_log\<close>, interpretation \<open>ev\<close>), and Traces
  has executable runs of a small daemon. Serving adds the connections of the clients to the
  machine (\<open>node_step\<close>): the accept loop, for each connection its receiver of events, its channel of
  responses and its socket, and the end of the daemon. A run of it is a run of Interleaving
  (locale \<open>restricted_runs\<close>, interpretations \<open>any\<close> and \<open>prompted\<close>); Served has what the connections
  write, ServedRuns executable runs. Fair has the infinite runs in which nobody is passed over for
  ever, Patience the tasks that may wait for a line of mpv in them, and FairRuns a fair run of a
  session that is computed. Player has what a player can do to the daemon, RuntimeLimits the
  bounds of the waiting loops and the places on disk, CopyTree the copying of a directory that
  \<^verbatim>\<open>add\<close> takes as one operation.

  \<^bold>\<open>Programs.\<close> Cli is \<^verbatim>\<open>crates/targets/src/main.rs\<close>: from the arguments to the requests that are
  sent, in order; Commands has what the commands send. Texts has the labels, receipts and
  columns that are printed, Dialogue each command as a tree of what is sent, read from the
  answers and printed, Operator the runs of these trees against any answers, Program the whole of
  \<^verbatim>\<open>run\<close> and \<^verbatim>\<open>main\<close>, against any answers and against those of the daemon, and Listings what the
  operator can do with the lists. Deploy is \<^verbatim>\<open>crates/deploy-targets/src/main.rs\<close>: the plan as a
  list of steps on the disk; DeployTree has what they leave behind whatever fails, Redeploy the
  overwriting of an old deployment, Receipts what is printed.

  \<^bold>\<open>What is shown.\<close> In every interleaving the registry stays consistent with a valid
  configuration, no task panics, and the two locks do not deadlock, nor does the daemon with its
  connections get stuck. In a fair run every task comes to its end, both locks are released again
  and again, every text that is read is answered, and every client catches up with the events,
  unless its connection is over; once the daemon falls silent, all clients come to show its state.
  Every frame that a connection reads is answered once, under its id; a connection writes a snapshot and then every later event, in order, and a client that reads
  the frames of a daemon whose events are sent promptly holds exactly the daemon's snapshot. Run
  alone, the configuration file follows the memory, and each operation has its result on
  every branch, errors included. In the client, responses are matched to calls and every call
  ends. The wire form, the URL of the daemon, saved playlists and decimal numbers are read back
  as written. The program of the operator runs against any answers as the script of its command says,
  it can decode what the daemon returns, and what the lists show can be given back. A deployment
  replaces whole files, never rejects its own configuration, asks before it removes one, and the
  daemon starts from what it wrote. The theorems \<open>event_taken_for_reply\<close>,
  \<open>silent_player_blocks_changes\<close>, \<open>event_overtaken\<close>, \<open>snapshot_overtakes_event\<close>,
  \<open>stop_loses_to_launch\<close>, \<open>recovery_abandoned\<close>, \<open>request_misses_shutdown\<close>,
  \<open>connect_loses_reason\<close>, \<open>add_fails_half_done\<close>, \<open>overwrite_without_home\<close> and
  \<open>key_exposed_in_temporary\<close> are runs of the code as it is that end in states it does not mean to
  reach.

  \<^bold>\<open>Termination and bounds.\<close> No definition needs fuel: loops over data are structural or have a
  measure, a task tree is finite, and a loop of the daemon that may go on forever (observation,
  recovery) is one task for each round, which starts the next. The wait for a socket has a
  measure; its deadline of five seconds, the queue of 32 commands, the channel of 32 responses
  and the 128 events that a receiver may be behind are those of the code. Revisions and request
  ids are 64-bit words that wrap; where the ids must differ, the connection has made fewer than
  \<open>2 ^ 64\<close> calls. A binary64 value is a rational; only the answer file can hold the
  infinities and the values that are no number.

  \<^bold>\<open>Environment.\<close> mpv, the file system, sockets and the clock answer arbitrarily. The parsers
  of TOML, PEM and JSON text, the TLS library, the certificate generator and the display of a
  binary64 value are parameters, as are the steps of connecting that belong to the TCP, TLS and
  WebSocket libraries: they succeed or fail. A file system operation that fails may leave
  anything in what it writes; renaming is atomic. The names of targets are compared as bytes;
  upper-casing and trimming are those of ASCII. Printing to the terminal succeeds.

  \<^bold>\<open>Not modelled.\<close> The bytes of TLS and WebSocket frames and of JSON numbers (events are exchanged
  as JSON values), the forms of serde that write a structure as an array, the delivery of
  signals, reading environment variables and the files they name, the two timeouts of the
  client as durations (a call or a connection attempt can run out of time at any moment), the
  help texts of the daemon and of the deployment, and the messages on the standard error output.
\<close>

section \<open>A connection mirrors the daemon\<close>

lemma first_snapshot:
  "apply_events None (SnapshotEvent (snapshot_from i) # es) = apply_events (Some (snapshot_from i)) es"
  by (simp add: apply_event_def snapshot_from_def Let_def)

lemma frames_received:
  "message_events (map (\<lambda>f. classify_frame (frame_json shown f)) fs) = frame_events fs \<and>
   IncomingGarbage \<notin> set (map (\<lambda>f. classify_frame (frame_json shown f)) fs)"
proof (induction fs)
  case (Cons f fs)
  then show ?case by (cases f) (simp_all add: classify_event classify_response)
qed simp

lemma stream_applies:
  assumes valid: "validate_config config = Inr ()"
    and run: "node_run node_prompt parse pt (node_init pt config) n"
    and s: "s \<in> set (nd_conns n)" "sv_phase s = Serving" "sv_next s = length (sy_log n)"
    and still: "\<forall>p \<in> set (sy_tasks n). \<not> sends p"
  shows "apply_events None (written_events s) = Inr (Some (snapshot_from (sy_inner n)))"
proof -
  let ?o = "origin_of prompt_reaches no_pending pt config n"
  have "stream_ok ?o (sy_log n) s" using prompted.streams [OF run] s(1) by blast
  then obtain sn b where o: "?o sn b" and events: "written_events s = SnapshotEvent sn # drop b (sy_log n)"
    using s(2,3) by (auto simp: stream_ok_def dest: opens_events)
  obtain m where m: "prompt_reaches pt (sys_init pt config) m" "no_pending m"
    "sn = snapshot_from (sy_inner m)" "b = length (sy_log m)" "prompt_reaches pt m (erase n)"
    using o by (auto simp: origin_of_def)
  have "no_pending (erase n)" using still by (auto simp: no_pending_def)
  then show ?thesis
    using in_sync_run [OF valid m(1,5,2)] events m(3,4) by (simp add: first_snapshot del: apply_events.simps)
qed

lemma mirrors:
  assumes valid: "validate_config config = Inr ()"
    and run: "node_run node_prompt parse pt (node_init pt config) n"
    and s: "s \<in> set (nd_conns n)" "sv_phase s = Serving" "sv_next s = length (sy_log n)"
    and still: "\<forall>p \<in> set (sy_tasks n). \<not> sends p"
    and c: "conn_reaches c"
      "cn_received c = map (\<lambda>f. classify_frame (frame_json shown f)) (sv_written s)"
  shows "cn_snapshot c = Some (snapshot_from (sy_inner n))"
proof -
  have applies: "apply_events None (written_events s) = Inr (Some (snapshot_from (sy_inner n)))"
    by (rule stream_applies [OF valid run s still])
  then have "cn_events c = written_events s"
    using all_events_passed [OF c(1)] frames_received [of shown "sv_written s"] by (simp add: c(2))
  then show ?thesis using replayed_snapshot [OF c(1)] applies by simp
qed

text \<open>
  C3. A client of a daemon whose events are sent promptly shows what the daemon holds: when the
  connection that serves it has written all that was sent, and the client has read all of
  its frames, responses among them, the snapshot in the cache of the client is the state of
  the daemon, whatever calls and answers they exchanged besides.
\<close>

theorem client_mirrors_daemon:
  assumes valid: "validate_config config = Inr ()"
    and run: "node_run node_prompt parse pt (node_init pt config) n"
    and s: "s \<in> set (nd_conns n)" "sv_phase s = Serving" "sv_next s = length (sy_log n)"
    and still: "\<forall>p \<in> set (sy_tasks n). \<not> sends p"
    and c: "conn_reaches c"
      "cn_received c = map (\<lambda>f. classify_frame (frame_json shown f)) (sv_written s)"
  shows "cn_snapshot c = Some (snapshot_from (sy_inner n))"
  by (rule mirrors [OF assms])

theorem client_mirrors_daemon_witness:
  "\<exists>c n. conn_reaches c \<and> length (cn_received c) = 3 \<and>
     cn_snapshot c = Some (snapshot_from (sy_inner (n :: node)))"
proof -
  let ?ms = "\<lambda>s. map (\<lambda>f. classify_frame (frame_json (\<lambda>_. []) f)) (sv_written s)"
  obtain n s where n: "node_run node_prompt no_parse demo_paths (node_init demo_paths demo_config) n"
    and s: "s \<in> set (nd_conns n)" "sv_phase s = Serving" "sv_next s = length (sy_log n)"
    and still: "\<forall>p \<in> set (sy_tasks n). \<not> sends p" and frames: "length (sv_written s) = 3"
    by (rule demo_client)
  obtain c where c: "conn_reaches c" "cn_received c = ?ms s"
    using messages_received [of "?ms s"] frames_received [of "\<lambda>_. []" "sv_written s"]
      stream_applies [OF demo_valid n s still] by auto
  have "cn_snapshot c = Some (snapshot_from (sy_inner n))"
    by (rule client_mirrors_daemon [OF demo_valid n s still c])
  moreover have "length (cn_received c) = 3" using c(2) frames by simp
  ultimately show ?thesis using c(1) by blast
qed

section \<open>Clients converge\<close>

text \<open>
  C4. Clients converge: in a fair run of a daemon that sends its events promptly, once the
  daemon publishes nothing more, the frames of each client that is past the handshake come
  from some point on to the state of the daemon, and a client that has read them shows it,
  unless its connection is over.
\<close>

theorem clients_converge:
  assumes run: "fair_daemon parse pt config ns ls" and prompt: "prompt_run ns ls"
    and silent: "\<And>m. i \<le> m \<Longrightarrow> sy_log (ns m) = sy_log (ns i)"
    and c: "c < length (nd_conns (ns i))" "sv_phase (nd_conns (ns i) ! c) \<noteq> Handshaking"
  shows "\<exists>k \<ge> i. \<forall>m \<ge> k. over (nd_conns (ns m) ! c) \<or>
    apply_events None (written_events (nd_conns (ns m) ! c)) = Inr (Some (snapshot_from (sy_inner (ns m)))) \<and>
    (\<forall>client. conn_reaches client \<longrightarrow>
       cn_received client = map (\<lambda>f. classify_frame (frame_json shown f)) (sv_written (nd_conns (ns m) ! c)) \<longrightarrow>
       cn_snapshot client = Some (snapshot_from (sy_inner (ns m))))"
proof -
  obtain k where k: "i \<le> k"
    "\<And>m. k \<le> m \<Longrightarrow> remaining (length (sy_log (ns i))) (nd_conns (ns m) ! c) = 0"
    using stays_caught_up [OF run c] by blast
  have valid: "validate_config config = Inr ()" using run by (simp add: fair_daemon_def)
  have "apply_events None (written_events (nd_conns (ns m) ! c)) = Inr (Some (snapshot_from (sy_inner (ns m)))) \<and>
    (\<forall>client. conn_reaches client \<longrightarrow>
       cn_received client = map (\<lambda>f. classify_frame (frame_json shown f)) (sv_written (nd_conns (ns m) ! c)) \<longrightarrow>
       cn_snapshot client = Some (snapshot_from (sy_inner (ns m))))"
    if m: "k \<le> m" and going: "\<not> over (nd_conns (ns m) ! c)" for m
  proof -
    let ?s = "nd_conns (ns m) ! c"
    have im: "i \<le> m" using k(1) m by simp
    have s: "?s \<in> set (nd_conns (ns m))" using run_conns [OF run c(1) im] by simp
    have serving: "sv_phase ?s = Serving" "length (sy_log (ns i)) \<le> sv_next ?s"
      using k(2) [OF m] going by (auto simp: remaining_def over_def split: serve_phase.splits)
    have "sv_next ?s \<le> length (sy_log (ns m))"
      using any.streams [OF run_reaches [OF run, of m]] s serving(1) by (auto simp: stream_ok_def)
    then have upto: "sv_next ?s = length (sy_log (ns m))" using serving(2) silent [OF im] by simp
    have still: "\<forall>p \<in> set (sy_tasks (ns m)). \<not> sends p"
      using silence_settles [OF run silent im] by (auto simp: in_set_conv_nth)
    note here = valid prompt_run_reaches [OF run prompt] s serving(1) upto still
    show ?thesis using stream_applies [OF here] mirrors [OF here] by blast
  qed
  then show ?thesis using k(1) by blast
qed

theorem clients_converge_witness:
  "\<exists>client m. conn_reaches client \<and>
     cn_received client = map (\<lambda>f. classify_frame (frame_json (\<lambda>_. []) f)) (sv_written (nd_conns (fair_nodes m) ! 0)) \<and>
     cn_snapshot client = Some (snapshot_from (sy_inner (fair_nodes m)))"
proof -
  let ?ms = "\<lambda>m. map (\<lambda>f. classify_frame (frame_json (\<lambda>_. []) f)) (sv_written (nd_conns (fair_nodes m) ! 0))"
  have c: "0 < length (nd_conns (fair_nodes 24))" "sv_phase (nd_conns (fair_nodes 24) ! 0) \<noteq> Handshaking"
    using fair_demo(7) by (simp_all add: at_phase_def)
  have silent: "sy_log (fair_nodes m) = sy_log (fair_nodes 24)" if "24 \<le> m" for m
    using fair_demo(6) [OF that] by simp
  obtain k where k: "24 \<le> k" "over (nd_conns (fair_nodes k) ! 0) \<or>
    apply_events None (written_events (nd_conns (fair_nodes k) ! 0)) = Inr (Some (snapshot_from (sy_inner (fair_nodes k)))) \<and>
    (\<forall>client. conn_reaches client \<longrightarrow> cn_received client = ?ms k \<longrightarrow>
       cn_snapshot client = Some (snapshot_from (sy_inner (fair_nodes k))))"
    using clients_converge [OF fair_demo(1,5) silent c, of "\<lambda>_. []"] by blast
  have "at_phase (fair_nodes k) 0 Serving" using fair_demo(6) [OF k(1)] fair_demo(7) by simp
  then have "\<not> over (nd_conns (fair_nodes k) ! 0)" by (simp add: at_phase_def over_phase)
  then have applies: "apply_events None (written_events (nd_conns (fair_nodes k) ! 0)) =
      Inr (Some (snapshot_from (sy_inner (fair_nodes k))))"
    and shows_it: "\<And>client. conn_reaches client \<Longrightarrow> cn_received client = ?ms k \<Longrightarrow>
      cn_snapshot client = Some (snapshot_from (sy_inner (fair_nodes k)))"
    using k(2) by blast+
  obtain client where "conn_reaches client" "cn_received client = ?ms k"
    using messages_received [of "?ms k"] frames_received [of "\<lambda>_. []" "sv_written (nd_conns (fair_nodes k) ! 0)"]
      applies by auto
  then show ?thesis using shows_it by blast
qed

end
